(* ===== verification/Prelude.thy ===== *)
theory Prelude
  imports "HOL-Library.Word" "HOL-Library.Char_ord" "HOL-Library.List_Lexorder"
begin

text \<open>
  What every component of the development shares: the types that stand for the machine's
  bytes and sizes, the collections of hints the component theories fill, and the generic
  lemmas on prefixes of lists (\<open>takeWhile\<close>, \<open>drop\<close>, counting loops) that the
  byte-level code is reasoned with.

  Bytes are 8-bit words (\<open>unsigned char\<close>), \<open>std::size_t\<close> and
  \<open>uint_least64_t\<close> values whose overflow matters are 64-bit words. A position in a buffer
  is a \<open>nat\<close>: it is bounded by the length of an object in memory, and the bound is proved
  where the code relies on it.
\<close>

type_synonym byte = "8 word"
type_synonym u64 = "64 word"
type_synonym bytes = "8 word list"

text \<open>The bytes of a C++ narrow string literal.\<close>

definition asc :: "string \<Rightarrow> bytes" where
  "asc s = map of_char s"

lemma asc_Nil [simp]: "asc [] = []"
  by (simp add: asc_def)

lemma length_asc [simp]: "length (asc s) = length s"
  by (simp add: asc_def)

lemma asc_append: "asc (s @ t) = asc s @ asc t"
  by (simp add: asc_def)

named_theorems reader_step \<comment> \<open>the handlers of the two message readers, one per parser state\<close>
named_theorems bounds_intro \<comment> \<open>what keeps a cursor inside its buffer\<close>
named_theorems keeps_registry \<comment> \<open>service operations that keep the registry invariant\<close>

section \<open>Counting loops over a view\<close>

text \<open>
  \<open>for (i = 0; i != view.size(); ++i) { if (!p(view[i])) break; ++res; }\<close>, the loop of
  every \<open>match\<close> function of \<open>http/include/boost/http/syntax\<close>.
\<close>

fun match_while :: "('a \<Rightarrow> bool) \<Rightarrow> 'a list \<Rightarrow> nat" where
  "match_while p [] = 0"
| "match_while p (c # cs) = (if p c then Suc (match_while p cs) else 0)"

lemma match_while_takeWhile: "match_while p v = length (takeWhile p v)"
  by (induction v) auto

lemma match_while_le [bounds_intro, simp]: "match_while p v \<le> length v"
  by (simp add: match_while_takeWhile length_takeWhile_le)

lemma take_match_while: "take (match_while p v) v = takeWhile p v"
  by (induction v) auto

lemma drop_match_while: "drop (match_while p v) v = dropWhile p v"
  by (induction v) auto

lemma match_while_eq_length: "match_while p v = length v \<longleftrightarrow> (\<forall>c \<in> set v. p c)"
  by (induction v) auto

lemma match_while_stop:
  "match_while p v < length v \<Longrightarrow> \<not> p (v ! match_while p v)"
  by (simp add: match_while_takeWhile nth_length_takeWhile)

lemma match_while_nth:
  "i < match_while p v \<Longrightarrow> p (v ! i)"
  by (metis match_while_takeWhile nth_mem set_takeWhileD takeWhile_nth)

lemma match_while_append_stop:
  assumes "match_while p v < length v"
  shows "match_while p (v @ w) = match_while p v"
  using assms by (induction v) (auto split: if_splits)

lemma match_while_append_all:
  assumes "match_while p v = length v"
  shows "match_while p (v @ w) = length v + match_while p w"
  using assms by (induction v) (auto split: if_splits)

lemma dropWhile_Cons_iff:
  "dropWhile p v = c # cs \<longleftrightarrow> (\<exists>pre. v = pre @ c # cs \<and> list_all p pre \<and> \<not> p c)"
proof
  assume "dropWhile p v = c # cs"
  then have "v = takeWhile p v @ c # cs" "\<not> p c"
    by (simp_all add: dropWhile_eq_Cons_conv)
  moreover have "list_all p (takeWhile p v)"
    by (auto simp: list_all_iff dest: set_takeWhileD)
  ultimately show "\<exists>pre. v = pre @ c # cs \<and> list_all p pre \<and> \<not> p c"
    by blast
qed (auto simp: list_all_iff dropWhile_append)

section \<open>Comparing a view against a literal\<close>

text \<open>
  The loop that compares the bytes at hand with a fixed string: \<open>None\<close> when a byte
  differs, otherwise the number of bytes compared (the shorter of the two lengths).
\<close>

fun match_literal :: "'a list \<Rightarrow> 'a list \<Rightarrow> nat option" where
  "match_literal (l # ls) (c # cs) = (if c \<noteq> l then None else map_option Suc (match_literal ls cs))"
| "match_literal [] cs = Some 0"
| "match_literal ls [] = Some 0"

lemma match_literal_Some:
  "match_literal ls cs = Some n \<Longrightarrow> n = min (length ls) (length cs) \<and> take n ls = take n cs"
  by (induction ls cs arbitrary: n rule: match_literal.induct) (auto split: if_splits)

lemma match_literal_None:
  "match_literal ls cs = None \<longleftrightarrow>
   take (min (length ls) (length cs)) ls \<noteq> take (min (length ls) (length cs)) cs"
  by (induction ls cs rule: match_literal.induct) auto

section \<open>Joining and splitting at a separator\<close>

fun join_with :: "'a list \<Rightarrow> 'a list list \<Rightarrow> 'a list" where
  "join_with sep [] = []"
| "join_with sep [x] = x"
| "join_with sep (x # y # ys) = x @ sep @ join_with sep (y # ys)"

lemma join_with_fold:
  "join_with sep (x # xs) = x @ concat (map (\<lambda>y. sep @ y) xs)"
  by (induction xs arbitrary: x) auto

text \<open>The pieces of a list between the occurrences of a separator element.\<close>

fun split_on :: "'a \<Rightarrow> 'a list \<Rightarrow> 'a list list" where
  "split_on d [] = [[]]"
| "split_on d (c # cs) =
     (if c = d then [] # split_on d cs
      else (case split_on d cs of [] \<Rightarrow> [[c]] | p # ps \<Rightarrow> (c # p) # ps))"

lemma split_on_not_Nil [simp]: "split_on d cs \<noteq> []"
  by (induction cs) (auto split: list.splits)

lemma split_on_no_sep: "d \<notin> set cs \<Longrightarrow> split_on d cs = [cs]"
  by (induction cs) auto

lemma split_on_append_sep:
  "d \<notin> set xs \<Longrightarrow> split_on d (xs @ d # ys) = xs # split_on d ys"
  by (induction xs) auto

lemma dropWhile_neq_Cons: "dropWhile (\<lambda>c. c \<noteq> d) cs = x # xs \<Longrightarrow> x = d \<and> d \<in> set cs"
  by (metis (mono_tags, lifting) dropWhile_eq_Cons_conv in_set_conv_decomp)

lemma split_on_takeWhile:
  "split_on d cs =
   (case dropWhile (\<lambda>c. c \<noteq> d) cs of
      [] \<Rightarrow> [cs]
    | _ # rest \<Rightarrow> takeWhile (\<lambda>c. c \<noteq> d) cs # split_on d rest)"
  by (induction cs) (auto split: list.splits dest: dropWhile_neq_Cons)

lemma split_on_join:
  assumes "xs \<noteq> []" and "\<And>x. x \<in> set xs \<Longrightarrow> d \<notin> set x"
  shows "split_on d (join_with [d] xs) = xs"
  using assms
  by (induction "[d]" xs rule: join_with.induct)
     (auto simp: split_on_no_sep split_on_append_sep)

end
