(* ===== verification/Syntax.thy ===== *)
theory Syntax
  imports Prelude
begin

text \<open>
  The byte-level grammar of HTTP messages: the character classes of
  \<open>reader/detail/abnf.hpp\<close> and \<open>syntax/detail/*.hpp\<close>, the \<open>match\<close> and \<open>decode\<close> functions of
  \<open>http/include/boost/http/syntax/*.ipp\<close>. The views are instantiated with \<open>unsigned char\<close>, so a
  byte is an 8-bit word. The two copies of a class (one for the readers, one for \<open>syntax\<close>) are the
  same set of bytes and one definition. \<open>decode\<close> works on a 64-bit \<open>Target\<close>
  (\<open>uint_least64_t\<close>), with its overflow tests as in the code; the theorems say that it accepts
  exactly the numerals below \<open>2^64\<close> and returns their value.
\<close>

section \<open>Character classes\<close>

definition isalpha :: "byte \<Rightarrow> bool" where
  "isalpha c \<longleftrightarrow> (0x41 \<le> c \<and> c \<le> 0x5A) \<or> (0x61 \<le> c \<and> c \<le> 0x7A)"

definition isdigit :: "byte \<Rightarrow> bool" where
  "isdigit c \<longleftrightarrow> 0x30 \<le> c \<and> c \<le> 0x39"

definition isalnum :: "byte \<Rightarrow> bool" where
  "isalnum c \<longleftrightarrow> isalpha c \<or> isdigit c"

definition is_tchar :: "byte \<Rightarrow> bool" where
  "is_tchar c \<longleftrightarrow> c \<in> set (asc (''!#$%&*+-.^_|~'' @ [CHR 0x27, CHR 0x60])) \<or> isalnum c"

definition is_sp :: "byte \<Rightarrow> bool" where
  "is_sp c \<longleftrightarrow> c = 0x20"

definition is_vchar :: "byte \<Rightarrow> bool" where
  "is_vchar c \<longleftrightarrow> 0x21 \<le> c \<and> c \<le> 0x7E"

definition is_obs_text :: "byte \<Rightarrow> bool" where
  "is_obs_text c \<longleftrightarrow> 0x80 \<le> c"

definition is_ows :: "byte \<Rightarrow> bool" where
  "is_ows c \<longleftrightarrow> c = 0x20 \<or> c = 0x09"

definition is_chunk_ext_char :: "byte \<Rightarrow> bool" where
  "is_chunk_ext_char c \<longleftrightarrow>
     c \<in> {0x3B, 0x3D, 0x22, 0x09, 0x20, 0x21, 0x5C} \<or>
     is_tchar c \<or> (0x23 \<le> c \<and> c \<le> 0x5B) \<or> (0x5D \<le> c \<and> c \<le> 0x7E) \<or> is_obs_text c \<or> is_vchar c"

definition is_request_target_char :: "byte \<Rightarrow> bool" where
  "is_request_target_char c \<longleftrightarrow>
     c \<in> set (asc (''?/-._~%!$&()*+,;=:@'' @ [CHR 0x27])) \<or> isalnum c"

definition is_field_value_char :: "byte \<Rightarrow> bool" where
  "is_field_value_char c \<longleftrightarrow> is_vchar c \<or> is_obs_text c \<or> is_ows c"

definition is_reason_phrase_char :: "byte \<Rightarrow> bool" where
  "is_reason_phrase_char c \<longleftrightarrow> is_ows c \<or> is_vchar c \<or> is_obs_text c"

definition is_hexdigit :: "byte \<Rightarrow> bool" where
  "is_hexdigit c \<longleftrightarrow> c \<in> set (asc ''0123456789ABCDEFabcdef'')"

section \<open>The \<open>match\<close> functions\<close>

definition field_name_match :: "bytes \<Rightarrow> nat" where
  "field_name_match v = match_while is_tchar v"

definition ows_match :: "bytes \<Rightarrow> nat" where
  "ows_match v = match_while is_ows v"

definition left_trimmed_field_value_match :: "bytes \<Rightarrow> nat" where
  "left_trimmed_field_value_match v = match_while is_field_value_char v"

definition reason_phrase_match :: "bytes \<Rightarrow> nat" where
  "reason_phrase_match v = match_while is_reason_phrase_char v"

definition chunk_size_match :: "bytes \<Rightarrow> nat" where
  "chunk_size_match v = match_while is_hexdigit v"

definition strict_crlf_match :: "bytes \<Rightarrow> nat" where
  "strict_crlf_match v =
     (if length v < 2 then 0
      else if v ! 0 \<noteq> 0x0D \<or> v ! 1 \<noteq> 0x0A then 0
      else 2)"

datatype liberal_crlf_result = Crlf | Lf | Insufficient_data | Invalid_data

definition liberal_crlf_match :: "bytes \<Rightarrow> liberal_crlf_result" where
  "liberal_crlf_match v =
     (if 1 \<le> length v \<and> v ! 0 = 0x0A then Lf
      else if 1 \<le> length v \<and> v ! 0 \<noteq> 0x0D then Invalid_data
      else if 2 \<le> length v then (if v ! 1 = 0x0A then Crlf else Invalid_data)
      else Insufficient_data)"

definition status_code_match :: "bytes \<Rightarrow> nat" where
  "status_code_match v =
     (if length v < 3 then 0
      else if \<not> list_all isdigit (take 3 v) then 0
      else 3)"

text \<open>
  \<open>(view[0] - '0') * 100 + (view[1] - '0') * 10 + view[2] - '0'\<close>, computed in \<open>int\<close> and
  returned as \<open>uint_least16_t\<close>.
\<close>

definition status_code_decode :: "bytes \<Rightarrow> 16 word" where
  "status_code_decode v =
     word_of_int ((uint (v ! 0) - 48) * 100 + (uint (v ! 1) - 48) * 10 + uint (v ! 2) - 48)"

section \<open>The \<open>decode\<close> functions\<close>

datatype decode_result = Invalid | Ok | Overflow

text \<open>
  The loop both decoders share: the digits from the last to the first (the list is reversed),
  \<open>digit\<close> the weight of the current one, the result and what was written to \<open>out\<close> so far.
\<close>

fun decode_digits :: "(byte \<Rightarrow> u64 option) \<Rightarrow> u64 \<Rightarrow> bytes \<Rightarrow> u64 \<Rightarrow> u64 \<Rightarrow> decode_result \<times> u64" where
  "decode_digits val base [] digit out = (Ok, out)"
| "decode_digits val base (c # cs) digit out =
     (case val c of
        None \<Rightarrow> (Invalid, out)
      | Some v \<Rightarrow>
          if (- 1) div digit < v then (Overflow, out)
          else let v = v * digit
               in if (- 1) - v < out then (Overflow, out)
                  else let out = out + v
                       in if cs = [] then (Ok, out)
                          else if (- 1) div base < digit then (Overflow, out)
                          else decode_digits val base cs (digit * base) out)"

definition dec_digit :: "byte \<Rightarrow> u64 option" where
  "dec_digit c = (if isdigit c then Some (ucast (c - 0x30)) else None)"

definition hex_digit :: "byte \<Rightarrow> u64 option" where
  "hex_digit c =
     (if isdigit c then Some (ucast (c - 0x30))
      else if c \<in> set (asc ''aAbBcCdDeEfF'') then Some (ucast (10 + (or c 0x20) - 0x61))
      else None)"

definition decode_number :: "(byte \<Rightarrow> u64 option) \<Rightarrow> u64 \<Rightarrow> bytes \<Rightarrow> u64 \<Rightarrow> decode_result \<times> u64" where
  "decode_number val base v out =
     (if v = [] then (Invalid, out)
      else let v = dropWhile (\<lambda>c. c = 0x30) v
           in if v = [] then (Ok, 0) else decode_digits val base (rev v) 1 0)"

definition content_length_decode :: "bytes \<Rightarrow> u64 \<Rightarrow> decode_result \<times> u64" where
  "content_length_decode v out = decode_number dec_digit 10 v out"

definition chunk_size_decode :: "bytes \<Rightarrow> u64 \<Rightarrow> decode_result \<times> u64" where
  "chunk_size_decode v out = decode_number hex_digit 16 v out"

section \<open>What the decoders accept\<close>

text \<open>The overflow tests of the loop, on the numbers the words stand for.\<close>

lemma unat_max: "unat (- 1 :: u64) = 2 ^ 64 - 1"
  by (simp add: unsigned_minus_1_eq_mask mask_eq_exp_minus_1)

lemma quotient_test:
  fixes d v :: u64
  assumes "0 < d"
  shows "(- 1) div d < v \<longleftrightarrow> 2 ^ 64 \<le> unat d * unat v"
proof -
  have d: "0 < unat d"
    using assms by (simp add: unat_gt_0 word_neq_0_conv)
  have "(- 1) div d < v \<longleftrightarrow> (2 ^ 64 - 1) div unat d < unat v"
    by (simp add: word_less_nat_alt unat_div_distrib unat_max)
  also have "\<dots> \<longleftrightarrow> 2 ^ 64 - 1 < unat v * unat d"
    by (rule div_less_iff_less_mult [OF d])
  also have "\<dots> \<longleftrightarrow> 2 ^ 64 \<le> unat d * unat v"
    by (auto simp: mult.commute)
  finally show ?thesis .
qed

lemma difference_test:
  fixes v w :: u64
  shows "(- 1) - v < w \<longleftrightarrow> 2 ^ 64 \<le> unat v + unat w"
proof -
  have "unat ((- 1) - v) = 2 ^ 64 - 1 - unat v"
    using unat_sub [of v "- 1"] by (simp add: unat_max)
  then show ?thesis
    using unsigned_less [of v, where ?'a = nat] by (auto simp: word_less_nat_alt)
qed

lemma unat_mult_small: "unat (d :: u64) * unat v < 2 ^ 64 \<Longrightarrow> unat (v * d) = unat d * unat v"
  by (subst unat_word_ariths(2)) (simp add: mult.commute [of "unat v"])

lemma unat_add_small: "unat (v :: u64) + unat w < 2 ^ 64 \<Longrightarrow> unat (w + v) = unat v + unat w"
  by (subst unat_word_ariths(1)) (simp add: add.commute [of "unat w"])

text \<open>The value of a numeral, its least significant digit first; \<open>None\<close>: a byte is no digit.\<close>

fun digits_value :: "(byte \<Rightarrow> u64 option) \<Rightarrow> nat \<Rightarrow> bytes \<Rightarrow> nat option" where
  "digits_value val base [] = Some 0"
| "digits_value val base (c # cs) =
     (case val c of None \<Rightarrow> None
      | Some v \<Rightarrow> map_option (\<lambda>n. unat v + base * n) (digits_value val base cs))"

lemma digits_value_pos:
  assumes "digits_value val base cs = Some n" and "cs \<noteq> []" and "val (last cs) \<noteq> Some 0" and "0 < base"
  shows "0 < n"
  using assms
proof (induction cs arbitrary: n)
  case (Cons c cs)
  then show ?case
    by (cases "cs = []") (auto split: option.splits simp: unat_gt_0 word_neq_0_conv)
qed simp

lemma decode_digits_Ok:
  fixes d base :: u64
  assumes "cs \<noteq> []" and "val (last cs) \<noteq> Some 0" and "0 < d" and "0 < base"
  shows "decode_digits val base cs d w = (Ok, n) \<longleftrightarrow>
    (\<exists>k. digits_value val (unat base) cs = Some k \<and> unat w + unat d * k < 2 ^ 64 \<and> unat n = unat w + unat d * k)"
  using assms
proof (induction cs arbitrary: d w)
  case (Cons c cs)
  show ?case
  proof (cases "val c")
    case (Some v)
    show ?thesis
    proof (cases "unat w + unat d * unat v < 2 ^ 64")
      case True
      have small: "unat d * unat v < 2 ^ 64"
        using True by linarith
      have vd: "unat (v * d) = unat d * unat v"
        by (rule unat_mult_small [OF small])
      have o1: "unat (w + v * d) = unat w + unat d * unat v"
        using True unat_add_small [of "v * d" w] by (simp add: vd)
      have tests: "\<not> (- 1) div d < v" "\<not> (- 1) - v * d < w"
        using Cons.prems(3) small True by (simp_all add: quotient_test difference_test vd del: not_less)
      show ?thesis
      proof (cases "cs = []")
        case True
        then show ?thesis
          using Some tests o1 \<open>unat w + unat d * unat v < 2 ^ 64\<close> by (auto simp: Let_def word_unat_eq_iff)
      next
        case False
        then have last: "val (last cs) \<noteq> Some 0"
          using Cons.prems(2) by simp
        show ?thesis
        proof (cases "(- 1) div base < d")
          case ov: True
          have big: "2 ^ 64 \<le> unat base * unat d"
            using ov quotient_test [OF Cons.prems(4)] by blast
          have "2 ^ 64 \<le> unat w + unat d * (unat v + unat base * k)"
            if k: "digits_value val (unat base) cs = Some k" for k
          proof -
            have "0 < k"
              using digits_value_pos [OF k False last] Cons.prems(4) by (simp add: word_less_nat_alt)
            then have "unat base * unat d * 1 \<le> unat base * unat d * k"
              by (intro mult_le_mono2) simp
            with big have "2 ^ 64 \<le> unat base * unat d * k"
              by linarith
            also have "\<dots> \<le> unat w + unat d * (unat v + unat base * k)"
              by (simp add: algebra_simps)
            finally show ?thesis .
          qed
          with ov Some tests False show ?thesis
            by (fastforce simp: Let_def)
        next
          case nov: False
          have "unat base * unat d < 2 ^ 64"
            using nov quotient_test [OF Cons.prems(4)] by (simp add: not_le)
          then have db: "unat (d * base) = unat base * unat d"
            by (rule unat_mult_small)
          then have "0 < d * base"
            using Cons.prems(3,4) by (simp add: word_less_nat_alt)
          have step: "decode_digits val base (c # cs) d w = decode_digits val base cs (d * base) (w + v * d)"
            using Some tests False nov by (simp add: Let_def)
          have arith: "unat w + unat d * unat v + unat base * unat d * k = unat w + unat d * (unat v + unat base * k)" for k
            by (simp add: algebra_simps)
          show ?thesis
            unfolding step Cons.IH [OF False last \<open>0 < d * base\<close> Cons.prems(4)] o1 db arith
            using Some by auto
        qed
      qed
    next
      case False
      then have "decode_digits val base (c # cs) d w = (Overflow, w)"
        using Some Cons.prems(3) unat_mult_small [of d v]
        by (auto simp: Let_def quotient_test difference_test not_less algebra_simps)
      then show ?thesis
        using False Some by (auto simp: algebra_simps)
    qed
  qed simp
qed simp

text \<open>Numerals as they are written, the most significant digit first.\<close>

definition numeral_value :: "(byte \<Rightarrow> u64 option) \<Rightarrow> nat \<Rightarrow> bytes \<Rightarrow> nat option" where
  "numeral_value val base v = digits_value val base (rev v)"

lemma digits_value_append_zeros:
  assumes "\<forall>c \<in> set zs. val c = Some 0"
  shows "digits_value val base (cs @ zs) = digits_value val base cs"
proof (induction cs)
  case Nil
  from assms show ?case
    by (induction zs) auto
qed (simp split: option.splits)

lemma numeral_value_drop_zeros:
  assumes "val 0x30 = Some 0"
  shows "numeral_value val base (dropWhile (\<lambda>c. c = 0x30) v) = numeral_value val base v"
proof -
  have "\<forall>c \<in> set (rev (takeWhile (\<lambda>c. c = 0x30) v)). val c = Some 0"
    using assms set_takeWhileD by fastforce
  from digits_value_append_zeros [of _ val base "rev (dropWhile (\<lambda>c. c = 0x30) v)", OF this]
  show ?thesis
    by (simp add: numeral_value_def flip: rev_append)
qed

lemma decode_number_Ok:
  assumes "val 0x30 = Some 0" and "\<And>c. val c = Some 0 \<Longrightarrow> c = 0x30" and "0 < base"
  shows "decode_number val base v out = (Ok, n) \<longleftrightarrow>
    v \<noteq> [] \<and> numeral_value val (unat base) v = Some (unat n)"
proof (cases "dropWhile (\<lambda>c. c = 0x30) v")
  case Nil
  show ?thesis
  proof -
    have "numeral_value val (unat base) v = Some 0"
      using numeral_value_drop_zeros [of val "unat base" v] assms(1) Nil by (simp add: numeral_value_def)
    moreover have "decode_number val base v out = (if v = [] then (Invalid, out) else (Ok, 0))"
      unfolding decode_number_def Nil by simp
    ultimately show ?thesis
      by (auto simp: word_unat_eq_iff)
  qed
next
  case (Cons c cs)
  then have "c \<noteq> 0x30"
    by (metis (mono_tags) hd_dropWhile list.sel(1) list.simps(3))
  then have "val (last (rev (c # cs))) \<noteq> Some 0"
    using assms(2) by auto
  moreover have "decode_number val base v out = decode_digits val base (rev (c # cs)) 1 0" and "v \<noteq> []"
    using Cons by (auto simp: decode_number_def simp del: rev.simps)
  moreover have "digits_value val (unat base) (rev (c # cs)) = numeral_value val (unat base) v"
    using numeral_value_drop_zeros [of val "unat base" v] assms(1) Cons by (simp add: numeral_value_def)
  moreover have "unat n < 2 ^ 64"
    using unsigned_less [of n, where ?'a = nat] by simp
  ultimately show ?thesis
    using decode_digits_Ok [of "rev (c # cs)" val 1 base 0 n] assms(3) by auto
qed

lemma unat_ucast_byte [simp]: "unat (ucast (c :: byte) :: u64) = unat c"
  using unsigned_less [of c, where ?'a = nat] by (simp add: unsigned_ucast_eq take_bit_nat_eq_self)

lemma dec_digit_zero: "dec_digit 0x30 = Some 0" "dec_digit c = Some 0 \<Longrightarrow> c = 0x30"
proof -
  show "dec_digit 0x30 = Some 0"
    by (simp add: dec_digit_def isdigit_def)
  assume "dec_digit c = Some 0"
  then have "ucast (c - 0x30) = (0 :: u64)"
    by (auto simp: dec_digit_def split: if_splits)
  then have "unat (c - 0x30) = 0"
    by (metis unat_0 unat_ucast_byte)
  then have "c - 0x30 = 0"
    by (simp add: unat_eq_0)
  then show "c = 0x30"
    by simp
qed

lemma hex_digit_zero: "hex_digit 0x30 = Some 0" "hex_digit c = Some 0 \<Longrightarrow> c = 0x30"
proof -
  show "hex_digit 0x30 = Some 0"
    by (simp add: hex_digit_def isdigit_def)
  assume *: "hex_digit c = Some 0"
  show "c = 0x30"
  proof (cases "isdigit c")
    case True
    with * show ?thesis
      using dec_digit_zero(2) [of c] by (simp add: hex_digit_def dec_digit_def)
  next
    case False
    with * have "c \<in> set (asc ''aAbBcCdDeEfF'')" and "ucast (10 + (or c 0x20) - 0x61) = (0 :: u64)"
      by (auto simp: hex_digit_def split: if_splits)
    then show ?thesis
      by (auto simp: asc_def)
  qed
qed

text \<open>
  \<open>content_length::decode\<close> accepts exactly the non-empty strings of decimal digits whose value
  fits in 64 bits, and the number it stores is that value: no wrap-around is ever accepted and no
  representable length is refused, however many leading zeros it has.
\<close>

theorem content_length_decode_exact:
  "content_length_decode v out = (Ok, n) \<longleftrightarrow> v \<noteq> [] \<and> numeral_value dec_digit 10 v = Some (unat n)"
  unfolding content_length_decode_def
  by (subst decode_number_Ok [where val = dec_digit]) (simp_all add: dec_digit_zero)

text \<open>
  \<open>chunk_size::decode\<close> accepts exactly the non-empty strings of hexadecimal digits whose value
  fits in 64 bits, and the number it stores is that value.
\<close>

theorem chunk_size_decode_exact:
  "chunk_size_decode v out = (Ok, n) \<longleftrightarrow> v \<noteq> [] \<and> numeral_value hex_digit 16 v = Some (unat n)"
  unfolding chunk_size_decode_def
  by (subst decode_number_Ok [where val = hex_digit]) (simp_all add: hex_digit_zero)

text \<open>The digits a chunk size is matched with are the digits it is decoded with.\<close>

lemma hex_digit_match: "hex_digit c \<noteq> None \<longleftrightarrow> is_hexdigit c"
proof -
  have "isdigit c \<longleftrightarrow> c \<in> set (asc ''0123456789'')"
  proof
    assume "isdigit c"
    then have "unat c \<in> {48..57}"
      by (auto simp: isdigit_def word_le_nat_alt)
    then have "unat c = 48 \<or> unat c = 49 \<or> unat c = 50 \<or> unat c = 51 \<or> unat c = 52
        \<or> unat c = 53 \<or> unat c = 54 \<or> unat c = 55 \<or> unat c = 56 \<or> unat c = 57"
      unfolding atLeastAtMost_iff by presburger
    then show "c \<in> set (asc ''0123456789'')"
      by (auto simp: asc_def word_unat_eq_iff)
  qed (auto simp: asc_def isdigit_def)
  then show ?thesis
    by (auto simp: hex_digit_def is_hexdigit_def asc_def)
qed

lemma digits_value_defined:
  "digits_value val base cs \<noteq> None \<longleftrightarrow> (\<forall>c \<in> set cs. val c \<noteq> None)"
  by (induction cs) (auto split: option.splits)

lemma decode_digits_Invalid:
  "fst (decode_digits val base cs d w) = Invalid \<Longrightarrow> \<exists>c \<in> set cs. val c = None"
  by (induction val base cs d w rule: decode_digits.induct) (auto simp: Let_def split: option.splits if_splits)

text \<open>So the \<open>invalid\<close> branch of the readers' chunk-size state is dead code.\<close>

lemma chunk_size_decode_matched:
  assumes "\<forall>c \<in> set v. is_hexdigit c" and "v \<noteq> []"
  shows "fst (chunk_size_decode v out) \<noteq> Invalid"
proof
  assume "fst (chunk_size_decode v out) = Invalid"
  then have "\<exists>c \<in> set (rev (dropWhile (\<lambda>c. c = 0x30) v)). hex_digit c = None"
    using assms(2) decode_digits_Invalid [of hex_digit 16 "rev (dropWhile (\<lambda>c. c = 0x30) v)" 1 0]
    by (auto simp: chunk_size_decode_def decode_number_def Let_def split: if_splits)
  then obtain c where "c \<in> set v" "hex_digit c = None"
    using set_dropWhileD by fastforce
  with assms(1) hex_digit_match show False
    by blast
qed

section \<open>Line ends\<close>

lemma strict_crlf_match_iff:
  "strict_crlf_match v = 2 \<longleftrightarrow> (\<exists>rest. v = 0x0D # 0x0A # rest)"
  "strict_crlf_match v = 0 \<or> strict_crlf_match v = 2"
  by (cases v; cases "tl v"; auto simp: strict_crlf_match_def)+

lemma liberal_crlf_match_simps [simp]:
  "liberal_crlf_match [] = Insufficient_data"
  "liberal_crlf_match (0x0A # v) = Lf"
  "liberal_crlf_match [0x0D] = Insufficient_data"
  "liberal_crlf_match (0x0D # 0x0A # v) = Crlf"
  by (simp_all add: liberal_crlf_match_def)

lemma liberal_crlf_match_cases:
  "liberal_crlf_match v = Crlf \<longleftrightarrow> (\<exists>rest. v = 0x0D # 0x0A # rest)"
  "liberal_crlf_match v = Lf \<longleftrightarrow> (\<exists>rest. v = 0x0A # rest)"
  "liberal_crlf_match v = Insufficient_data \<longleftrightarrow> v = [] \<or> v = [0x0D]"
  by (cases v; cases "tl v"; auto simp: liberal_crlf_match_def)+

text \<open>The three digits of a status code, as a number.\<close>

lemma isdigit_uint: "isdigit c \<Longrightarrow> 48 \<le> uint c \<and> uint c \<le> 57"
  by (auto simp: isdigit_def word_le_def)

text \<open>
  A status code that was matched is decoded to the number its three digits write, which is at
  most 999.
\<close>

theorem status_code_decode_value:
  assumes "status_code_match v = 3"
  shows "uint (status_code_decode (take 3 v)) =
      (uint (v ! 0) - 48) * 100 + (uint (v ! 1) - 48) * 10 + (uint (v ! 2) - 48)
    \<and> uint (status_code_decode (take 3 v)) \<le> 999"
proof -
  have len: "3 \<le> length v" and "list_all isdigit (take 3 v)"
    using assms by (auto simp: status_code_match_def split: if_splits)
  then have d: "48 \<le> uint (v ! i) \<and> uint (v ! i) \<le> 57" if "i < 3" for i
    using that len by (intro isdigit_uint) (auto simp: list_all_length)
  let ?n = "(uint (v ! 0) - 48) * 100 + (uint (v ! 1) - 48) * 10 + uint (v ! 2) - 48"
  have "0 \<le> ?n" "?n \<le> 999"
    using d [of 0] d [of 1] d [of 2] by auto
  then have "?n mod 2 ^ 16 = ?n"
    by (intro mod_pos_pos_trivial) auto
  then have "uint (word_of_int ?n :: 16 word) = ?n"
    using uint_word_of_int [of ?n, where ?'a = 16] by simp
  moreover have "status_code_decode (take 3 v) = word_of_int ?n"
    unfolding status_code_decode_def by simp
  ultimately show ?thesis
    using \<open>?n \<le> 999\<close> by (simp only: add_diff_eq simp_thms)
qed

lemma status_code_decode_value_witness:
  "uint (status_code_decode (take 3 (asc ''404 '')) :: 16 word) = 404"
proof -
  have "status_code_match (asc ''404 '') = 3"
    by (simp add: status_code_match_def asc_def isdigit_def)
  from status_code_decode_value [OF this] show ?thesis
    by (simp add: asc_def)
qed

end
