(* ===== verification/StdMap.thy ===== *)
theory StdMap
  imports Prelude
begin

text \<open>
  The ordered containers of the C++ standard library the code keeps its state in:
  \<open>std::map\<close> (and \<open>std::multimap\<close>, whose interface the header container
  \<open>flat_multimap\<close> of \<open>boost/http/headers.hpp\<close> has) as association lists in key order.
  The locale \<open>keyed_store\<close> is the interface the service is written against (what a lookup
  returns after an assignment or an erasure); the interpretation proves it for the map.
\<close>

type_synonym ('k, 'v) std_map = "('k \<times> 'v) list"

section \<open>The interface of a keyed store\<close>

locale keyed_store =
  fixes find :: "'m \<Rightarrow> 'k \<Rightarrow> 'v option"
    and assign :: "'k \<Rightarrow> 'v \<Rightarrow> 'm \<Rightarrow> 'm"
    and erase :: "'k \<Rightarrow> 'm \<Rightarrow> 'm"
    and ok :: "'m \<Rightarrow> bool"
  assumes find_assign: "ok m \<Longrightarrow> find (assign k v m) = (find m)(k \<mapsto> v)"
    and find_erase: "ok m \<Longrightarrow> find (erase k m) = (find m)(k := None)"
    and ok_assign: "ok m \<Longrightarrow> ok (assign k v m)"
    and ok_erase: "ok m \<Longrightarrow> ok (erase k m)"
begin

lemma dom_assign: "ok m \<Longrightarrow> dom (find (assign k v m)) = insert k (dom (find m))"
  by (simp add: find_assign)

lemma dom_erase: "ok m \<Longrightarrow> dom (find (erase k m)) = dom (find m) - {k}"
  by (simp add: find_erase)

lemma find_after_assign_erase:
  "ok m \<Longrightarrow> find m k = None \<Longrightarrow> find (erase k (assign k v m)) = find m"
  by (simp add: find_erase find_assign ok_assign fun_upd_idem)

text \<open>An invariant of the stored entries that holds of the new value is kept.\<close>

lemma all_assign:
  assumes "ok m" and "\<And>k v. find m k = Some v \<Longrightarrow> P k v" and "P k v"
  shows "find (assign k v m) l = Some w \<Longrightarrow> P l w"
  using assms by (auto simp: find_assign split: if_splits)

lemma all_erase:
  assumes "ok m" and "\<And>k v. find m k = Some v \<Longrightarrow> P k v"
  shows "find (erase k m) l = Some w \<Longrightarrow> P l w"
  using assms by (auto simp: find_erase split: if_splits)

end

section \<open>\<open>std::map\<close>\<close>

definition map_ok :: "('k::linorder, 'v) std_map \<Rightarrow> bool" where
  "map_ok m = sorted_wrt (<) (map fst m)"

text \<open>\<open>m.find(k)\<close>: \<open>None\<close> stands for \<open>m.end()\<close>.\<close>

fun map_find :: "('k, 'v) std_map \<Rightarrow> 'k \<Rightarrow> 'v option" where
  "map_find [] k = None"
| "map_find ((l, w) # m) k = (if k = l then Some w else map_find m k)"

text \<open>\<open>m[k] = v\<close>.\<close>

fun map_assign :: "'k::linorder \<Rightarrow> 'v \<Rightarrow> ('k, 'v) std_map \<Rightarrow> ('k, 'v) std_map" where
  "map_assign k v [] = [(k, v)]"
| "map_assign k v ((l, w) # m) =
     (if k < l then (k, v) # (l, w) # m
      else if k = l then (k, v) # m
      else (l, w) # map_assign k v m)"

text \<open>\<open>m.erase(k)\<close>.\<close>

fun map_erase :: "'k \<Rightarrow> ('k, 'v) std_map \<Rightarrow> ('k, 'v) std_map" where
  "map_erase k [] = []"
| "map_erase k ((l, w) # m) = (if k = l then m else (l, w) # map_erase k m)"

lemma map_find_map_of: "map_find m = map_of m"
  proof (rule ext)
  show "map_find m k = map_of m k" for k
    by (induction m k rule: map_find.induct) auto
qed

lemma keys_map_assign: "fst ` set (map_assign k v m) = insert k (fst ` set m)"
  by (induction m rule: map_assign.induct) auto

lemma set_map_erase_sub: "set (map_erase k m) \<subseteq> set m"
  by (induction m rule: map_erase.induct) auto

lemma map_ok_assign: "map_ok m \<Longrightarrow> map_ok (map_assign k v m)"
proof (induction k v m rule: map_assign.induct)
  case (2 k v l w m)
  then show ?case
    using keys_map_assign [of k v m] by (fastforce simp: map_ok_def)
qed (simp add: map_ok_def)

lemma map_ok_erase: "map_ok m \<Longrightarrow> map_ok (map_erase k m)"
proof (induction k m rule: map_erase.induct)
  case (2 k l w m)
  then show ?case
    using set_map_erase_sub [of k m] by (fastforce simp: map_ok_def)
qed (simp add: map_ok_def)

lemma map_ok_ConsD: "map_ok ((k, v) # m) \<Longrightarrow> map_ok m \<and> k \<notin> fst ` set m"
  by (auto simp: map_ok_def)

lemma map_find_None: "map_find m k = None \<longleftrightarrow> k \<notin> fst ` set m"
  by (simp add: map_find_map_of map_of_eq_None_iff)

lemma map_find_assign: "map_ok m \<Longrightarrow> map_find (map_assign k v m) = (map_find m)(k \<mapsto> v)"
  by (rule ext, induction k v m rule: map_assign.induct) (auto dest: map_ok_ConsD)

lemma map_find_erase: "map_ok m \<Longrightarrow> map_find (map_erase k m) = (map_find m)(k := None)"
proof (rule ext, induction k m rule: map_erase.induct)
  case (2 k l w m)
  then show ?case
    using map_ok_ConsD [of l w m] map_find_None [of m l] by auto
qed simp

lemma map_ok_distinct: "map_ok m \<Longrightarrow> distinct (map fst m)"
  by (simp add: map_ok_def strict_sorted_iff)

lemma map_find_mem: "map_ok m \<Longrightarrow> map_find m k = Some v \<longleftrightarrow> (k, v) \<in> set m"
  by (simp add: map_find_map_of map_ok_distinct)

lemma map_ok_filter: "map_ok m \<Longrightarrow> map_ok (filter p m)"
  by (induction m) (auto simp: map_ok_def)

lemma map_ok_Nil [simp]: "map_ok []"
  by (simp add: map_ok_def)

lemma map_erase_filter: "map_ok m \<Longrightarrow> map_erase k m = filter (\<lambda>e. fst e \<noteq> k) m"
proof (induction k m rule: map_erase.induct)
  case (2 k l w m)
  then have "map_ok m" and l: "l \<notin> fst ` set m"
    by (auto dest: map_ok_ConsD)
  moreover from l have "filter (\<lambda>e. fst e \<noteq> l) m = m"
    by (auto simp: filter_id_conv)
  ultimately show ?case
    using 2 by auto
qed simp

lemma length_map_erase: "map_find m k = Some v \<Longrightarrow> length (map_erase k m) < length m"
  by (induction k m rule: map_erase.induct) (auto split: if_splits)

interpretation registry: keyed_store map_find map_assign map_erase map_ok
  by unfold_locales (simp_all add: map_find_assign map_find_erase map_ok_assign map_ok_erase)

section \<open>\<open>std::multimap\<close>\<close>

text \<open>
  \<open>emplace(k, v)\<close> puts the new entry behind the entries with an equivalent key,
  \<open>equal_range(k)\<close> is the run of entries with that key.
\<close>

fun multimap_emplace :: "'k::linorder \<Rightarrow> 'v \<Rightarrow> ('k \<times> 'v) list \<Rightarrow> ('k \<times> 'v) list" where
  "multimap_emplace k v [] = [(k, v)]"
| "multimap_emplace k v ((l, w) # m) =
     (if k < l then (k, v) # (l, w) # m else (l, w) # multimap_emplace k v m)"

definition equal_range :: "('k \<times> 'v) list \<Rightarrow> 'k \<Rightarrow> 'v list" where
  "equal_range m k = map snd (filter (\<lambda>e. fst e = k) m)"

definition multimap_erase :: "'k \<Rightarrow> ('k \<times> 'v) list \<Rightarrow> ('k \<times> 'v) list" where
  "multimap_erase k m = filter (\<lambda>e. fst e \<noteq> k) m"

definition multimap_ok :: "('k::linorder \<times> 'v) list \<Rightarrow> bool" where
  "multimap_ok m = sorted (map fst m)"

lemma set_multimap_emplace: "set (multimap_emplace k v m) = insert (k, v) (set m)"
  by (induction m rule: multimap_emplace.induct) auto

lemma multimap_ok_emplace: "multimap_ok m \<Longrightarrow> multimap_ok (multimap_emplace k v m)"
proof (induction k v m rule: multimap_emplace.induct)
  case (2 k v l w m)
  then show ?case
    using set_multimap_emplace [of k v m] by (fastforce simp: multimap_ok_def)
qed (simp add: multimap_ok_def)

lemma equal_range_emplace:
  "multimap_ok m \<Longrightarrow>
   equal_range (multimap_emplace k v m) l = equal_range m l @ (if l = k then [v] else [])"
proof (induction k v m rule: multimap_emplace.induct)
  case (2 k v i w m)
  show ?case
  proof (cases "k < i")
    case True
    with "2.prems" have "filter (\<lambda>e. fst e = k) ((i, w) # m) = []"
      by (auto simp: filter_empty_conv multimap_ok_def)
    with True show ?thesis
      by (auto simp: equal_range_def)
  next
    case False
    with 2 show ?thesis
      by (auto simp: equal_range_def multimap_ok_def split: if_splits)
  qed
qed (simp add: equal_range_def)

lemma equal_range_erase:
  "equal_range (multimap_erase k m) l = (if l = k then [] else equal_range m l)"
  by (auto simp: equal_range_def multimap_erase_def filter_empty_conv intro: arg_cong [where f = "map snd"] filter_cong)

lemma equal_range_Nil [simp]: "equal_range [] k = []"
  by (simp add: equal_range_def)

lemma multimap_ok_Nil [simp]: "multimap_ok []"
  by (simp add: multimap_ok_def)

lemma multimap_ok_erase: "multimap_ok m \<Longrightarrow> multimap_ok (multimap_erase k m)"
  by (simp add: multimap_ok_def multimap_erase_def sorted_filter)

section \<open>Rebuilding a map in key order\<close>

lemma map_assign_last: "\<forall>e \<in> set m. fst e < k \<Longrightarrow> map_assign k v m = m @ [(k, v)]"
  by (induction k v m rule: map_assign.induct) auto

lemma foldl_map_assign:
  assumes "map_ok (acc @ m)"
  shows "foldl (\<lambda>a e. map_assign (fst e) (snd e) a) acc m = acc @ m"
  using assms
proof (induction m arbitrary: acc)
  case (Cons e m)
  have "map_assign (fst e) (snd e) acc = acc @ [e]"
    using Cons.prems map_assign_last [of acc "fst e" "snd e"] by (auto simp: map_ok_def sorted_wrt_append)
  with Cons show ?case
    by simp
qed simp

end
