(* ===== verification/HeaderList.thy ===== *)
theory HeaderList
  imports Syntax StdMap
begin

text \<open>
  Header values that are comma-separated lists, and what is decided from them:
  \<open>algorithm/header/header_value_any_of.hpp\<close>, the list functions and entity-tag comparisons of
  \<open>algorithm/header.hpp\<close>, \<open>reader/detail/common.hpp\<close>, \<open>reader/detail/transfer_encoding.hpp\<close>, the
  query functions of \<open>algorithm/query.hpp\<close> and \<open>has_connection_close\<close> of \<open>socket-inl.hpp\<close>.
  A view is a byte list, a pair of iterators into it is the list between them. A predicate that
  keeps state (the visitors of the readers) is a function that returns its next state beside
  its answer. \<open>boost::algorithm::iequals\<close> is not part of the repository: it is the argument
  \<open>ieq\<close> of the definitions that call it; \<open>ascii_iequals\<close> is an instance.
\<close>

section \<open>Comparison without case\<close>

definition ascii_lower :: "byte \<Rightarrow> byte" where
  "ascii_lower c = (if 0x41 \<le> c \<and> c \<le> 0x5A then c + 0x20 else c)"

definition ascii_iequals :: "bytes \<Rightarrow> bytes \<Rightarrow> bool" where
  "ascii_iequals a b \<longleftrightarrow> map ascii_lower a = map ascii_lower b"

section \<open>Visiting the elements of a list\<close>

text \<open>\<open>detail::isspace\<close>.\<close>

definition isspace :: "byte \<Rightarrow> bool" where
  "isspace c \<longleftrightarrow> c = 0x20 \<or> c = 0x09"

abbreviation comma :: byte where
  "comma \<equiv> 0x2C"

text \<open>
  The element between two commas without the blanks around it, as the two \<open>find_if_not\<close> calls
  delimit it; \<open>None\<close> when nothing is left.
\<close>

definition list_element :: "bytes \<Rightarrow> bytes option" where
  "list_element piece =
     (let from_begin = dropWhile isspace piece
      in if from_begin = [] then None
         else let element = rev (dropWhile isspace (rev from_begin))
              in if element = [] then None else Some element)"

text \<open>
  \<open>header_value_any_of(header_value, p)\<close> with a predicate that keeps state: the result and the state
  it leaves. The argument is what is left between \<open>comma\<close> and the end; the loop body runs at
  least once, also for an empty value.
\<close>

function any_of_state :: "('s \<Rightarrow> bytes \<Rightarrow> 's \<times> bool) \<Rightarrow> 's \<Rightarrow> bytes \<Rightarrow> 's \<times> bool" where
  "any_of_state p s v =
     (let piece = takeWhile (\<lambda>c. c \<noteq> comma) v;
          next_comma = dropWhile (\<lambda>c. c \<noteq> comma) v;
          (s', stop) = (case list_element piece of None \<Rightarrow> (s, False) | Some e \<Rightarrow> p s e);
          rest = (if next_comma \<noteq> [] then tl next_comma else next_comma)
      in if stop then (s', True)
         else if rest \<noteq> [] then any_of_state p s' rest
         else (s', False))"
  by pat_completeness auto
termination
proof (relation "measure (\<lambda>(p, s, v). length v)", goal_cases)
  case (2 p s v piece next_comma x s' stop rest)
  then have "length rest < length next_comma"
    by (auto split: if_splits)
  also have "\<dots> \<le> length v"
    using 2 length_dropWhile_le by blast
  finally show ?case
    by simp
qed simp

declare any_of_state.simps [simp del]

definition header_value_any_of :: "bytes \<Rightarrow> (bytes \<Rightarrow> bool) \<Rightarrow> bool" where
  "header_value_any_of v p = snd (any_of_state (\<lambda>_ e. ((), p e)) () v)"

definition header_value_all_of :: "bytes \<Rightarrow> (bytes \<Rightarrow> bool) \<Rightarrow> bool" where
  "header_value_all_of v p = (\<not> snd (any_of_state (\<lambda>_ e. ((), \<not> p e)) () v))"

definition header_value_none_of :: "bytes \<Rightarrow> (bytes \<Rightarrow> bool) \<Rightarrow> bool" where
  "header_value_none_of v p = header_value_all_of v (\<lambda>e. \<not> p e)"

definition header_value_for_each :: "bytes \<Rightarrow> ('s \<Rightarrow> bytes \<Rightarrow> 's) \<Rightarrow> 's \<Rightarrow> 's" where
  "header_value_for_each v f s = fst (any_of_state (\<lambda>s e. (f s e, False)) s v)"

section \<open>Entity tags\<close>

definition etag_match_strong :: "bytes \<Rightarrow> bytes \<Rightarrow> bool" where
  "etag_match_strong a b =
     (if (a \<noteq> [] \<and> a ! 0 = 0x57) \<or> (b \<noteq> [] \<and> b ! 0 = 0x57) then False else a = b)"

definition etag_match_weak :: "bytes \<Rightarrow> bytes \<Rightarrow> bool" where
  "etag_match_weak a b =
     (let a_is_weak = 2 < length a \<and> a ! 0 = 0x57;
          b_is_weak = 2 < length b \<and> b ! 0 = 0x57
      in (if a_is_weak then drop 2 a else a) = (if b_is_weak then drop 2 b else b))"

section \<open>Field values and transfer codings\<close>

text \<open>
  \<open>decode_field_value\<close> removes the trailing blanks; the loop stops before index 0. On an empty
  view \<open>in.size() - 1\<close> wraps around, and the loop reads backwards from the byte in front of the
  view until it meets a byte that is no blank. \<open>before\<close> is what the buffer holds in front of the
  view; \<open>None\<close>: the loop reads in front of the buffer.
\<close>

definition decode_field_value :: "bytes \<Rightarrow> bytes \<Rightarrow> bytes option" where
  "decode_field_value before v =
     (if v = [] then (if list_all is_ows before then None else Some [])
      else Some (take (length v - match_while is_ows (rev (tl v))) v))"

datatype transfer_encoding_result = CHUNKED_NOT_FOUND | CHUNKED_AT_END | CHUNKED_INVALID

text \<open>\<open>decode_transfer_encoding_p::operator()\<close> on the state \<open>(count, res)\<close>.\<close>

definition transfer_encoding_visit ::
  "(bytes \<Rightarrow> bytes \<Rightarrow> bool) \<Rightarrow> nat \<times> transfer_encoding_result \<Rightarrow> bytes \<Rightarrow> (nat \<times> transfer_encoding_result) \<times> bool" where
  "transfer_encoding_visit ieq s v =
     (let (count, res) = s
      in if \<not> ieq v (asc ''chunked'') then
           (if count = 1 then ((count, CHUNKED_INVALID), True) else ((count, res), False))
         else let count = count + 1
              in if count = 2 then ((count, CHUNKED_INVALID), True)
                 else ((count, CHUNKED_AT_END), False))"

definition decode_transfer_encoding :: "(bytes \<Rightarrow> bytes \<Rightarrow> bool) \<Rightarrow> bytes \<Rightarrow> transfer_encoding_result" where
  "decode_transfer_encoding ieq v =
     snd (fst (any_of_state (transfer_encoding_visit ieq) (0, CHUNKED_NOT_FOUND) v))"

section \<open>Questions about the headers of a message\<close>

type_synonym headers = "(bytes \<times> bytes) list"

definition request_continue_required :: "(bytes \<Rightarrow> bytes \<Rightarrow> bool) \<Rightarrow> headers \<Rightarrow> bool" where
  "request_continue_required ieq h =
     (let values = equal_range h (asc ''expect'')
      in length values = 1 \<and> ieq (hd values) (asc ''100-continue''))"

definition request_upgrade_desired :: "(bytes \<Rightarrow> bytes \<Rightarrow> bool) \<Rightarrow> headers \<Rightarrow> bool" where
  "request_upgrade_desired ieq h \<longleftrightarrow>
     equal_range h (asc ''upgrade'') \<noteq> [] \<and>
     list_ex (\<lambda>v. header_value_any_of v (\<lambda>e. ieq e (asc ''upgrade''))) (equal_range h (asc ''connection''))"

definition has_connection_close :: "(bytes \<Rightarrow> bytes \<Rightarrow> bool) \<Rightarrow> headers \<Rightarrow> bool" where
  "has_connection_close ieq h \<longleftrightarrow>
     list_ex (\<lambda>v. header_value_any_of v (\<lambda>e. ieq e (asc ''close''))) (equal_range h (asc ''connection''))"

section \<open>The list a header value stands for\<close>

declare dropWhile_eq_Nil_conv [simp del]

definition list_elements :: "bytes \<Rightarrow> bytes list" where
  "list_elements v = List.map_filter list_element (split_on comma v)"

fun visit :: "('s \<Rightarrow> 'e \<Rightarrow> 's \<times> bool) \<Rightarrow> 's \<Rightarrow> 'e list \<Rightarrow> 's \<times> bool" where
  "visit p s [] = (s, False)"
| "visit p s (e # es) = (let (s', stop) = p s e in if stop then (s', True) else visit p s' es)"

lemma list_elements_unfold:
  "list_elements v =
     (case list_element (takeWhile (\<lambda>c. c \<noteq> comma) v) of None \<Rightarrow> [] | Some e \<Rightarrow> [e])
     @ (case dropWhile (\<lambda>c. c \<noteq> comma) v of [] \<Rightarrow> [] | _ # rest \<Rightarrow> list_elements rest)"
proof (cases "dropWhile (\<lambda>c. c \<noteq> comma) v")
  case Nil
  then have tw: "takeWhile (\<lambda>c. c \<noteq> comma) v = v"
    by (metis append_Nil2 takeWhile_dropWhile_id)
  show ?thesis
    by (subst list_elements_def, subst split_on_takeWhile)
       (simp only: Nil tw, simp add: List.map_filter_simps split: option.splits)
next
  case (Cons c rest)
  then show ?thesis
    by (subst list_elements_def, subst split_on_takeWhile)
       (simp add: List.map_filter_simps list_elements_def split: option.splits)
qed

lemma list_elements_Nil [simp]: "list_elements [] = []"
  by (simp add: list_elements_def List.map_filter_simps list_element_def)

lemma any_of_state_visit: "any_of_state p s v = visit p s (list_elements v)"
proof (induction p s v rule: any_of_state.induct)
  case (1 p s v)
  let ?rest = "dropWhile (\<lambda>c. c \<noteq> comma) v"
  have IH: "any_of_state p s' (tl ?rest) = visit p s' (list_elements (tl ?rest))"
    if "(case list_element (takeWhile (\<lambda>c. c \<noteq> comma) v) of None \<Rightarrow> (s, False) | Some e \<Rightarrow> p s e) = (s', False)"
      "?rest \<noteq> []" "tl ?rest \<noteq> []" for s'
    using 1 [OF refl refl that(1) [symmetric] refl] that by simp
  show ?case
  proof (cases ?rest)
    case Nil
    then show ?thesis
      by (subst any_of_state.simps, subst list_elements_unfold)
         (simp add: Let_def split: option.splits prod.splits)
  next
    case (Cons c rest)
    have IH': "any_of_state p s' rest = visit p s' (list_elements rest)"
      if "(case list_element (takeWhile (\<lambda>c. c \<noteq> comma) v) of None \<Rightarrow> (s, False) | Some e \<Rightarrow> p s e) = (s', False)"
        "rest \<noteq> []" for s'
      using IH [OF that(1)] Cons that(2) by simp
    show ?thesis
    proof (cases "rest = []")
      case True
      with Cons show ?thesis
        by (subst any_of_state.simps, subst list_elements_unfold)
           (simp add: Let_def split: option.splits prod.splits)
    next
      case False
      then show ?thesis
        using Cons IH' by (subst any_of_state.simps, subst list_elements_unfold)
           (simp add: Let_def split: option.splits prod.splits)
    qed
  qed
qed

lemma visit_any: "visit (\<lambda>_ e. ((), p e)) () es = ((), list_ex p es)"
  by (induction es) auto

lemma visit_fold: "visit (\<lambda>s e. (f s e, False)) s es = (foldl f s es, False)"
  by (induction es arbitrary: s) auto

text \<open>
  \<open>header_value_any_of\<close>, \<open>_all_of\<close>, \<open>_none_of\<close> and \<open>_for_each\<close> visit exactly the elements of the
  comma-separated list, in order: the pieces between the commas, without the blanks around them
  and without the empty ones, whatever the number of commas and blanks and also for an empty value.
\<close>

theorem header_value_list_functions:
  "(header_value_any_of v p \<longleftrightarrow> list_ex p (list_elements v))
   \<and> (header_value_all_of v p \<longleftrightarrow> list_all p (list_elements v))
   \<and> (header_value_none_of v p \<longleftrightarrow> list_all (\<lambda>e. \<not> p e) (list_elements v))
   \<and> header_value_for_each v f s = foldl f s (list_elements v)"
  by (simp add: header_value_any_of_def header_value_all_of_def header_value_none_of_def
      header_value_for_each_def any_of_state_visit visit_any visit_fold list_ex_iff list_all_iff)

section \<open>Writing a list and reading it back\<close>

definition trimmed :: "bytes \<Rightarrow> bool" where
  "trimmed e \<longleftrightarrow> e \<noteq> [] \<and> \<not> isspace (hd e) \<and> \<not> isspace (last e) \<and> comma \<notin> set e"


lemma list_element_padded:
  assumes "trimmed e" and "\<forall>c \<in> set pre. isspace c" and "\<forall>c \<in> set post. isspace c"
  shows "list_element (pre @ e @ post) = Some e"
proof -
  have "dropWhile isspace (e @ post) = e @ post"
    using assms(1) by (cases e) (auto simp: trimmed_def)
  then have 1: "dropWhile isspace (pre @ e @ post) = e @ post"
    using assms(2) by (simp add: dropWhile_append)
  have "dropWhile isspace (rev e) = rev e"
    using assms(1) by (cases e rule: rev_cases) (auto simp: trimmed_def)
  then have "dropWhile isspace (rev post @ rev e) = rev e"
    using assms(3) by (simp add: dropWhile_append)
  with 1 assms(1) show ?thesis
    by (simp add: list_element_def trimmed_def)
qed

lemma list_element_SomeD:
  assumes "list_element v = Some e" and "comma \<notin> set v"
  shows "trimmed e"
proof -
  let ?b = "dropWhile isspace v"
  have e: "e = rev (dropWhile isspace (rev ?b))" "e \<noteq> []" "?b \<noteq> []"
    using assms(1) by (auto simp: list_element_def Let_def split: if_splits)
  then have l: "\<not> isspace (last e)"
    by (metis hd_dropWhile last_rev rev_is_Nil_conv)
  have "\<exists>ws. ?b = e @ ws"
    using e(1) by (metis rev_append rev_rev_ident takeWhile_dropWhile_id)
  then have "hd e = hd ?b" "set e \<subseteq> set ?b"
    using e(2) by (auto simp: hd_append)
  then show ?thesis
    using e l assms(2) hd_dropWhile [OF e(3)] set_dropWhileD by (fastforce simp: trimmed_def)
qed

lemma split_on_pieces: "p \<in> set (split_on d v) \<Longrightarrow> d \<notin> set p"
  by (induction v arbitrary: p) (auto split: if_splits list.splits)

lemma list_elements_trimmed: "e \<in> set (list_elements v) \<Longrightarrow> trimmed e"
  by (auto simp: list_elements_def List.map_filter_def) (blast intro: list_element_SomeD dest: split_on_pieces)

text \<open>
  The elements of a header value are what its writer put into it: joining any list of trimmed,
  comma-free elements with commas, each with any blanks around it, and splitting the value
  again gives the list back.
\<close>

theorem list_elements_join:
  assumes "\<forall>(pre, e, post) \<in> set items. trimmed e \<and> list_all isspace pre \<and> list_all isspace post"
  shows "list_elements (join_with [comma] (map (\<lambda>(pre, e, post). pre @ e @ post) items))
    = map (\<lambda>(pre, e, post). e) items"
proof (cases "items = []")
  case False
  have space: "comma \<notin> set ws" if "list_all isspace ws" for ws
    using that by (auto simp: list_all_iff isspace_def)
  have "split_on comma (join_with [comma] (map (\<lambda>(pre, e, post). pre @ e @ post) items))
      = map (\<lambda>(pre, e, post). pre @ e @ post) items"
    using assms False space by (intro split_on_join) (auto simp: trimmed_def)
  moreover have "List.map_filter list_element (map (\<lambda>(pre, e, post). pre @ e @ post) items)
      = map (\<lambda>(pre, e, post). e) items"
    using assms
    by (induction items) (auto simp: List.map_filter_simps list_element_padded list_all_iff)
  ultimately show ?thesis
    by (simp add: list_elements_def)
qed simp

lemma list_elements_join_witness:
  "list_elements (join_with [comma] [asc '' gzip'', asc ''chunked '']) = [asc ''gzip'', asc ''chunked'']"
  using list_elements_join [of "[(asc '' '', asc ''gzip'', []), ([], asc ''chunked'', asc '' '')]"]
  by (simp add: trimmed_def isspace_def asc_def)

section \<open>Transfer codings\<close>

lemma visit_transfer_encoding:
  "snd (fst (visit (transfer_encoding_visit ieq) (0, CHUNKED_NOT_FOUND) es)) =
     (case dropWhile (\<lambda>e. \<not> ieq e (asc ''chunked'')) es of
        [] \<Rightarrow> CHUNKED_NOT_FOUND
      | [_] \<Rightarrow> CHUNKED_AT_END
      | _ \<Rightarrow> CHUNKED_INVALID)"
proof (induction es)
  case (Cons e es)
  show ?case
  proof (cases "ieq e (asc ''chunked'')")
    case True
    then show ?thesis
      by (cases es) (simp_all add: transfer_encoding_visit_def)
  next
    case False
    with Cons show ?thesis
      by (simp add: transfer_encoding_visit_def)
  qed
qed simp

text \<open>
  \<open>decode_transfer_encoding\<close> finds the message chunked exactly when \<open>chunked\<close> is the last
  transfer coding of the list and appears nowhere else in it; it reports an invalid list exactly
  when \<open>chunked\<close> is applied before another coding or twice.
\<close>

theorem decode_transfer_encoding_correct:
  "(decode_transfer_encoding ieq v = CHUNKED_AT_END \<longleftrightarrow>
      (\<exists>es e. list_elements v = es @ [e] \<and> ieq e (asc ''chunked'') \<and> list_all (\<lambda>x. \<not> ieq x (asc ''chunked'')) es))
   \<and> (decode_transfer_encoding ieq v = CHUNKED_NOT_FOUND \<longleftrightarrow>
      list_all (\<lambda>e. \<not> ieq e (asc ''chunked'')) (list_elements v))
   \<and> (decode_transfer_encoding ieq v = CHUNKED_INVALID \<longleftrightarrow>
      (\<exists>es e f fs. list_elements v = es @ e # f # fs \<and> ieq e (asc ''chunked'')
         \<and> list_all (\<lambda>x. \<not> ieq x (asc ''chunked'')) es))"
proof -
  let ?q = "\<lambda>e. \<not> ieq e (asc ''chunked'')" and ?es = "list_elements v"
  have d: "decode_transfer_encoding ieq v =
     (case dropWhile ?q ?es of [] \<Rightarrow> CHUNKED_NOT_FOUND | [_] \<Rightarrow> CHUNKED_AT_END | _ \<Rightarrow> CHUNKED_INVALID)"
    by (simp only: decode_transfer_encoding_def any_of_state_visit visit_transfer_encoding)
  have "decode_transfer_encoding ieq v = CHUNKED_AT_END \<longleftrightarrow> (\<exists>e. dropWhile ?q ?es = [e])"
    by (simp add: d split: list.splits)
  moreover have "decode_transfer_encoding ieq v = CHUNKED_INVALID \<longleftrightarrow> (\<exists>e f fs. dropWhile ?q ?es = e # f # fs)"
    by (simp add: d split: list.splits)
  moreover have "decode_transfer_encoding ieq v = CHUNKED_NOT_FOUND \<longleftrightarrow> dropWhile ?q ?es = []"
    by (simp add: d split: list.splits)
  moreover have "dropWhile ?q ?es = [] \<longleftrightarrow> list_all ?q ?es"
    by (simp add: dropWhile_eq_Nil_conv list_all_iff)
  ultimately show ?thesis
    by (auto simp: dropWhile_Cons_iff)
qed

end
