(* ===== verification/MessageWriter.thy ===== *)
theory MessageWriter
  imports HeaderList
begin

text \<open>
  The writing half of \<open>basic_socket\<close>: \<open>detail/writer_helper.hpp\<close>, which decides whether a write is in
  order, and the bytes the write functions of \<open>socket-inl.hpp\<close> put on the channel. A buffer sequence
  is the concatenation of its buffers. The two functions of the standard library that print a
  size, \<open>std::to_string\<close> and \<open>std::hex\<close>, are written out.
\<close>

section \<open>\<open>writer_helper\<close>\<close>

datatype write_state = Write_empty | Continue_issued | Metadata_issued | Finished

text \<open>Each function returns whether the action is allowed and the state it leaves.\<close>

definition write_message :: "write_state \<Rightarrow> bool \<times> write_state" where
  "write_message st = (if st \<noteq> Write_empty \<and> st \<noteq> Continue_issued then (False, st) else (True, Finished))"

definition write_continue :: "write_state \<Rightarrow> bool \<times> write_state" where
  "write_continue st = (if st \<noteq> Write_empty then (False, st) else (True, Continue_issued))"

definition write_metadata :: "write_state \<Rightarrow> bool \<times> write_state" where
  "write_metadata st = (if st \<noteq> Write_empty \<and> st \<noteq> Continue_issued then (False, st) else (True, Metadata_issued))"

definition write_chunk :: "write_state \<Rightarrow> bool \<times> write_state" where
  "write_chunk st = (if st \<noteq> Metadata_issued then (False, st) else (True, st))"

definition write_trailers :: "write_state \<Rightarrow> bool \<times> write_state" where
  "write_trailers st = (if st \<noteq> Metadata_issued then (False, st) else (True, Finished))"

definition write_end :: "write_state \<Rightarrow> bool \<times> write_state" where
  "write_end st = (if st \<noteq> Metadata_issued then (False, st) else (True, Finished))"

section \<open>Printing sizes\<close>

definition digit_char :: "nat \<Rightarrow> byte" where
  "digit_char d = (if d < 10 then of_nat (0x30 + d) else of_nat (0x61 + (d - 10)))"

function print_base :: "nat \<Rightarrow> nat \<Rightarrow> bytes" where
  "print_base b n = (if b < 2 \<or> n < b then [digit_char n] else print_base b (n div b) @ [digit_char (n mod b)])"
  by pat_completeness auto
termination
  by (relation "measure snd") (auto simp: div_less_dividend)

declare print_base.simps [simp del]

definition to_string :: "nat \<Rightarrow> bytes" where
  "to_string n = print_base 10 n"

definition to_hex :: "nat \<Rightarrow> bytes" where
  "to_hex n = print_base 16 n"

section \<open>The bytes of a message\<close>

record message =
  msg_headers :: headers
  msg_body :: bytes
  msg_trailers :: headers

abbreviation crlf :: bytes where
  "crlf \<equiv> [0x0D, 0x0A]"

definition field_lines :: "headers \<Rightarrow> bytes" where
  "field_lines h = concat (map (\<lambda>(name, v). name @ asc '': '' @ v @ crlf) h)"

definition start_line :: "bool \<Rightarrow> nat \<Rightarrow> bytes \<Rightarrow> bytes" where
  "start_line modern status reason =
     (if modern then asc ''HTTP/1.1 '' else asc ''HTTP/1.0 '') @ to_string status @ asc '' '' @ reason @ crlf"

definition connection_close_line :: "bool \<Rightarrow> bytes" where
  "connection_close_line use = (if use then asc ''connection: close'' @ crlf else [])"

text \<open>\<open>implicit_content_length\<close>: the response gets no \<open>content-length\<close> from the socket, and no body.\<close>

definition implicit_content_length :: "bool \<Rightarrow> nat \<Rightarrow> headers \<Rightarrow> bool" where
  "implicit_content_length connect_request status h \<longleftrightarrow>
     equal_range h (asc ''content-length'') \<noteq> [] \<or> status div 100 = 1 \<or> status = 204
     \<or> (connect_request \<and> status div 100 = 2)"

definition response_bytes :: "bool \<Rightarrow> bool \<Rightarrow> bool \<Rightarrow> nat \<Rightarrow> bytes \<Rightarrow> message \<Rightarrow> bytes" where
  "response_bytes modern connect_request close_line status reason m =
     (let implicit = implicit_content_length connect_request status (msg_headers m)
      in start_line modern status reason
         @ connection_close_line close_line
         @ field_lines (msg_headers m)
         @ (if implicit then [] else asc ''content-length: '' @ to_string (length (msg_body m)) @ crlf)
         @ crlf
         @ (if implicit then [] else msg_body m))"

definition continue_bytes :: bytes where
  "continue_bytes = asc ''HTTP/1.1 100 Continue'' @ crlf @ crlf"

definition metadata_bytes :: "bool \<Rightarrow> bool \<Rightarrow> nat \<Rightarrow> bytes \<Rightarrow> message \<Rightarrow> bytes" where
  "metadata_bytes modern close_line status reason m =
     start_line modern status reason
     @ connection_close_line close_line
     @ field_lines (msg_headers m)
     @ asc ''transfer-encoding: chunked'' @ crlf @ crlf"

definition chunk_bytes :: "bytes \<Rightarrow> bytes" where
  "chunk_bytes body = to_hex (length body) @ crlf @ body @ crlf"

definition trailer_bytes :: "message \<Rightarrow> bytes" where
  "trailer_bytes m = asc ''0'' @ crlf @ field_lines (msg_trailers m) @ crlf"

definition end_of_message_bytes :: bytes where
  "end_of_message_bytes = asc ''0'' @ crlf @ crlf"

section \<open>The order of writes\<close>

datatype write_op = Op_message | Op_continue | Op_metadata | Op_chunk | Op_trailers | Op_end

definition write_step :: "write_op \<Rightarrow> write_state \<Rightarrow> bool \<times> write_state" where
  "write_step op =
     (case op of Op_message \<Rightarrow> write_message | Op_continue \<Rightarrow> write_continue | Op_metadata \<Rightarrow> write_metadata
      | Op_chunk \<Rightarrow> write_chunk | Op_trailers \<Rightarrow> write_trailers | Op_end \<Rightarrow> write_end)"

text \<open>The operations of a sequence that are let through, and the state after it.\<close>

fun writes_accepted :: "write_state \<Rightarrow> write_op list \<Rightarrow> write_op list \<times> write_state" where
  "writes_accepted st [] = ([], st)"
| "writes_accepted st (op # ops) =
     (let (ok, st') = write_step op st; (acc, st'') = writes_accepted st' ops
      in (if ok then op # acc else acc, st''))"

text \<open>The response of one request: an interim response at most, then one message, whole or in chunks.\<close>

inductive final_response :: "write_op list \<Rightarrow> bool" where
  "final_response [Op_message]"
| "\<lbrakk>set cs \<subseteq> {Op_chunk}; e \<in> {Op_trailers, Op_end}\<rbrakk> \<Longrightarrow> final_response (Op_metadata # cs @ [e])"

definition well_ordered :: "write_op list \<Rightarrow> bool" where
  "well_ordered ops \<longleftrightarrow> final_response ops \<or> (\<exists>ops'. ops = Op_continue # ops' \<and> final_response ops')"

lemmas write_defs = write_step_def write_message_def write_continue_def write_metadata_def write_chunk_def
  write_trailers_def write_end_def

lemma accepted_Finished: "writes_accepted Finished ops = ([], Finished)"
  by (induction ops) (auto simp: write_defs split: write_op.split)

lemma accepted_Metadata:
  "writes_accepted Metadata_issued ops = (acc, st) \<Longrightarrow>
     (st = Metadata_issued \<and> set acc \<subseteq> {Op_chunk})
   \<or> (st = Finished \<and> (\<exists>cs e. acc = cs @ [e] \<and> set cs \<subseteq> {Op_chunk} \<and> e \<in> {Op_trailers, Op_end}))"
proof (induction ops arbitrary: acc)
  case (Cons op ops)
  show ?case
  proof (cases "op \<in> {Op_trailers, Op_end}")
    case True
    with Cons.prems have "acc = [op]" "st = Finished"
      by (auto simp: write_defs accepted_Finished)
    with True show ?thesis
      by (intro disjI2) (auto intro!: exI [of _ "[]"])
  next
    case False
    obtain acc' where a: "writes_accepted Metadata_issued ops = (acc', st)"
      and acc: "acc = (if op = Op_chunk then op # acc' else acc')"
      using Cons.prems False by (cases op) (auto simp: write_defs split: prod.splits)
    from Cons.IH [OF a] show ?thesis
    proof
      assume "st = Finished \<and> (\<exists>cs e. acc' = cs @ [e] \<and> set cs \<subseteq> {Op_chunk} \<and> e \<in> {Op_trailers, Op_end})"
      then obtain cs e where "st = Finished" "acc' = cs @ [e]" "set cs \<subseteq> {Op_chunk}" "e \<in> {Op_trailers, Op_end}"
        by blast
      then show ?thesis
        using acc by (intro disjI2 conjI exI [of _ "if op = Op_chunk then op # cs else cs"] exI [of _ e]) auto
    qed (use acc in auto)
  qed
qed simp

lemma accepted_Continue:
  "writes_accepted Continue_issued ops = (acc, st) \<Longrightarrow>
     (st = Finished \<longrightarrow> final_response acc) \<and> (st = Continue_issued \<longrightarrow> acc = []) \<and> st \<noteq> Write_empty"
proof (induction ops arbitrary: acc)
  case (Cons op ops)
  show ?case
  proof (cases op)
    case Op_metadata
    then obtain acc' where a: "writes_accepted Metadata_issued ops = (acc', st)" "acc = Op_metadata # acc'"
      using Cons.prems by (auto simp: write_defs split: prod.splits)
    from accepted_Metadata [OF a(1)] show ?thesis
      by (auto simp: a(2) intro: final_response.intros)
  qed (use Cons in \<open>auto simp: write_defs accepted_Finished intro: final_response.intros split: prod.splits\<close>)
qed simp

text \<open>
  C23: whatever the application calls, and in whatever order, the writes the socket lets through for one
  request are in the order HTTP asks for: at most one 100-continue first, then exactly one final
  response, either whole or as metadata, chunks and one end; when the writer is finished the
  response is complete, and nothing is written after it.
\<close>

theorem accepted_writes_well_ordered:
  assumes "writes_accepted Write_empty ops = (acc, Finished)"
  shows "well_ordered acc \<and> fst (writes_accepted Finished later) = []"
proof -
  have "well_ordered acc"
    using assms
  proof (induction ops arbitrary: acc)
    case (Cons op ops)
    show ?case
    proof (cases op)
      case Op_continue
      then obtain acc' where a: "writes_accepted Continue_issued ops = (acc', Finished)" "acc = Op_continue # acc'"
        using Cons.prems by (auto simp: write_defs split: prod.splits)
      from accepted_Continue [OF a(1)] show ?thesis
        by (simp add: a(2) well_ordered_def)
    next
      case Op_metadata
      then obtain acc' where a: "writes_accepted Metadata_issued ops = (acc', Finished)" "acc = Op_metadata # acc'"
        using Cons.prems by (auto simp: write_defs split: prod.splits)
      from accepted_Metadata [OF a(1)] show ?thesis
        by (auto simp: a(2) well_ordered_def intro: final_response.intros)
    qed (use Cons in \<open>auto simp: write_defs accepted_Finished well_ordered_def intro: final_response.intros split: prod.splits\<close>)
  qed simp
  then show ?thesis
    by (simp add: accepted_Finished)
qed

lemma accepted_writes_well_ordered_witness:
  "well_ordered [Op_continue, Op_metadata, Op_chunk, Op_end]"
proof -
  have "writes_accepted Write_empty [Op_chunk, Op_continue, Op_continue, Op_metadata, Op_chunk, Op_message, Op_end, Op_end]
      = ([Op_continue, Op_metadata, Op_chunk, Op_end], Finished)"
    by (simp add: write_defs)
  from accepted_writes_well_ordered [OF this] show ?thesis
    by blast
qed

end
