(* ===== verification/ReaderCore.thy ===== *)
theory ReaderCore
  imports HeaderList
begin

text \<open>
  What \<open>reader/request.ipp\<close> and \<open>reader/response.ipp\<close> share: the token codes of \<open>token.hpp\<close>, the
  fields both classes have (the record \<open>reader\<close>, with the state and body-type enumerations as
  type parameters) and the cases of \<open>next()\<close> that are the same text in both files, each a
  definition that takes the states it goes to. The interface \<open>token_reader\<close> states what a user of
  a reader relies on and derives from it that reading ends and that the tokens tile the input.

  A handler returns (\<open>Ret\<close>), ends with \<open>return next()\<close> (\<open>Ret_next\<close>) or does something C++ leaves
  undefined (\<open>Undefined\<close>): it reaches \<open>BOOST_HTTP_DETAIL_UNREACHABLE\<close> or reads outside the buffer.
\<close>

datatype token_code =
    Error_insufficient_data
  | Error_set_method
  | Error_use_another_connection
  | Error_invalid_data
  | Error_no_host
  | Error_invalid_content_length
  | Error_content_length_overflow
  | Error_invalid_transfer_encoding
  | Error_chunk_size_overflow
  | Skip
  | Method
  | Request_target
  | Version
  | Status_code
  | Reason_phrase
  | Field_name
  | Field_value
  | End_of_headers
  | Body_chunk
  | End_of_body
  | End_of_message

definition is_token :: "token_code \<Rightarrow> bool" where
  "is_token c \<longleftrightarrow>
     c \<in> {Skip, Method, Request_target, Version, Status_code, Reason_phrase, Field_name,
          Field_value, End_of_headers, Body_chunk, End_of_body, End_of_message}"

record ('s, 'b) reader =
  r_state :: 's
  r_body :: 'b
  r_body_size :: u64
  r_code :: token_code
  r_idx :: nat
  r_tok :: nat
  r_buf :: bytes

datatype 'r step = Ret 'r | Ret_next 'r | Undefined

definition rest_view :: "('s, 'b, 'm) reader_scheme \<Rightarrow> bytes" where
  "rest_view r = drop (r_idx r) (r_buf r)"

text \<open>The view a \<open>value<...>()\<close> call returns.\<close>

definition token_view :: "('s, 'b, 'm) reader_scheme \<Rightarrow> bytes" where
  "token_view r = take (r_tok r) (drop (r_idx r) (r_buf r))"

definition field_value_of :: "('s, 'b, 'm) reader_scheme \<Rightarrow> bytes option" where
  "field_value_of r = decode_field_value (take (r_idx r) (r_buf r)) (token_view r)"

text \<open>\<open>value<token::version>()\<close>.\<close>

definition version_of :: "('s, 'b, 'm) reader_scheme \<Rightarrow> int" where
  "version_of r = uint (r_buf r ! r_idx r) - 48"

text \<open>A token is complete; the message is refused.\<close>

definition accept :: "'s \<Rightarrow> token_code \<Rightarrow> nat \<Rightarrow> ('s, 'b, 'm) reader_scheme \<Rightarrow> ('s, 'b, 'm) reader_scheme" where
  "accept s c n r = r\<lparr>r_state := s, r_code := c, r_tok := n\<rparr>"

definition refuse :: "'s \<Rightarrow> token_code \<Rightarrow> ('s, 'b, 'm) reader_scheme \<Rightarrow> ('s, 'b, 'm) reader_scheme" where
  "refuse s c r = r\<lparr>r_state := s, r_code := c\<rparr>"

text \<open>The lines of \<open>next()\<close> that leave the previous token behind.\<close>

definition advance :: "('s, 'b, 'm) reader_scheme \<Rightarrow> ('s, 'b, 'm) reader_scheme" where
  "advance r =
     (if r_code r \<noteq> Error_insufficient_data
      then r\<lparr>r_idx := r_idx r + r_tok r, r_tok := 0, r_code := Error_insufficient_data\<rparr>
      else r)"

section \<open>The cases both readers have\<close>

text \<open>
  \<open>EXPECT_METHOD\<close>, \<open>EXPECT_REQUEST_TARGET\<close>: a non-empty run of bytes of a class, ended by a byte
  outside it; the scan goes on where the last call stopped.
\<close>

definition scan_token ::
  "(byte \<Rightarrow> bool) \<Rightarrow> 's \<Rightarrow> 's \<Rightarrow> token_code \<Rightarrow> ('s, 'b, 'm) reader_scheme \<Rightarrow> ('s, 'b, 'm) reader_scheme" where
  "scan_token p errored s c r =
     (let i = r_idx r + r_tok r;
          i' = i + match_while p (drop i (r_buf r))
      in if i' = length (r_buf r) then r\<lparr>r_tok := i' - r_idx r\<rparr>
         else if i' \<noteq> r_idx r then accept s c (i' - r_idx r) r
         else refuse errored Error_invalid_data r)"

text \<open>\<open>EXPECT_STATIC_STR_AFTER_TARGET\<close>, \<open>EXPECT_VERSION_STATIC_STR\<close>.\<close>

definition match_string :: "bytes \<Rightarrow> 's \<Rightarrow> 's \<Rightarrow> ('s, 'b, 'm) reader_scheme \<Rightarrow> ('s, 'b, 'm) reader_scheme" where
  "match_string lit errored s r =
     (let i = r_idx r + r_tok r;
          count = min (length (r_buf r)) (r_idx r + length lit)
      in case match_literal (drop (r_tok r) lit) (drop i (take count (r_buf r))) of
           None \<Rightarrow> refuse errored Error_invalid_data r
         | Some n \<Rightarrow>
             if r_tok r + n = length lit then accept s Skip (r_tok r + n) r
             else r\<lparr>r_tok := r_tok r + n\<rparr>)"

text \<open>One byte of a class.\<close>

definition single :: "(byte \<Rightarrow> bool) \<Rightarrow> 's \<Rightarrow> 's \<Rightarrow> token_code \<Rightarrow> ('s, 'b, 'm) reader_scheme \<Rightarrow> ('s, 'b, 'm) reader_scheme" where
  "single p errored s c r =
     (if p (r_buf r ! r_idx r) then accept s c 1 r else refuse errored Error_invalid_data r)"

definition liberal_line :: "'s \<Rightarrow> 's \<Rightarrow> ('s, 'b, 'm) reader_scheme \<Rightarrow> ('s, 'b, 'm) reader_scheme" where
  "liberal_line errored s r =
     (case liberal_crlf_match (rest_view r) of
        Crlf \<Rightarrow> accept s Skip 2 r
      | Lf \<Rightarrow> accept s Skip 1 r
      | Insufficient_data \<Rightarrow> r
      | Invalid_data \<Rightarrow> refuse errored Error_invalid_data r)"

definition strict_line :: "'s \<Rightarrow> 's \<Rightarrow> token_code \<Rightarrow> ('s, 'b, 'm) reader_scheme \<Rightarrow> ('s, 'b, 'm) reader_scheme" where
  "strict_line errored s c r =
     (if length (rest_view r) < 2 then r
      else let nmatched = strict_crlf_match (rest_view r)
           in if nmatched = 0 then refuse errored Error_invalid_data r
              else accept s c nmatched r)"

text \<open>\<open>EXPECT_COLON\<close>, \<open>EXPECT_TRAILER_COLON\<close>: the colon and the blanks after it that are there.\<close>

definition colon :: "'s \<Rightarrow> 's \<Rightarrow> 's \<Rightarrow> ('s, 'b, 'm) reader_scheme \<Rightarrow> ('s, 'b, 'm) reader_scheme" where
  "colon errored ows_state value_state r =
     (if r_buf r ! r_idx r \<noteq> 0x3A then refuse errored Error_invalid_data r
      else let i = r_idx r + 1 + match_while is_ows (drop (r_idx r + 1) (r_buf r))
           in accept (if i = length (r_buf r) then ows_state else value_state) Skip (i - r_idx r) r)"

definition ows_after_colon :: "'s \<Rightarrow> ('s, 'b, 'm) reader_scheme \<Rightarrow> ('s, 'b, 'm) reader_scheme step" where
  "ows_after_colon value_state r =
     (let nmatched = ows_match (rest_view r)
      in if nmatched = 0 then Ret_next (r\<lparr>r_state := value_state\<rparr>)
         else Ret (r\<lparr>r_code := Skip, r_tok := nmatched\<rparr>))"

text \<open>A run of bytes that may be empty but has to be followed by something.\<close>

definition match_token :: "(bytes \<Rightarrow> nat) \<Rightarrow> 's \<Rightarrow> token_code \<Rightarrow> ('s, 'b, 'm) reader_scheme \<Rightarrow> ('s, 'b, 'm) reader_scheme" where
  "match_token match s c r =
     (let nmatched = match (rest_view r)
      in if nmatched = length (rest_view r) then r else accept s c nmatched r)"

text \<open>The enumerators of \<open>body_type\<close> that the headers set, in the enumeration of the reader.\<close>

record 'b body_types =
  bt_content_length_read :: 'b
  bt_chunked_encoding_read :: 'b
  bt_random_encoding_read :: 'b
  bt_reading_content_length :: 'b
  bt_reading_encoding :: 'b

definition read_content_length :: "'s \<Rightarrow> 'b body_types \<Rightarrow> bytes \<Rightarrow> ('s, 'b, 'm) reader_scheme \<Rightarrow> ('s, 'b, 'm) reader_scheme" where
  "read_content_length errored bt field r =
     (let (res, n) = content_length_decode field (r_body_size r);
          r = r\<lparr>r_body := bt_content_length_read bt, r_body_size := n\<rparr>
      in case res of
           Invalid \<Rightarrow> refuse errored Error_invalid_content_length r
         | Overflow \<Rightarrow> refuse errored Error_content_length_overflow r
         | Ok \<Rightarrow> r)"

definition read_transfer_encoding ::
  "(bytes \<Rightarrow> bytes \<Rightarrow> bool) \<Rightarrow> 's \<Rightarrow> 'b body_types \<Rightarrow> bytes \<Rightarrow> ('s, 'b, 'm) reader_scheme \<Rightarrow> ('s, 'b, 'm) reader_scheme" where
  "read_transfer_encoding ieq errored bt field r =
     (case decode_transfer_encoding ieq field of
        CHUNKED_INVALID \<Rightarrow> refuse errored Error_invalid_transfer_encoding r
      | CHUNKED_NOT_FOUND \<Rightarrow> r\<lparr>r_body := bt_random_encoding_read bt\<rparr>
      | CHUNKED_AT_END \<Rightarrow> r\<lparr>r_body := bt_chunked_encoding_read bt\<rparr>)"

text \<open>\<open>EXPECT_FIELD_VALUE\<close>.\<close>

definition field_value ::
  "(bytes \<Rightarrow> bytes \<Rightarrow> bool) \<Rightarrow> 's \<Rightarrow> 's \<Rightarrow> 'b body_types \<Rightarrow> ('s, 'b, 'm) reader_scheme \<Rightarrow> ('s, 'b, 'm) reader_scheme step" where
  "field_value ieq errored s bt r =
     (let nmatched = left_trimmed_field_value_match (rest_view r)
      in if nmatched = length (rest_view r) then Ret r
         else let r = accept s Field_value nmatched r
              in case field_value_of r of
                   None \<Rightarrow> Undefined
                 | Some field \<Rightarrow>
                     Ret (if r_body r = bt_reading_content_length bt then read_content_length errored bt field r
                          else if r_body r = bt_reading_encoding bt then read_transfer_encoding ieq errored bt field r
                          else r))"

text \<open>\<open>EXPECT_BODY\<close>, \<open>EXPECT_CHUNK_DATA\<close>.\<close>

definition body_data :: "'s \<Rightarrow> ('s, 'b, 'm) reader_scheme \<Rightarrow> ('s, 'b, 'm) reader_scheme" where
  "body_data s r =
     (let n = min (length (rest_view r)) (unat (r_body_size r));
          left = r_body_size r - of_nat n
      in r\<lparr>r_code := Body_chunk, r_tok := n, r_body_size := left,
           r_state := (if left = 0 then s else r_state r)\<rparr>)"

definition chunk_size :: "'s \<Rightarrow> 's \<Rightarrow> ('s, 'b, 'm) reader_scheme \<Rightarrow> ('s, 'b, 'm) reader_scheme" where
  "chunk_size errored s r =
     (let nmatched = chunk_size_match (rest_view r)
      in if nmatched = 0 then refuse errored Error_invalid_data r
         else if nmatched = length (rest_view r) then r
         else let (res, n) = chunk_size_decode (take nmatched (rest_view r)) (r_body_size r);
                  r = r\<lparr>r_body_size := n\<rparr>
              in case res of
                   Invalid \<Rightarrow> refuse errored Error_invalid_data r
                 | Overflow \<Rightarrow> refuse errored Error_chunk_size_overflow r
                 | Ok \<Rightarrow> accept s Skip nmatched r)"

definition chunk_ext :: "'s \<Rightarrow> 's \<Rightarrow> ('s, 'b, 'm) reader_scheme \<Rightarrow> ('s, 'b, 'm) reader_scheme step" where
  "chunk_ext errored s r =
     (let i = r_idx r + r_tok r;
          i' = i + match_while is_chunk_ext_char (drop i (r_buf r))
      in if i' = length (r_buf r) then Ret (r\<lparr>r_tok := i' - r_idx r\<rparr>)
         else if r_buf r ! i' \<noteq> 0x0D then Ret (refuse errored Error_invalid_data r)
         else let r = r\<lparr>r_state := s, r_tok := i' - r_idx r\<rparr>
              in if r_tok r = 0 then Ret_next r else Ret (r\<lparr>r_code := Skip\<rparr>))"

definition crlf_after_chunk_ext :: "'s \<Rightarrow> 's \<Rightarrow> 's \<Rightarrow> ('s, 'b, 'm) reader_scheme \<Rightarrow> ('s, 'b, 'm) reader_scheme" where
  "crlf_after_chunk_ext errored data_state trailer_state r =
     (if r_body_size r \<noteq> 0 then strict_line errored data_state Skip r
      else strict_line errored trailer_state End_of_body r)"

definition trailer_name :: "'s \<Rightarrow> 's \<Rightarrow> ('s, 'b, 'm) reader_scheme \<Rightarrow> ('s, 'b, 'm) reader_scheme step" where
  "trailer_name crlf_state colon_state r =
     (let nmatched = field_name_match (rest_view r)
      in if nmatched = 0 then Ret_next (r\<lparr>r_state := crlf_state\<rparr>)
         else if nmatched = length (rest_view r) then Ret r
         else Ret (accept colon_state Field_name nmatched r))"

text \<open>\<open>EXPECT_CRLF_AFTER_TRAILERS\<close>: the end of the message, the body type is forgotten.\<close>

definition end_of_trailers :: "'s \<Rightarrow> 's \<Rightarrow> 'b \<Rightarrow> ('s, 'b, 'm) reader_scheme \<Rightarrow> ('s, 'b, 'm) reader_scheme" where
  "end_of_trailers errored s b r =
     (let r' = strict_line errored s End_of_message r
      in if r_code r' = End_of_message then r'\<lparr>r_body := b\<rparr> else r')"

text \<open>\<open>set_buffer\<close>: the unread bytes are expected at the beginning of the new buffer.\<close>

definition set_buffer :: "bytes \<Rightarrow> ('s, 'b, 'm) reader_scheme \<Rightarrow> ('s, 'b, 'm) reader_scheme" where
  "set_buffer buf r = r\<lparr>r_buf := buf, r_idx := 0\<rparr>"

section \<open>What each case can do to the cursor\<close>

definition cursor_ok :: "('s, 'b, 'm) reader_scheme \<Rightarrow> bool" where
  "cursor_ok r \<longleftrightarrow> r_idx r + r_tok r \<le> length (r_buf r)"

lemma length_rest_view [simp]: "length (rest_view r) = length (r_buf r) - r_idx r"
  by (simp add: rest_view_def)

lemma rest_view_nth: "i < length (rest_view r) \<Longrightarrow> rest_view r ! i = r_buf r ! (r_idx r + i)"
  by (simp add: rest_view_def)

lemma is_token_simps [simp]:
  "is_token Skip" "is_token Method" "is_token Request_target" "is_token Version" "is_token Status_code"
  "is_token Reason_phrase" "is_token Field_name" "is_token Field_value" "is_token End_of_headers"
  "is_token Body_chunk" "is_token End_of_body" "is_token End_of_message"
  "\<not> is_token Error_insufficient_data" "\<not> is_token Error_set_method"
  "\<not> is_token Error_use_another_connection" "\<not> is_token Error_invalid_data" "\<not> is_token Error_no_host"
  "\<not> is_token Error_invalid_content_length" "\<not> is_token Error_content_length_overflow"
  "\<not> is_token Error_invalid_transfer_encoding" "\<not> is_token Error_chunk_size_overflow"
  by (simp_all add: is_token_def)

lemma accept_simps [simp]:
  "r_state (accept s c n r) = s" "r_code (accept s c n r) = c" "r_tok (accept s c n r) = n"
  "r_idx (accept s c n r) = r_idx r" "r_buf (accept s c n r) = r_buf r"
  "r_body (accept s c n r) = r_body r" "r_body_size (accept s c n r) = r_body_size r"
  "reader.more (accept s c n r) = reader.more r"
  by (simp_all add: accept_def)

lemma refuse_simps [simp]:
  "r_state (refuse s c r) = s" "r_code (refuse s c r) = c" "r_tok (refuse s c r) = r_tok r"
  "r_idx (refuse s c r) = r_idx r" "r_buf (refuse s c r) = r_buf r"
  "r_body (refuse s c r) = r_body r" "r_body_size (refuse s c r) = r_body_size r"
  "reader.more (refuse s c r) = reader.more r"
  by (simp_all add: refuse_def)

lemma advance_simps [simp]:
  "r_state (advance r) = r_state r" "r_buf (advance r) = r_buf r" "r_body (advance r) = r_body r"
  "r_body_size (advance r) = r_body_size r" "r_code (advance r) = Error_insufficient_data"
  "reader.more (advance r) = reader.more r"
  by (simp_all add: advance_def)

lemma scan_tokenE:
  assumes "cursor_ok r"
  obtains (more) "scan_token p e s c r = r\<lparr>r_tok := length (r_buf r) - r_idx r\<rparr>"
      "\<forall>x \<in> set (drop (r_idx r + r_tok r) (r_buf r)). p x"
  | (token) n where "scan_token p e s c r = accept s c n r" "0 < n" "r_tok r \<le> n" "n < length (rest_view r)"
      "\<not> p (rest_view r ! n)" "\<forall>x \<in> set (take (n - r_tok r) (drop (r_idx r + r_tok r) (r_buf r))). p x"
  | (bad) "scan_token p e s c r = refuse e Error_invalid_data r" "r_tok r = 0"
proof -
  let ?i = "r_idx r + r_tok r"
  let ?d = "drop ?i (r_buf r)"
  let ?m = "match_while p ?d"
  have i: "?i \<le> length (r_buf r)"
    using assms by (simp add: cursor_ok_def)
  show thesis
  proof (cases "?i + ?m = length (r_buf r)")
    case True
    then have "?m = length ?d"
      by simp
    then have "\<forall>x \<in> set ?d. p x"
      using match_while_eq_length by metis
    moreover have "scan_token p e s c r = r\<lparr>r_tok := length (r_buf r) - r_idx r\<rparr>"
      using True by (simp add: scan_token_def Let_def)
    ultimately show ?thesis
      using more by blast
  next
    case False
    with i have m: "?m < length ?d"
      using match_while_le [of p ?d] by simp
    show ?thesis
    proof (cases "?i + ?m = r_idx r")
      case True
      then have tok: "r_tok r = 0" and m0: "?m = 0"
        by linarith+
      have z: "r_tok r = 0" "match_while p (drop (r_idx r) (r_buf r)) = 0"
        using tok m0 by simp_all
      then show ?thesis
        using False bad by (simp add: scan_token_def Let_def)
    next
      case ne: False
      have "scan_token p e s c r = accept s c (r_tok r + ?m) r"
        using False ne by (simp add: scan_token_def Let_def)
      moreover have "\<not> p (rest_view r ! (r_tok r + ?m))"
        using match_while_stop [OF m] m by (simp add: rest_view_def algebra_simps)
      moreover have "\<forall>x \<in> set (take ?m ?d). p x"
        by (metis take_match_while set_takeWhileD)
      ultimately show ?thesis
        using token [of "r_tok r + ?m"] ne m by simp
    qed
  qed
qed

lemma singleE:
  obtains (token) "single p e s c r = accept s c 1 r" "p (r_buf r ! r_idx r)"
  | (bad) "single p e s c r = refuse e Error_invalid_data r" "\<not> p (r_buf r ! r_idx r)"
  by (auto simp: single_def)

lemma match_stringE:
  assumes "cursor_ok r"
  obtains (token) "match_string lit e s r = accept s Skip (length lit) r" "length lit \<le> length (rest_view r)"
      "r_tok r \<le> length lit" "drop (r_tok r) lit = take (length lit - r_tok r) (drop (r_tok r) (rest_view r))"
  | (more) n where "match_string lit e s r = r\<lparr>r_tok := n\<rparr>" "n \<le> length (rest_view r)" "r_tok r \<le> n" "n \<noteq> length lit"
      "n \<le> length lit \<longrightarrow> n = length (rest_view r) \<and> take (n - r_tok r) (drop (r_tok r) lit) = drop (r_tok r) (rest_view r)"
  | (bad) "match_string lit e s r = refuse e Error_invalid_data r"
proof -
  let ?c = "min (length (r_buf r)) (r_idx r + length lit)"
  let ?v = "drop (r_idx r + r_tok r) (take ?c (r_buf r))"
  have v: "?v = take (length lit - r_tok r) (drop (r_tok r) (rest_view r))"
    by (simp add: rest_view_def drop_take add.commute min_def)
  show thesis
  proof (cases "match_literal (drop (r_tok r) lit) ?v")
    case None
    then show ?thesis
      using bad by (simp add: match_string_def Let_def)
  next
    case (Some n)
    have n: "n = min (length lit - r_tok r) (length (rest_view r) - r_tok r)"
    proof -
      have "length ?v = min (length lit - r_tok r) (length (rest_view r) - r_tok r)"
        unfolding v by (simp add: min.commute)
      then show ?thesis
        using match_literal_Some [OF Some] by simp
    qed
    have n2: "take n (drop (r_tok r) lit) = take n ?v"
      using match_literal_Some [OF Some] by blast
    have tok: "r_tok r \<le> length (rest_view r)"
      using assms by (simp add: cursor_ok_def)
    show ?thesis
    proof (cases "r_tok r + n = length lit")
      case True
      then have K: "n = length lit - r_tok r" "r_tok r \<le> length lit"
        by simp_all
      then have "length lit - r_tok r \<le> length (rest_view r) - r_tok r"
        using n by linarith
      moreover have "drop (r_tok r) lit = take (length lit - r_tok r) (drop (r_tok r) (rest_view r))"
        using n2 K by (simp add: v)
      ultimately show ?thesis
        using Some True tok K token by (simp add: match_string_def Let_def)
    next
      case False
      have le: "r_tok r + n \<le> length (rest_view r)"
        using n tok by linarith
      have "r_tok r + n = length (rest_view r) \<and> take n (drop (r_tok r) lit) = drop (r_tok r) (rest_view r)"
        if "r_tok r + n \<le> length lit"
      proof -
        have L: "n = length (rest_view r) - r_tok r" "n \<le> length lit - r_tok r"
          using that n False by linarith+
        then show ?thesis
          using n2 tok by (simp add: v del: length_rest_view)
      qed
      with False le Some show ?thesis
        using more [of "r_tok r + n"] by (simp add: match_string_def Let_def)
    qed
  qed
qed

lemma liberal_lineE:
  obtains (crlf) "liberal_line e s r = accept s Skip 2 r" "2 \<le> length (rest_view r)"
  | (lf) "liberal_line e s r = accept s Skip 1 r" "1 \<le> length (rest_view r)"
  | (more) "liberal_line e s r = r"
  | (bad) "liberal_line e s r = refuse e Error_invalid_data r"
proof (cases "liberal_crlf_match (rest_view r)")
  case Crlf
  then have "2 \<le> length (rest_view r)"
    by (auto simp: liberal_crlf_match_cases simp del: length_rest_view)
  with Crlf crlf show ?thesis by (simp add: liberal_line_def)
next
  case Lf
  then have "1 \<le> length (rest_view r)"
    by (auto simp: liberal_crlf_match_cases simp del: length_rest_view)
  with Lf lf show ?thesis by (simp add: liberal_line_def)
qed (use more bad in \<open>simp_all add: liberal_line_def\<close>)

lemma liberal_crlf_room:
  "liberal_crlf_match (rest_view r) = Crlf \<Longrightarrow> r_idx r + 2 \<le> length (r_buf r)"
  "liberal_crlf_match (rest_view r) = Lf \<Longrightarrow> r_idx r + 1 \<le> length (r_buf r)"
  using length_rest_view [of r] by (auto simp: liberal_crlf_match_cases simp del: length_rest_view)

lemma strict_lineE:
  obtains (token) "strict_line e s c r = accept s c 2 r" "2 \<le> length (rest_view r)"
  | (more) "strict_line e s c r = r"
  | (bad) "strict_line e s c r = refuse e Error_invalid_data r" "2 \<le> length (rest_view r)"
proof (cases "length (rest_view r) < 2")
  case True
  with more show ?thesis by (simp add: strict_line_def)
next
  case False
  then show ?thesis
    using strict_crlf_match_iff(2) [of "rest_view r"] token bad
    by (auto simp: strict_line_def Let_def simp del: length_rest_view)
qed

lemma colonE:
  assumes "r_idx r < length (r_buf r)"
  obtains (token) n st where "colon e s v r = accept st Skip n r" "1 \<le> n" "n \<le> length (rest_view r)"
      "st = (if n = length (rest_view r) then s else v)"
  | (bad) "colon e s v r = refuse e Error_invalid_data r"
proof (cases "r_buf r ! r_idx r = 0x3A")
  case True
  let ?m = "match_while is_ows (drop (r_idx r + 1) (r_buf r))"
  have "?m \<le> length (r_buf r) - (r_idx r + 1)"
    using match_while_le [of is_ows "drop (r_idx r + 1) (r_buf r)"] by simp
  with True assms show ?thesis
    using token [of "if 1 + ?m = length (rest_view r) then s else v" "1 + ?m"]
    by (auto simp: colon_def Let_def) 
qed (use bad in \<open>simp add: colon_def\<close>)

lemma match_tokenE:
  assumes "\<And>v. match v \<le> length v"
  obtains (more) "match_token match s c r = r"
  | (token) n where "match_token match s c r = accept s c n r" "n < length (rest_view r)" "n = match (rest_view r)"
proof (cases "match (rest_view r) = length (rest_view r)")
  case True
  with more show ?thesis by (simp add: match_token_def)
next
  case False
  with assms [of "rest_view r"] have "match (rest_view r) < length (rest_view r)"
    by linarith
  with False token show ?thesis by (simp add: match_token_def Let_def)
qed

lemma field_value_match_le: "left_trimmed_field_value_match v \<le> length v"
  by (simp add: left_trimmed_field_value_match_def)

lemma reason_phrase_match_le: "reason_phrase_match v \<le> length v"
  by (simp add: reason_phrase_match_def)

lemma chunk_sizeE:
  obtains (more) "chunk_size e s r = r"
  | (token) n k where "chunk_size e s r = accept s Skip n (r\<lparr>r_body_size := k\<rparr>)" "0 < n" "n < length (rest_view r)"
      "n = chunk_size_match (rest_view r)" "chunk_size_decode (take n (rest_view r)) (r_body_size r) = (Ok, k)"
  | (bad) c k where "chunk_size e s r = refuse e c (r\<lparr>r_body_size := k\<rparr>)" "c = Error_invalid_data \<or> c = Error_chunk_size_overflow"
proof (cases "chunk_size_match (rest_view r) = 0 \<or> chunk_size_match (rest_view r) = length (rest_view r)")
  case True
  show ?thesis
  proof (cases "chunk_size_match (rest_view r) = 0")
    case True
    then have "chunk_size e s r = refuse e Error_invalid_data (r\<lparr>r_body_size := r_body_size r\<rparr>)"
      by (simp add: chunk_size_def)
    then show ?thesis
      using bad by blast
  next
    case False
    with True have "chunk_size e s r = r"
      unfolding chunk_size_def Let_def by (simp del: length_rest_view)
    then show ?thesis
      by (rule more)
  qed
next
  case False
  moreover have "chunk_size_match (rest_view r) < length (rest_view r)"
    using False match_while_le [of is_hexdigit "rest_view r"] unfolding chunk_size_match_def by linarith
  moreover obtain res k where d: "chunk_size_decode (take (chunk_size_match (rest_view r)) (rest_view r)) (r_body_size r) = (res, k)"
    by fastforce
  ultimately show ?thesis
    using token bad by (cases res) (simp_all add: chunk_size_def Let_def)
qed

lemma body_data_simps:
  assumes "r_body_size r \<noteq> 0" and "r_idx r < length (r_buf r)"
  shows "r_idx (body_data s r) = r_idx r" "r_buf (body_data s r) = r_buf r" "r_body (body_data s r) = r_body r"
    "r_code (body_data s r) = Body_chunk" "0 < r_tok (body_data s r)"
    "r_tok (body_data s r) \<le> length (rest_view r)"
    "r_tok (body_data s r) + unat (r_body_size (body_data s r)) = unat (r_body_size r)"
    "r_state (body_data s r) = (if r_body_size (body_data s r) = 0 then s else r_state r)"
    "reader.more (body_data s r) = reader.more r"
proof -
  let ?n = "min (length (rest_view r)) (unat (r_body_size r))"
  have "unat (of_nat ?n :: u64) = ?n"
    using unsigned_less [of "r_body_size r", where ?'a = nat]
    by (subst unat_of_nat) (simp add: min_def)
  moreover from this have "(of_nat ?n :: u64) \<le> r_body_size r"
    by (simp add: word_le_nat_alt)
  ultimately show "r_tok (body_data s r) + unat (r_body_size (body_data s r)) = unat (r_body_size r)"
    using unat_sub [of "of_nat ?n" "r_body_size r"] by (simp add: body_data_def Let_def)
  show "0 < r_tok (body_data s r)"
    using assms by (simp add: body_data_def Let_def unat_gt_0)
qed (simp_all add: body_data_def Let_def)

lemma ows_after_colonE:
  obtains (empty) "ows_after_colon v r = Ret_next (r\<lparr>r_state := v\<rparr>)" "ows_match (rest_view r) = 0"
  | (token) n where "ows_after_colon v r = Ret (r\<lparr>r_code := Skip, r_tok := n\<rparr>)" "0 < n" "n \<le> length (rest_view r)"
  using match_while_le [of is_ows "rest_view r"] by (cases "ows_match (rest_view r) = 0")
    (auto simp: ows_after_colon_def ows_match_def Let_def simp del: match_while_le)

lemma chunk_extE:
  assumes "cursor_ok r"
  obtains (more) "chunk_ext e s r = Ret (r\<lparr>r_tok := length (r_buf r) - r_idx r\<rparr>)"
  | (bad) "chunk_ext e s r = Ret (refuse e Error_invalid_data r)"
  | (empty) "chunk_ext e s r = Ret_next (r\<lparr>r_state := s, r_tok := 0\<rparr>)"
  | (token) n where "chunk_ext e s r = Ret (accept s Skip n r)" "0 < n" "n < length (rest_view r)"
proof -
  let ?i = "r_idx r + r_tok r"
  let ?m = "match_while is_chunk_ext_char (drop ?i (r_buf r))"
  have m: "?i + ?m \<le> length (r_buf r)"
    using assms match_while_le [of is_chunk_ext_char "drop ?i (r_buf r)"] by (simp add: cursor_ok_def)
  consider "?i + ?m = length (r_buf r)" | "?i + ?m < length (r_buf r)" "r_buf r ! (?i + ?m) \<noteq> 0x0D"
    | "?i + ?m < length (r_buf r)" "r_buf r ! (?i + ?m) = 0x0D"
    using m by linarith
  then show thesis
  proof cases
    case 1
    with more show ?thesis by (simp add: chunk_ext_def Let_def)
  next
    case 2
    with bad show ?thesis by (simp add: chunk_ext_def Let_def)
  next
    case 3
    show ?thesis
    proof (cases "r_tok r + ?m = 0")
      case True
      then have "r_tok r = 0" "?m = 0"
        by linarith+
      with 3 have "chunk_ext e s r = Ret_next (r\<lparr>r_state := s, r_tok := 0\<rparr>)"
        by (simp add: chunk_ext_def Let_def)
      then show ?thesis by (rule empty)
    next
      case False
      with 3 have "chunk_ext e s r = Ret (accept s Skip (r_tok r + ?m) r)"
        by (simp add: chunk_ext_def Let_def accept_def)
      with 3 False show ?thesis
        using token [of "r_tok r + ?m"] by simp
    qed
  qed
qed

lemma trailer_nameE:
  obtains (empty) "trailer_name cr co r = Ret_next (r\<lparr>r_state := cr\<rparr>)"
  | (more) "trailer_name cr co r = Ret r"
  | (token) n where "trailer_name cr co r = Ret (accept co Field_name n r)" "0 < n" "n < length (rest_view r)"
proof -
  let ?n = "field_name_match (rest_view r)"
  have le: "?n \<le> length (rest_view r)"
    by (simp add: field_name_match_def del: length_rest_view)
  consider "?n = 0" | "?n \<noteq> 0" "?n = length (rest_view r)" | "?n \<noteq> 0" "?n < length (rest_view r)"
    using le by linarith
  then show thesis
  proof cases
    case 1
    then show ?thesis using empty by (simp add: trailer_name_def)
  next
    case 2
    then have "trailer_name cr co r = Ret r"
      unfolding trailer_name_def Let_def by (simp del: length_rest_view)
    then show ?thesis by (rule more)
  next
    case 3
    then have "trailer_name cr co r = Ret (accept co Field_name ?n r)"
      unfolding trailer_name_def Let_def by (simp del: length_rest_view)
    with 3 token show ?thesis by blast
  qed
qed

text \<open>Reading a field value changes the body type only when the field name asked for it.\<close>

lemma field_valueE:
  obtains (more) "field_value ieq e s bt r = Ret r"
  | (undefined) "field_value ieq e s bt r = Undefined" "left_trimmed_field_value_match (rest_view r) = 0"
      "list_all is_ows (take (r_idx r) (r_buf r))"
  | (plain) n where "field_value ieq e s bt r = Ret (accept s Field_value n r)" "n < length (rest_view r)"
      "r_body r \<noteq> bt_reading_content_length bt" "r_body r \<noteq> bt_reading_encoding bt"
  | (length_read) n k where "field_value ieq e s bt r =
        Ret ((accept s Field_value n r)\<lparr>r_body := bt_content_length_read bt, r_body_size := k\<rparr>)"
      "n < length (rest_view r)" "r_body r = bt_reading_content_length bt"
      "\<exists>field. field_value_of (accept s Field_value n r) = Some field \<and> content_length_decode field (r_body_size r) = (Ok, k)"
  | (coding_read) n b where "field_value ieq e s bt r = Ret ((accept s Field_value n r)\<lparr>r_body := b\<rparr>)"
      "n < length (rest_view r)" "r_body r = bt_reading_encoding bt"
      "b = bt_random_encoding_read bt \<or> b = bt_chunked_encoding_read bt"
  | (bad) n b k c where "field_value ieq e s bt r =
        Ret (refuse e c ((accept s Field_value n r)\<lparr>r_body := b, r_body_size := k\<rparr>))"
      "n < length (rest_view r)" "\<not> is_token c" "c \<noteq> Error_insufficient_data"
proof -
  let ?n = "left_trimmed_field_value_match (rest_view r)"
  let ?r = "accept s Field_value ?n r"
  have n: "?n \<le> length (rest_view r)"
    by (simp add: left_trimmed_field_value_match_def del: length_rest_view)
  show thesis
  proof (cases "?n = length (rest_view r)")
    case True
    then have "field_value ieq e s bt r = Ret r"
      unfolding field_value_def Let_def by (simp del: length_rest_view)
    then show ?thesis by (rule more)
  next
    case False
    with n have lt: "?n < length (rest_view r)"
      by linarith
    have fv: "field_value ieq e s bt r = (case field_value_of ?r of None \<Rightarrow> Undefined
      | Some field \<Rightarrow> Ret (if r_body r = bt_reading_content_length bt then read_content_length e bt field ?r
          else if r_body r = bt_reading_encoding bt then read_transfer_encoding ieq e bt field ?r else ?r))"
      using False unfolding field_value_def Let_def by (simp del: length_rest_view cong: option.case_cong if_cong)
    show ?thesis
    proof (cases "field_value_of ?r")
      case None
      have "token_view ?r = [] \<longrightarrow> ?n = 0"
        using lt by (auto simp: token_view_def)
      with None fv undefined show ?thesis
        by (simp add: field_value_of_def decode_field_value_def split: if_splits)
    next
      case (Some field)
      show ?thesis
      proof (cases "r_body r = bt_reading_content_length bt")
        case True
        obtain res k where d: "content_length_decode field (r_body_size r) = (res, k)"
          by fastforce
        show ?thesis
        proof (cases res)
          case Ok
          then show ?thesis
            using length_read [where n = ?n and k = k] fv Some True lt d by (simp add: read_content_length_def)
        qed (use bad [where n = ?n and b = "bt_content_length_read bt" and k = k] fv Some True lt d in \<open>simp_all add: read_content_length_def\<close>)
      next
        case nl: False
        show ?thesis
        proof (cases "r_body r = bt_reading_encoding bt")
          case True
          show ?thesis
          proof (cases "decode_transfer_encoding ieq field")
            case CHUNKED_INVALID
            then have "field_value ieq e s bt r = Ret (refuse e Error_invalid_transfer_encoding
                (?r\<lparr>r_body := r_body r, r_body_size := r_body_size r\<rparr>))"
              using fv Some True nl by (simp add: read_transfer_encoding_def accept_def)
            then show ?thesis
              using bad lt by simp
          qed (use coding_read [where n = ?n] fv Some True nl lt in \<open>simp_all add: read_transfer_encoding_def\<close>)
        next
          case False
          with nl show ?thesis
            using plain [where n = ?n] fv Some lt by simp
        qed
      qed
    qed
  qed
qed

section \<open>The interface of a reader\<close>

text \<open>
  How much of the buffer is behind the reader once the current token is left, and a measure of
  what a reader can still deliver: three for each unread byte and the tokens without bytes.
\<close>

definition consumed :: "('s, 'b, 'm) reader_scheme \<Rightarrow> nat" where
  "consumed r = r_idx r + (if is_token (r_code r) then r_tok r else 0)"

definition token_measure :: "('s \<Rightarrow> nat) \<Rightarrow> ('s, 'b, 'm) reader_scheme \<Rightarrow> nat" where
  "token_measure rank r = 3 * (length (r_buf r) - consumed r) + rank (r_state r)"

text \<open>
  Calling \<open>next()\<close> until it delivers no token, at most \<open>n\<close> times: the readers after each call, and
  whether the loop ended by itself.
\<close>

fun read_tokens :: "(('s, 'b, 'm) reader_scheme \<Rightarrow> ('s, 'b, 'm) reader_scheme option) \<Rightarrow> nat \<Rightarrow>
    ('s, 'b, 'm) reader_scheme \<Rightarrow> ('s, 'b, 'm) reader_scheme list \<times> bool" where
  "read_tokens nxt 0 r = ([], False)"
| "read_tokens nxt (Suc n) r =
     (case nxt r of
        None \<Rightarrow> ([], True)
      | Some r' \<Rightarrow>
          if is_token (r_code r') then (let (rs, ended) = read_tokens nxt n r' in (r' # rs, ended))
          else ([], True))"

locale token_reader =
  fixes nxt :: "('s, 'b, 'm) reader_scheme \<Rightarrow> ('s, 'b, 'm) reader_scheme option"
    and ok :: "('s, 'b, 'm) reader_scheme \<Rightarrow> bool"
    and rank :: "'s \<Rightarrow> nat"
  assumes next_ok: "ok r \<Longrightarrow> nxt r = Some r' \<Longrightarrow> ok r'"
    and next_buf: "ok r \<Longrightarrow> nxt r = Some r' \<Longrightarrow> r_buf r' = r_buf r"
    and next_idx: "ok r \<Longrightarrow> nxt r = Some r' \<Longrightarrow> is_token (r_code r') \<Longrightarrow> r_idx r' = consumed r"
    and ok_cursor: "ok r \<Longrightarrow> cursor_ok r"
    and next_measure: "ok r \<Longrightarrow> nxt r = Some r' \<Longrightarrow> is_token (r_code r') \<Longrightarrow>
      token_measure rank r' < token_measure rank r"
begin

text \<open>Reading ends: the measure of the reader bounds the number of tokens.\<close>

lemma read_tokens_ends: "ok r \<Longrightarrow> token_measure rank r < n \<Longrightarrow> snd (read_tokens nxt n r)"
proof (induction n arbitrary: r)
  case (Suc n)
  show ?case
  proof (cases "nxt r")
    case (Some r')
    then show ?thesis
      using Suc next_ok next_measure [of r r'] by (fastforce split: prod.splits)
  qed simp
qed simp

text \<open>The tokens tile the input: put together they are the bytes that were read.\<close>

lemma tokens_tile:
  assumes "ok r" and "read_tokens nxt n r = (rs, b)"
  shows "concat (map token_view rs) =
    take (sum_list (map r_tok rs)) (drop (consumed r) (r_buf r))
    \<and> consumed r + sum_list (map r_tok rs) \<le> length (r_buf r)"
  using assms
proof (induction n arbitrary: r rs b)
  case 0
  then show ?case
    using ok_cursor [of r] by (auto simp: consumed_def cursor_ok_def)
next
  case (Suc n)
  show ?case
  proof (cases "\<exists>r'. nxt r = Some r' \<and> is_token (r_code r')")
    case True
    then obtain r' where r': "nxt r = Some r'" "is_token (r_code r')"
      by blast
    obtain rs' where rs': "rs = r' # rs'" "read_tokens nxt n r' = (rs', b)"
      using Suc.prems(2) r' by (auto split: prod.splits)
    have buf: "r_buf r' = r_buf r" and idx: "r_idx r' = consumed r" and ok': "ok r'"
      using next_buf next_idx next_ok Suc.prems(1) r' by blast+
    have c: "consumed r' = consumed r + r_tok r'"
      using r'(2) idx by (simp add: consumed_def)
    from Suc.IH [OF ok' rs'(2)] show ?thesis
      by (simp add: rs'(1) token_view_def buf idx c take_add add.commute)
  next
    case False
    then have "rs = []"
      using Suc.prems(2) by (auto split: option.splits if_splits)
    then show ?thesis
      using ok_cursor [OF Suc.prems(1)] by (auto simp: consumed_def cursor_ok_def)
  qed
qed

end

end
