(* ===== verification/ResponseReader.thy ===== *)
theory ResponseReader
  imports ReaderCore
begin

text \<open>
  \<open>boost::http::reader::response\<close> (\<open>reader/response.hpp\<close>, \<open>reader/response.ipp\<close>): the state machine
  that cuts a byte stream into the tokens of HTTP responses. The record \<open>response\<close> is the class, the
  \<open>response_*\<close> definitions are its member functions; the cases it shares with the request reader are
  those of \<open>ReaderCore\<close>. The names of the states are qualified by this theory where both readers are
  in scope. The field \<open>body_size\<close> is not initialised by the constructor: its first value is an
  argument.
\<close>

datatype response_body_type =
    UNKNOWN_BODY
  | CONNECTION_DELIMITED
  | FORCE_NO_BODY
  | FORCE_NO_BODY_AND_STOP
  | CONTENT_LENGTH_READ
  | CHUNKED_ENCODING_READ
  | RANDOM_ENCODING_READ
  | READING_CONTENT_LENGTH
  | READING_ENCODING

datatype response_state =
    ERRORED
  | EXPECT_VERSION_STATIC_STR
  | EXPECT_VERSION
  | EXPECT_SP_AFTER_VERSION
  | EXPECT_STATUS_CODE
  | EXPECT_SP_AFTER_STATUS_CODE
  | EXPECT_REASON_PHRASE
  | EXPECT_CRLF_AFTER_REASON_PHRASE
  | EXPECT_FIELD_NAME
  | EXPECT_COLON
  | EXPECT_OWS_AFTER_COLON
  | EXPECT_FIELD_VALUE
  | EXPECT_CRLF_AFTER_FIELD_VALUE
  | EXPECT_CRLF_AFTER_HEADERS
  | EXPECT_BODY
  | EXPECT_UNSAFE_BODY
  | EXPECT_END_OF_BODY
  | EXPECT_END_OF_MESSAGE
  | EXPECT_END_OF_CONNECTION_ERROR
  | EXPECT_CHUNK_SIZE
  | EXPECT_CHUNK_EXT
  | EXPECT_CRLF_AFTER_CHUNK_EXT
  | EXPECT_CHUNK_DATA
  | EXPECT_CRLF_AFTER_CHUNK_DATA
  | EXPECT_TRAILER_NAME
  | EXPECT_TRAILER_COLON
  | EXPECT_OWS_AFTER_TRAILER_COLON
  | EXPECT_TRAILER_VALUE
  | EXPECT_CRLF_AFTER_TRAILER_VALUE
  | EXPECT_CRLF_AFTER_TRAILERS

record response = "(response_state, response_body_type) reader" +
  rs_eof :: bool

definition new_response :: "u64 \<Rightarrow> response" where
  "new_response body_size =
     \<lparr>r_state = EXPECT_VERSION_STATIC_STR, r_body = UNKNOWN_BODY, r_body_size = body_size,
      r_code = Error_insufficient_data, r_idx = 0, r_tok = 0, r_buf = [], rs_eof = False\<rparr>"

definition response_reset :: "response \<Rightarrow> response" where
  "response_reset r =
     r\<lparr>r_body := UNKNOWN_BODY, r_state := EXPECT_VERSION_STATIC_STR, r_code := Error_insufficient_data,
       r_idx := 0, r_tok := 0, r_buf := [], rs_eof := False\<rparr>"

definition response_puteof :: "response \<Rightarrow> response" where
  "response_puteof r = r\<lparr>rs_eof := True\<rparr>"

definition response_status_code :: "response \<Rightarrow> 16 word" where
  "response_status_code r = status_code_decode (token_view r)"

text \<open>\<open>None\<close>: the assertion that the current token is the status code fails.\<close>

definition set_method :: "bytes \<Rightarrow> response \<Rightarrow> response option" where
  "set_method method r =
     (if r_code r \<noteq> Status_code then None
      else let status_code = response_status_code r;
               code_class = status_code div 100
           in Some (if code_class = 1 \<or> status_code = 204 \<or> status_code = 304 \<or> method = asc ''HEAD''
                    then r\<lparr>r_body := FORCE_NO_BODY, r_body_size := 0\<rparr>
                    else if code_class = 2 \<and> method = asc ''CONNECT''
                    then r\<lparr>r_body := FORCE_NO_BODY_AND_STOP, r_body_size := 0\<rparr>
                    else r\<lparr>r_body := CONNECTION_DELIMITED\<rparr>))"

definition response_expected_token :: "response \<Rightarrow> token_code" where
  "response_expected_token r =
     (case r_state r of
        ERRORED \<Rightarrow> r_code r
      | EXPECT_VERSION \<Rightarrow> Version
      | EXPECT_STATUS_CODE \<Rightarrow> Status_code
      | EXPECT_REASON_PHRASE \<Rightarrow> Reason_phrase
      | EXPECT_FIELD_NAME \<Rightarrow> Field_name
      | EXPECT_TRAILER_NAME \<Rightarrow> Field_name
      | EXPECT_FIELD_VALUE \<Rightarrow> Field_value
      | EXPECT_TRAILER_VALUE \<Rightarrow> Field_value
      | EXPECT_BODY \<Rightarrow> Body_chunk
      | EXPECT_UNSAFE_BODY \<Rightarrow> Body_chunk
      | EXPECT_CHUNK_DATA \<Rightarrow> Body_chunk
      | EXPECT_END_OF_BODY \<Rightarrow> End_of_body
      | EXPECT_END_OF_MESSAGE \<Rightarrow> End_of_message
      | EXPECT_END_OF_CONNECTION_ERROR \<Rightarrow> Error_use_another_connection
      | _ \<Rightarrow> Skip)"

definition response_body_types :: "response_body_type body_types" where
  "response_body_types =
     \<lparr>bt_content_length_read = CONTENT_LENGTH_READ, bt_chunked_encoding_read = CHUNKED_ENCODING_READ,
      bt_random_encoding_read = RANDOM_ENCODING_READ, bt_reading_content_length = READING_CONTENT_LENGTH,
      bt_reading_encoding = READING_ENCODING\<rparr>"

section \<open>The cases of \<open>next()\<close> that only responses have\<close>

definition version_static_str :: bytes where
  "version_static_str = asc ''HTTP/1.''"

definition response_status_code_case :: "response \<Rightarrow> response" where
  "response_status_code_case r =
     (let nmatched = status_code_match (rest_view r)
      in if length (rest_view r) < 3 then r
         else if nmatched = 0 then refuse ERRORED Error_invalid_data r
         else accept EXPECT_SP_AFTER_STATUS_CODE Status_code nmatched r)"

definition response_sp_after_status_code :: "response \<Rightarrow> response" where
  "response_sp_after_status_code r =
     (if r_body r = UNKNOWN_BODY then refuse ERRORED Error_set_method r
      else single is_sp ERRORED EXPECT_REASON_PHRASE Skip r)"

definition response_transfer_encoding :: "response \<Rightarrow> response step" where
  "response_transfer_encoding r =
     (case r_body r of
        CONTENT_LENGTH_READ \<Rightarrow> Ret (r\<lparr>r_body := READING_ENCODING\<rparr>)
      | CONNECTION_DELIMITED \<Rightarrow> Ret (r\<lparr>r_body := READING_ENCODING\<rparr>)
      | RANDOM_ENCODING_READ \<Rightarrow> Ret (r\<lparr>r_body := READING_ENCODING\<rparr>)
      | CHUNKED_ENCODING_READ \<Rightarrow> Ret (refuse ERRORED Error_invalid_transfer_encoding r)
      | _ \<Rightarrow> Undefined)"

definition response_content_length :: "response \<Rightarrow> response step" where
  "response_content_length r =
     (case r_body r of
        CONNECTION_DELIMITED \<Rightarrow> Ret (r\<lparr>r_body := READING_CONTENT_LENGTH\<rparr>)
      | CONTENT_LENGTH_READ \<Rightarrow> Ret (refuse ERRORED Error_invalid_content_length r)
      | CHUNKED_ENCODING_READ \<Rightarrow> Ret r
      | RANDOM_ENCODING_READ \<Rightarrow> Ret r
      | _ \<Rightarrow> Undefined)"

definition response_field_name :: "(bytes \<Rightarrow> bytes \<Rightarrow> bool) \<Rightarrow> response \<Rightarrow> response step" where
  "response_field_name ieq r =
     (let nmatched = field_name_match (rest_view r)
      in if nmatched = 0 then Ret_next (r\<lparr>r_state := EXPECT_CRLF_AFTER_HEADERS\<rparr>)
         else if nmatched = length (rest_view r) then Ret r
         else let r = accept EXPECT_COLON Field_name nmatched r;
                  field = token_view r
              in if r_body r = FORCE_NO_BODY \<or> r_body r = FORCE_NO_BODY_AND_STOP then Ret r
                 else if ieq field (asc ''Transfer-Encoding'') then response_transfer_encoding r
                 else if ieq field (asc ''Content-Length'') then response_content_length r
                 else Ret r)"

text \<open>What follows the empty line, once its size is in \<open>token_size_\<close>.\<close>

definition response_end_of_headers :: "response \<Rightarrow> response step" where
  "response_end_of_headers r =
     (case r_body r of
        RANDOM_ENCODING_READ \<Rightarrow>
          Ret (r\<lparr>r_body := FORCE_NO_BODY_AND_STOP, r_state := EXPECT_UNSAFE_BODY, r_code := End_of_headers\<rparr>)
      | CONNECTION_DELIMITED \<Rightarrow>
          Ret (r\<lparr>r_body := FORCE_NO_BODY_AND_STOP, r_state := EXPECT_UNSAFE_BODY, r_code := End_of_headers\<rparr>)
      | FORCE_NO_BODY \<Rightarrow> Ret (r\<lparr>r_state := EXPECT_END_OF_BODY, r_code := End_of_headers\<rparr>)
      | FORCE_NO_BODY_AND_STOP \<Rightarrow> Ret (r\<lparr>r_state := EXPECT_END_OF_BODY, r_code := End_of_headers\<rparr>)
      | CHUNKED_ENCODING_READ \<Rightarrow> Ret (r\<lparr>r_state := EXPECT_CHUNK_SIZE, r_code := End_of_headers\<rparr>)
      | CONTENT_LENGTH_READ \<Rightarrow>
          Ret (r\<lparr>r_state := (if r_body_size r = 0 then EXPECT_END_OF_BODY else EXPECT_BODY),
                 r_code := End_of_headers\<rparr>)
      | _ \<Rightarrow> Undefined)"

definition response_crlf_after_headers :: "response \<Rightarrow> response step" where
  "response_crlf_after_headers r =
     (case liberal_crlf_match (rest_view r) of
        Crlf \<Rightarrow> response_end_of_headers (r\<lparr>r_tok := 2\<rparr>)
      | Lf \<Rightarrow> response_end_of_headers (r\<lparr>r_tok := 1\<rparr>)
      | Insufficient_data \<Rightarrow> Ret r
      | Invalid_data \<Rightarrow> Ret (refuse ERRORED Error_invalid_data r))"

section \<open>\<open>next()\<close>\<close>

text \<open>The cases that the response reader shares with the request reader, with its own states.\<close>

abbreviation response_version_static_str_case :: "response \<Rightarrow> response step" where
  "response_version_static_str_case r \<equiv> Ret (match_string version_static_str ERRORED EXPECT_VERSION r)"

abbreviation response_version_case :: "response \<Rightarrow> response step" where
  "response_version_case r \<equiv> Ret (single isdigit ERRORED EXPECT_SP_AFTER_VERSION Version r)"

abbreviation response_sp_after_version_case :: "response \<Rightarrow> response step" where
  "response_sp_after_version_case r \<equiv> Ret (single is_sp ERRORED EXPECT_STATUS_CODE Skip r)"

abbreviation response_reason_phrase_case :: "response \<Rightarrow> response step" where
  "response_reason_phrase_case r \<equiv> Ret (match_token reason_phrase_match EXPECT_CRLF_AFTER_REASON_PHRASE Reason_phrase r)"

abbreviation response_crlf_after_reason_case :: "response \<Rightarrow> response step" where
  "response_crlf_after_reason_case r \<equiv> Ret (liberal_line ERRORED EXPECT_FIELD_NAME r)"

abbreviation response_colon_case :: "response \<Rightarrow> response step" where
  "response_colon_case r \<equiv> Ret (colon ERRORED EXPECT_OWS_AFTER_COLON EXPECT_FIELD_VALUE r)"

abbreviation response_ows_after_colon_case :: "response \<Rightarrow> response step" where
  "response_ows_after_colon_case r \<equiv> ows_after_colon EXPECT_FIELD_VALUE r"

abbreviation response_field_value_case :: "(bytes \<Rightarrow> bytes \<Rightarrow> bool) \<Rightarrow> response \<Rightarrow> response step" where
  "response_field_value_case ieq r \<equiv> field_value ieq ERRORED EXPECT_CRLF_AFTER_FIELD_VALUE response_body_types r"

abbreviation response_crlf_after_value_case :: "response \<Rightarrow> response step" where
  "response_crlf_after_value_case r \<equiv> Ret (liberal_line ERRORED EXPECT_FIELD_NAME r)"

abbreviation response_body_case :: "response \<Rightarrow> response step" where
  "response_body_case r \<equiv> Ret (body_data EXPECT_END_OF_BODY r)"

abbreviation response_unsafe_body_case :: "response \<Rightarrow> response step" where
  "response_unsafe_body_case r \<equiv> Ret (r\<lparr>r_code := Body_chunk, r_tok := length (rest_view r)\<rparr>)"

abbreviation response_chunk_size_case :: "response \<Rightarrow> response step" where
  "response_chunk_size_case r \<equiv> Ret (chunk_size ERRORED EXPECT_CHUNK_EXT r)"

abbreviation response_chunk_ext_case :: "response \<Rightarrow> response step" where
  "response_chunk_ext_case r \<equiv> chunk_ext ERRORED EXPECT_CRLF_AFTER_CHUNK_EXT r"

abbreviation response_crlf_after_chunk_ext_case :: "response \<Rightarrow> response step" where
  "response_crlf_after_chunk_ext_case r \<equiv> Ret (crlf_after_chunk_ext ERRORED EXPECT_CHUNK_DATA EXPECT_TRAILER_NAME r)"

abbreviation response_chunk_data_case :: "response \<Rightarrow> response step" where
  "response_chunk_data_case r \<equiv> Ret (body_data EXPECT_CRLF_AFTER_CHUNK_DATA r)"

abbreviation response_crlf_after_chunk_data_case :: "response \<Rightarrow> response step" where
  "response_crlf_after_chunk_data_case r \<equiv> Ret (strict_line ERRORED EXPECT_CHUNK_SIZE Skip r)"

abbreviation response_trailer_name_case :: "response \<Rightarrow> response step" where
  "response_trailer_name_case r \<equiv> trailer_name EXPECT_CRLF_AFTER_TRAILERS EXPECT_TRAILER_COLON r"

abbreviation response_trailer_colon_case :: "response \<Rightarrow> response step" where
  "response_trailer_colon_case r \<equiv> Ret (colon ERRORED EXPECT_OWS_AFTER_TRAILER_COLON EXPECT_TRAILER_VALUE r)"

abbreviation response_ows_after_trailer_colon_case :: "response \<Rightarrow> response step" where
  "response_ows_after_trailer_colon_case r \<equiv> ows_after_colon EXPECT_TRAILER_VALUE r"

abbreviation response_trailer_value_case :: "response \<Rightarrow> response step" where
  "response_trailer_value_case r \<equiv> Ret (match_token left_trimmed_field_value_match EXPECT_CRLF_AFTER_TRAILER_VALUE Field_value r)"

abbreviation response_crlf_after_trailer_value_case :: "response \<Rightarrow> response step" where
  "response_crlf_after_trailer_value_case r \<equiv> Ret (strict_line ERRORED EXPECT_TRAILER_NAME Skip r)"

abbreviation response_crlf_after_trailers_case :: "response \<Rightarrow> response step" where
  "response_crlf_after_trailers_case r \<equiv> Ret (end_of_trailers ERRORED EXPECT_VERSION_STATIC_STR UNKNOWN_BODY r)"

definition response_handler :: "(bytes \<Rightarrow> bytes \<Rightarrow> bool) \<Rightarrow> response \<Rightarrow> response step" where
  "response_handler ieq r =
     (case r_state r of
        EXPECT_VERSION_STATIC_STR \<Rightarrow> response_version_static_str_case r
      | EXPECT_VERSION \<Rightarrow> response_version_case r
      | EXPECT_SP_AFTER_VERSION \<Rightarrow> response_sp_after_version_case r
      | EXPECT_STATUS_CODE \<Rightarrow> Ret (response_status_code_case r)
      | EXPECT_SP_AFTER_STATUS_CODE \<Rightarrow> Ret (response_sp_after_status_code r)
      | EXPECT_REASON_PHRASE \<Rightarrow> response_reason_phrase_case r
      | EXPECT_CRLF_AFTER_REASON_PHRASE \<Rightarrow> response_crlf_after_reason_case r
      | EXPECT_FIELD_NAME \<Rightarrow> response_field_name ieq r
      | EXPECT_COLON \<Rightarrow> response_colon_case r
      | EXPECT_OWS_AFTER_COLON \<Rightarrow> response_ows_after_colon_case r
      | EXPECT_FIELD_VALUE \<Rightarrow> response_field_value_case ieq r
      | EXPECT_CRLF_AFTER_FIELD_VALUE \<Rightarrow> response_crlf_after_value_case r
      | EXPECT_CRLF_AFTER_HEADERS \<Rightarrow> response_crlf_after_headers r
      | EXPECT_BODY \<Rightarrow> response_body_case r
      | EXPECT_UNSAFE_BODY \<Rightarrow> response_unsafe_body_case r
      | EXPECT_CHUNK_SIZE \<Rightarrow> response_chunk_size_case r
      | EXPECT_CHUNK_EXT \<Rightarrow> response_chunk_ext_case r
      | EXPECT_CRLF_AFTER_CHUNK_EXT \<Rightarrow> response_crlf_after_chunk_ext_case r
      | EXPECT_CHUNK_DATA \<Rightarrow> response_chunk_data_case r
      | EXPECT_CRLF_AFTER_CHUNK_DATA \<Rightarrow> response_crlf_after_chunk_data_case r
      | EXPECT_TRAILER_NAME \<Rightarrow> response_trailer_name_case r
      | EXPECT_TRAILER_COLON \<Rightarrow> response_trailer_colon_case r
      | EXPECT_OWS_AFTER_TRAILER_COLON \<Rightarrow> response_ows_after_trailer_colon_case r
      | EXPECT_TRAILER_VALUE \<Rightarrow> response_trailer_value_case r
      | EXPECT_CRLF_AFTER_TRAILER_VALUE \<Rightarrow> response_crlf_after_trailer_value_case r
      | EXPECT_CRLF_AFTER_TRAILERS \<Rightarrow> response_crlf_after_trailers_case r
      | EXPECT_END_OF_BODY \<Rightarrow> Undefined
      | EXPECT_END_OF_MESSAGE \<Rightarrow> Undefined
      | EXPECT_END_OF_CONNECTION_ERROR \<Rightarrow> Undefined
      | ERRORED \<Rightarrow> Undefined)"

text \<open>The states a case can hand over to with \<open>return next()\<close> come after it in this order.\<close>

definition response_handover :: "response_state \<Rightarrow> nat" where
  "response_handover s =
     (if s \<in> {EXPECT_FIELD_NAME, EXPECT_OWS_AFTER_COLON, EXPECT_CHUNK_EXT, EXPECT_TRAILER_NAME,
              EXPECT_OWS_AFTER_TRAILER_COLON} then 1 else 0)"

lemma response_handler_handover:
  "response_handler ieq r = Ret_next r' \<Longrightarrow> response_handover (r_state r') < response_handover (r_state r)"
  by (auto simp: response_handler_def response_handover_def response_field_name_def ows_after_colon_def
      chunk_ext_def trailer_name_def field_value_def response_crlf_after_headers_def
      response_end_of_headers_def response_transfer_encoding_def response_content_length_def Let_def
      split: response_state.splits if_splits option.splits liberal_crlf_result.splits response_body_type.splits)

text \<open>The buffer is read to its end: the end of the connection ends a body that it delimits.\<close>

definition response_at_end :: "response \<Rightarrow> response" where
  "response_at_end r =
     (if \<not> rs_eof r then r
      else if r_state r \<noteq> EXPECT_UNSAFE_BODY then refuse ERRORED Error_use_another_connection r
      else accept EXPECT_END_OF_MESSAGE End_of_body 0 r)"

text \<open>The result is \<open>None\<close> when the call is undefined.\<close>

function response_next :: "(bytes \<Rightarrow> bytes \<Rightarrow> bool) \<Rightarrow> response \<Rightarrow> response option" where
  "response_next ieq r =
     (if r_state r = ERRORED then Some r
      else if r_state r = EXPECT_END_OF_BODY then
        Some (r\<lparr>r_state := EXPECT_END_OF_MESSAGE, r_code := End_of_body, r_idx := r_idx r + r_tok r, r_tok := 0\<rparr>)
      else if r_state r = EXPECT_END_OF_MESSAGE then
        Some (r\<lparr>r_state := (if r_body r = FORCE_NO_BODY_AND_STOP then EXPECT_END_OF_CONNECTION_ERROR
                             else EXPECT_VERSION_STATIC_STR),
                r_body := UNKNOWN_BODY, r_code := End_of_message, r_idx := r_idx r + r_tok r, r_tok := 0\<rparr>)
      else if r_state r = EXPECT_END_OF_CONNECTION_ERROR then
        Some (refuse ERRORED Error_use_another_connection r)
      else if r_idx (advance r) = length (r_buf r) then Some (response_at_end (advance r))
      else case response_handler ieq (advance r) of
          Ret r' \<Rightarrow> Some r'
        | Ret_next r' \<Rightarrow> response_next ieq r'
        | Undefined \<Rightarrow> None)"
  by pat_completeness auto
termination
  by (relation "measure (\<lambda>(ieq, r). response_handover (r_state r))")
     (auto dest: response_handler_handover simp: advance_def split: if_splits)

declare response_next.simps [simp del]

section \<open>The invariant of the reader\<close>

text \<open>
  What holds of a reader between two calls: the cursor is inside the buffer; a token is only
  half read in the states that keep a partial token; the \<open>READING_*\<close> body types exist between a
  field name and its value only; the body type is unknown exactly until \<open>set_method\<close> was called for
  the message; a body or a chunk that is being read has bytes left.
\<close>

abbreviation response_early :: "response_state set" where
  "response_early \<equiv> {ERRORED, EXPECT_END_OF_BODY, EXPECT_END_OF_MESSAGE, EXPECT_END_OF_CONNECTION_ERROR}"

definition response_ok :: "response \<Rightarrow> bool" where
  "response_ok r \<longleftrightarrow> cursor_ok r
    \<and> (if r_state r = ERRORED then \<not> is_token (r_code r) \<and> r_code r \<noteq> Error_insufficient_data
       else is_token (r_code r) \<or> r_code r = Error_insufficient_data)
    \<and> (r_code r = Error_insufficient_data \<longrightarrow> r_tok r = 0 \<or>
        r_state r \<in> {EXPECT_VERSION_STATIC_STR, EXPECT_CHUNK_EXT})
    \<and> (r_body r \<in> {READING_CONTENT_LENGTH, READING_ENCODING} \<longrightarrow>
        r_state r \<in> {ERRORED, EXPECT_COLON, EXPECT_OWS_AFTER_COLON, EXPECT_FIELD_VALUE})
    \<and> (r_state r \<in> {EXPECT_VERSION_STATIC_STR, EXPECT_VERSION, EXPECT_SP_AFTER_VERSION, EXPECT_STATUS_CODE,
          EXPECT_END_OF_CONNECTION_ERROR} \<longrightarrow> r_body r = UNKNOWN_BODY)
    \<and> (r_body r = UNKNOWN_BODY \<longrightarrow>
        r_state r \<in> {ERRORED, EXPECT_VERSION_STATIC_STR, EXPECT_VERSION, EXPECT_SP_AFTER_VERSION, EXPECT_STATUS_CODE,
          EXPECT_SP_AFTER_STATUS_CODE, EXPECT_END_OF_CONNECTION_ERROR})
    \<and> (r_code r = Status_code \<longrightarrow> r_state r = EXPECT_SP_AFTER_STATUS_CODE)
    \<and> (r_state r = EXPECT_UNSAFE_BODY \<longrightarrow> r_body r = FORCE_NO_BODY_AND_STOP)
    \<and> (r_state r = EXPECT_END_OF_CONNECTION_ERROR \<longrightarrow> r_code r \<noteq> Error_insufficient_data)
    \<and> (r_state r \<in> {EXPECT_BODY, EXPECT_CHUNK_DATA} \<longrightarrow> r_body_size r \<noteq> 0)"

text \<open>The reader is about to decode an empty field value with no byte in front that stops the loop.\<close>

definition response_reads_in_front :: "response \<Rightarrow> bool" where
  "response_reads_in_front r \<longleftrightarrow>
     (let r = advance r
      in (r_state r = EXPECT_FIELD_VALUE \<or> r_state r = EXPECT_OWS_AFTER_COLON \<and> ows_match (rest_view r) = 0)
         \<and> r_idx r < length (r_buf r)
         \<and> left_trimmed_field_value_match (rest_view r) = 0
         \<and> list_all is_ows (take (r_idx r) (r_buf r)))"

text \<open>A reader in front of a case of \<open>next()\<close>.\<close>

definition response_ready :: "response \<Rightarrow> bool" where
  "response_ready r \<longleftrightarrow> response_ok r \<and> r_code r = Error_insufficient_data \<and> r_idx r < length (r_buf r)
     \<and> r_state r \<notin> response_early"

definition response_rank :: "response_state \<Rightarrow> nat" where
  "response_rank s =
     (case s of EXPECT_UNSAFE_BODY \<Rightarrow> 2 | EXPECT_END_OF_BODY \<Rightarrow> 2 | EXPECT_END_OF_MESSAGE \<Rightarrow> 1 | EXPECT_REASON_PHRASE \<Rightarrow> 1
      | EXPECT_OWS_AFTER_COLON \<Rightarrow> 1 | EXPECT_FIELD_VALUE \<Rightarrow> 1
      | EXPECT_OWS_AFTER_TRAILER_COLON \<Rightarrow> 1 | EXPECT_TRAILER_VALUE \<Rightarrow> 1 | _ \<Rightarrow> 0)"

text \<open>What a case of \<open>next()\<close> promises.\<close>

definition response_case_ok :: "response \<Rightarrow> response step \<Rightarrow> bool" where
  "response_case_ok r st =
     (case st of
        Ret r' \<Rightarrow> response_ok r' \<and> r_buf r' = r_buf r \<and> r_idx r' = r_idx r
          \<and> (is_token (r_code r') \<longrightarrow> response_rank (r_state r') < 3 * r_tok r' + response_rank (r_state r))
      | Ret_next r' \<Rightarrow> response_ready r' \<and> r_buf r' = r_buf r \<and> r_idx r' = r_idx r \<and> r_body r' = r_body r
          \<and> response_rank (r_state r') \<le> response_rank (r_state r)
          \<and> r_state r' \<in> {EXPECT_CRLF_AFTER_HEADERS, EXPECT_CRLF_AFTER_CHUNK_EXT, EXPECT_FIELD_VALUE,
               EXPECT_TRAILER_VALUE, EXPECT_CRLF_AFTER_TRAILERS}
          \<and> (r_state r' = EXPECT_FIELD_VALUE \<longrightarrow> r_state r = EXPECT_OWS_AFTER_COLON \<and> ows_match (rest_view r) = 0)
      | Undefined \<Rightarrow> response_reads_in_front r)"

lemma response_readyD:
  "response_ready r \<Longrightarrow> cursor_ok r \<and> r_code r = Error_insufficient_data \<and> r_idx r < length (r_buf r) \<and> advance r = r"
  by (simp add: response_ready_def response_ok_def advance_def)

lemmas response_invariant_defs =
  response_case_ok_def response_ready_def response_ok_def cursor_ok_def response_rank_def

lemma response_field_nameE:
  obtains (empty) "response_field_name ieq r = Ret_next (r\<lparr>r_state := EXPECT_CRLF_AFTER_HEADERS\<rparr>)"
  | (more) "response_field_name ieq r = Ret r"
  | (coding) n where "response_field_name ieq r = response_transfer_encoding (accept EXPECT_COLON Field_name n r)"
      "0 < n" "n < length (rest_view r)" "r_body r \<notin> {FORCE_NO_BODY, FORCE_NO_BODY_AND_STOP}"
  | (content_length) n where "response_field_name ieq r = response_content_length (accept EXPECT_COLON Field_name n r)"
      "0 < n" "n < length (rest_view r)" "r_body r \<notin> {FORCE_NO_BODY, FORCE_NO_BODY_AND_STOP}"
  | (other) n where "response_field_name ieq r = Ret (accept EXPECT_COLON Field_name n r)"
      "0 < n" "n < length (rest_view r)"
proof -
  let ?n = "field_name_match (rest_view r)"
  have le: "?n \<le> length (rest_view r)"
    by (simp add: field_name_match_def del: length_rest_view)
  consider "?n = 0" | "?n \<noteq> 0" "?n = length (rest_view r)" | "?n \<noteq> 0" "?n < length (rest_view r)"
    using le by linarith
  then show thesis
  proof cases
    case 1
    then show ?thesis using empty by (simp add: response_field_name_def)
  next
    case 2
    then have "response_field_name ieq r = Ret r"
      unfolding response_field_name_def Let_def by (simp del: length_rest_view)
    then show ?thesis by (rule more)
  next
    case 3
    have "token_view (accept EXPECT_COLON Field_name ?n r) = take ?n (rest_view r)"
      by (simp add: token_view_def rest_view_def)
    with 3 have "response_field_name ieq r =
       (if r_body r = FORCE_NO_BODY \<or> r_body r = FORCE_NO_BODY_AND_STOP then Ret (accept EXPECT_COLON Field_name ?n r)
        else if ieq (take ?n (rest_view r)) (asc ''Transfer-Encoding'')
          then response_transfer_encoding (accept EXPECT_COLON Field_name ?n r)
        else if ieq (take ?n (rest_view r)) (asc ''Content-Length'')
          then response_content_length (accept EXPECT_COLON Field_name ?n r)
        else Ret (accept EXPECT_COLON Field_name ?n r))"
      unfolding response_field_name_def Let_def by (simp del: length_rest_view)
    with 3 show ?thesis
      using coding [of ?n] content_length [of ?n] other [of ?n] by (auto split: if_splits)
  qed
qed

lemma response_named_ok:
  assumes "response_ready r" and "r_state r = EXPECT_FIELD_NAME" and "0 < n" and "n < length (rest_view r)"
  shows "r_body r \<notin> {FORCE_NO_BODY, FORCE_NO_BODY_AND_STOP} \<Longrightarrow>
      response_case_ok r (response_transfer_encoding (accept EXPECT_COLON Field_name n r))"
    and "r_body r \<notin> {FORCE_NO_BODY, FORCE_NO_BODY_AND_STOP} \<Longrightarrow>
      response_case_ok r (response_content_length (accept EXPECT_COLON Field_name n r))"
    and "response_case_ok r (Ret (accept EXPECT_COLON Field_name n r))"
  using assms
  by (auto simp: response_invariant_defs response_transfer_encoding_def
      response_content_length_def split: response_body_type.splits)

lemma response_handler_ok:
  assumes "response_ready r"
  shows "response_case_ok r (response_handler ieq r)"
proof -
  have c: "cursor_ok r" and i: "r_idx r < length (r_buf r)" and code: "r_code r = Error_insufficient_data"
    using response_readyD [OF assms] by auto
  note rdy = assms [unfolded response_ready_def response_ok_def cursor_ok_def]
  note inv = response_handler_def response_invariant_defs
  show ?thesis
  proof (cases "r_state r")
    case EXPECT_VERSION_STATIC_STR
    with rdy show ?thesis
      by (cases rule: match_stringE [OF c, of version_static_str ERRORED EXPECT_VERSION]) (auto simp: inv version_static_str_def)
  next
    case EXPECT_VERSION
    with rdy show ?thesis
      by (cases rule: singleE [of isdigit ERRORED EXPECT_SP_AFTER_VERSION Version r]) (simp_all add: inv)
  next
    case EXPECT_SP_AFTER_VERSION
    with rdy show ?thesis
      by (cases rule: singleE [of is_sp ERRORED EXPECT_STATUS_CODE Skip r]) (simp_all add: inv)
  next
    case EXPECT_STATUS_CODE
    with rdy show ?thesis
      by (auto simp: inv response_status_code_case_def status_code_match_def Let_def)
  next
    case EXPECT_SP_AFTER_STATUS_CODE
    with rdy show ?thesis
      by (cases rule: singleE [of is_sp ERRORED EXPECT_REASON_PHRASE Skip r]) (auto simp: inv response_sp_after_status_code_def)
  next
    case EXPECT_REASON_PHRASE
    with rdy show ?thesis
      by (cases rule: match_tokenE [OF reason_phrase_match_le, of EXPECT_CRLF_AFTER_REASON_PHRASE Reason_phrase r])
        (auto simp: inv)
  next
    case EXPECT_CRLF_AFTER_REASON_PHRASE
    with rdy show ?thesis
      by (cases rule: liberal_lineE [of ERRORED EXPECT_FIELD_NAME r]) (auto simp: inv)
  next
    case EXPECT_UNSAFE_BODY
    with rdy show ?thesis
      by (simp add: inv)
  next
    case EXPECT_COLON
    with rdy show ?thesis
      by (cases rule: colonE [OF i, of ERRORED EXPECT_OWS_AFTER_COLON EXPECT_FIELD_VALUE]) (auto simp: inv)
  next
    case EXPECT_CRLF_AFTER_FIELD_VALUE
    with rdy show ?thesis
      by (cases rule: liberal_lineE [of ERRORED EXPECT_FIELD_NAME r]) (simp_all add: inv)
  next
    case EXPECT_BODY
    with rdy body_data_simps [of r EXPECT_END_OF_BODY] show ?thesis
      by (simp add: inv split: if_splits)
  next
    case EXPECT_CHUNK_DATA
    with rdy body_data_simps [of r EXPECT_CRLF_AFTER_CHUNK_DATA] show ?thesis
      by (simp add: inv split: if_splits)
  next
    case EXPECT_CHUNK_SIZE
    with rdy show ?thesis
      by (cases rule: chunk_sizeE [of ERRORED EXPECT_CHUNK_EXT r]) (auto simp: inv)
  next
    case EXPECT_CHUNK_EXT
    with rdy show ?thesis
      by (cases rule: chunk_extE [OF c, of ERRORED EXPECT_CRLF_AFTER_CHUNK_EXT]) (auto simp: inv)
  next
    case EXPECT_CRLF_AFTER_CHUNK_EXT
    with rdy show ?thesis
      by (cases rule: strict_lineE [of ERRORED "if r_body_size r \<noteq> 0 then EXPECT_CHUNK_DATA else EXPECT_TRAILER_NAME"
             "if r_body_size r \<noteq> 0 then Skip else End_of_body" r])
        (auto simp: inv crlf_after_chunk_ext_def split: if_splits)
  next
    case EXPECT_CRLF_AFTER_CHUNK_DATA
    with rdy show ?thesis
      by (cases rule: strict_lineE [of ERRORED EXPECT_CHUNK_SIZE Skip r]) (simp_all add: inv)
  next
    case EXPECT_TRAILER_NAME
    with rdy show ?thesis
      by (cases rule: trailer_nameE [of EXPECT_CRLF_AFTER_TRAILERS EXPECT_TRAILER_COLON r]) (auto simp: inv)
  next
    case EXPECT_TRAILER_COLON
    with rdy show ?thesis
      by (cases rule: colonE [OF i, of ERRORED EXPECT_OWS_AFTER_TRAILER_COLON EXPECT_TRAILER_VALUE]) (auto simp: inv)
  next
    case EXPECT_OWS_AFTER_COLON
    with rdy show ?thesis
      by (cases rule: ows_after_colonE [of EXPECT_FIELD_VALUE r]) (auto simp: inv)
  next
    case EXPECT_OWS_AFTER_TRAILER_COLON
    with rdy show ?thesis
      by (cases rule: ows_after_colonE [of EXPECT_TRAILER_VALUE r]) (auto simp: inv)
  next
    case EXPECT_TRAILER_VALUE
    with rdy show ?thesis
      by (cases rule: match_tokenE [OF field_value_match_le, of EXPECT_CRLF_AFTER_TRAILER_VALUE Field_value r])
        (auto simp: inv)
  next
    case EXPECT_CRLF_AFTER_TRAILER_VALUE
    with rdy show ?thesis
      by (cases rule: strict_lineE [of ERRORED EXPECT_TRAILER_NAME Skip r]) (simp_all add: inv)
  next
    case EXPECT_CRLF_AFTER_TRAILERS
    with rdy code show ?thesis
      by (cases rule: strict_lineE [of ERRORED EXPECT_VERSION_STATIC_STR End_of_message r])
        (simp_all add: inv end_of_trailers_def Let_def)
  next
    case EXPECT_FIELD_VALUE
    with rdy show ?thesis
      by (cases rule: field_valueE [of ieq ERRORED EXPECT_CRLF_AFTER_FIELD_VALUE response_body_types r])
        (auto simp: inv response_body_types_def response_reads_in_front_def advance_def)
  next
    case EXPECT_CRLF_AFTER_HEADERS
    with rdy show ?thesis
      by (auto simp: inv response_crlf_after_headers_def response_end_of_headers_def dest!: liberal_crlf_room
          split: liberal_crlf_result.splits response_body_type.splits if_splits)
  next
    case EXPECT_FIELD_NAME
    then have h: "response_handler ieq r = response_field_name ieq r"
      by (simp add: response_handler_def)
    note named = response_named_ok [OF assms EXPECT_FIELD_NAME]
    show ?thesis
    proof (cases rule: response_field_nameE [of ieq r])
      case empty
      with rdy EXPECT_FIELD_NAME show ?thesis by (simp add: inv)
    next
      case more
      with rdy EXPECT_FIELD_NAME show ?thesis by (simp add: inv)
    qed (simp_all add: h named)
  qed (use rdy in simp_all)
qed

section \<open>One call of \<open>next()\<close>\<close>

lemma response_advance_idx: "response_ok r \<Longrightarrow> r_state r \<noteq> ERRORED \<Longrightarrow> r_idx (advance r) = consumed r"
  by (auto simp: response_ok_def advance_def consumed_def)

lemma response_advance_ready:
  assumes "response_ok r" and "r_state r \<notin> response_early"
    and "r_idx (advance r) \<noteq> length (r_buf r)"
  shows "response_ready (advance r)"
proof (cases "r_code r = Error_insufficient_data")
  case True
  then have "advance r = r"
    by (simp add: advance_def)
  with assms True show ?thesis
    by (auto simp: response_ready_def response_ok_def cursor_ok_def)
next
  case False
  then have "advance r = r\<lparr>r_idx := r_idx r + r_tok r, r_tok := 0, r_code := Error_insufficient_data\<rparr>"
    by (simp add: advance_def)
  with assms show ?thesis
    by (auto simp: response_ready_def response_ok_def cursor_ok_def)
qed

text \<open>A call that hands over to the next case does what that case does.\<close>

lemma response_next_ready:
  assumes "response_ready r"
  shows "response_next ieq r =
    (case response_handler ieq r of Ret r' \<Rightarrow> Some r' | Ret_next r' \<Rightarrow> response_next ieq r' | Undefined \<Rightarrow> None)"
  using assms response_readyD [OF assms] by (subst response_next.simps) (auto simp: response_ready_def)

text \<open>The result of a call, in one case distinction.\<close>

lemma response_next_result:
  assumes "response_ready r"
  shows "case response_next ieq r of
      None \<Rightarrow> response_reads_in_front r
    | Some r' \<Rightarrow> response_ok r' \<and> r_buf r' = r_buf r \<and> r_idx r' = r_idx r
        \<and> (is_token (r_code r') \<longrightarrow> response_rank (r_state r') < 3 * r_tok r' + response_rank (r_state r))"
proof (cases "response_handler ieq r")
  case (Ret r')
  with response_handler_ok [OF assms, of ieq] show ?thesis
    by (simp add: response_next_ready [OF assms] response_case_ok_def)
next
  case Undefined
  with response_handler_ok [OF assms, of ieq] show ?thesis
    by (simp add: response_next_ready [OF assms] response_case_ok_def)
next
  case (Ret_next r1)
  have 1: "response_ready r1" "r_buf r1 = r_buf r" "r_idx r1 = r_idx r"
    and st: "r_state r1 \<in> {EXPECT_CRLF_AFTER_HEADERS, EXPECT_CRLF_AFTER_CHUNK_EXT, EXPECT_FIELD_VALUE,
               EXPECT_TRAILER_VALUE, EXPECT_CRLF_AFTER_TRAILERS}"
    and fv: "r_state r1 = EXPECT_FIELD_VALUE \<longrightarrow> r_state r = EXPECT_OWS_AFTER_COLON \<and> ows_match (rest_view r) = 0"
    using response_handler_ok [OF assms, of ieq] Ret_next by (simp_all add: response_case_ok_def)
  have eq: "response_next ieq r = response_next ieq r1"
    using Ret_next by (simp add: response_next_ready [OF assms])
  have adv: "advance r = r" "advance r1 = r1"
    using response_readyD [OF assms] response_readyD [OF 1(1)] by simp_all
  have rank: "response_rank (r_state r1) \<le> response_rank (r_state r)"
    using response_handler_ok [OF assms, of ieq] Ret_next by (simp add: response_case_ok_def)
  show ?thesis
  proof (cases "response_handler ieq r1")
    case (Ret r')
    with response_handler_ok [OF 1(1), of ieq] 1 rank show ?thesis
      by (auto simp: eq response_next_ready [OF 1(1)] response_case_ok_def)
  next
    case Undefined
    with response_handler_ok [OF 1(1), of ieq] 1 adv fv st show ?thesis
      by (auto simp: eq response_next_ready [OF 1(1)] response_case_ok_def response_reads_in_front_def Let_def rest_view_def)
  next
    case (Ret_next r2)
    then show ?thesis
      using response_handler_handover [OF Ret_next] st by (auto simp: response_handover_def)
  qed
qed

lemma response_next_early:
  "r_state r = ERRORED \<Longrightarrow> response_next ieq r = Some r"
  "r_state r = EXPECT_END_OF_BODY \<Longrightarrow> response_next ieq r =
     Some (r\<lparr>r_state := EXPECT_END_OF_MESSAGE, r_code := End_of_body, r_idx := r_idx r + r_tok r, r_tok := 0\<rparr>)"
  "r_state r = EXPECT_END_OF_MESSAGE \<Longrightarrow> response_next ieq r =
     Some (r\<lparr>r_state := (if r_body r = FORCE_NO_BODY_AND_STOP then EXPECT_END_OF_CONNECTION_ERROR
                          else EXPECT_VERSION_STATIC_STR),
             r_body := UNKNOWN_BODY, r_code := End_of_message, r_idx := r_idx r + r_tok r, r_tok := 0\<rparr>)"
  "r_state r = EXPECT_END_OF_CONNECTION_ERROR \<Longrightarrow> response_next ieq r =
     Some (refuse ERRORED Error_use_another_connection r)"
  by (simp_all add: response_next.simps [of ieq r])

lemma response_next_later:
  assumes "r_state r \<notin> response_early"
  shows "response_next ieq r = (if r_idx (advance r) = length (r_buf r) then Some (response_at_end (advance r))
    else response_next ieq (advance r))"
proof -
  have "advance (advance r) = advance r"
    by (simp add: advance_def)
  with assms show ?thesis
    by (simp add: response_next.simps [of ieq r] response_next.simps [of ieq "advance r"])
qed

lemma response_reads_in_front_advance: "response_reads_in_front (advance r) \<longleftrightarrow> response_reads_in_front r"
  by (simp add: response_reads_in_front_def advance_def Let_def)

lemma response_next_some:
  assumes "response_ok r" and "response_next ieq r = Some r'"
  shows "response_ok r' \<and> r_buf r' = r_buf r
    \<and> (is_token (r_code r') \<longrightarrow> r_idx r' = consumed r \<and> response_rank (r_state r') < 3 * r_tok r' + response_rank (r_state r))"
proof -
  consider (errored) "r_state r = ERRORED" | (body) "r_state r = EXPECT_END_OF_BODY"
    | (message) "r_state r = EXPECT_END_OF_MESSAGE" | (stop) "r_state r = EXPECT_END_OF_CONNECTION_ERROR"
    | (drained) "r_state r \<notin> response_early" "r_idx (advance r) = length (r_buf r)"
    | (ready) "r_state r \<notin> response_early" "response_ready (advance r)"
    using response_advance_ready [OF assms(1)] by blast
  then show ?thesis
  proof cases
    case ready
    then have "response_next ieq (advance r) = Some r'"
      using assms(2) response_readyD [OF ready(2)] by (simp add: response_next_later [OF ready(1)])
    with response_next_result [OF ready(2), of ieq] ready(1) response_advance_idx [OF assms(1)] show ?thesis
      by auto
  next
    case drained
    then have r': "r' = response_at_end (advance r)"
      using assms(2) by (simp add: response_next_later [OF drained(1)])
    have ok: "response_ok (advance r)"
      using assms(1) drained by (auto simp: response_ok_def advance_def cursor_ok_def split: if_splits)
    have "r_idx (advance r) = consumed r"
      using response_advance_idx [OF assms(1)] drained(1) by simp
    with ok drained r' show ?thesis
      by (auto simp: response_at_end_def response_ok_def cursor_ok_def response_rank_def)
  next
    case stop
    then have "r' = refuse ERRORED Error_use_another_connection r"
      using assms(2) by (simp add: response_next_early)
    with assms(1) stop show ?thesis
      by (simp add: response_ok_def cursor_ok_def)
  next
    case errored
    with assms have "r' = r" "\<not> is_token (r_code r)"
      by (simp_all add: response_next_early response_ok_def)
    with assms(1) show ?thesis
      by simp
  next
    case body
    then have "r' = r\<lparr>r_state := EXPECT_END_OF_MESSAGE, r_code := End_of_body, r_idx := r_idx r + r_tok r, r_tok := 0\<rparr>"
      using assms(2) by (simp add: response_next_early)
    moreover have "consumed r = r_idx r + r_tok r"
      using assms(1) body by (auto simp: response_ok_def consumed_def)
    ultimately show ?thesis
      using assms(1) body by (simp add: response_ok_def cursor_ok_def response_rank_def)
  next
    case message
    then have "r' = r\<lparr>r_state := (if r_body r = FORCE_NO_BODY_AND_STOP then EXPECT_END_OF_CONNECTION_ERROR
          else EXPECT_VERSION_STATIC_STR),
        r_body := UNKNOWN_BODY, r_code := End_of_message, r_idx := r_idx r + r_tok r, r_tok := 0\<rparr>"
      using assms(2) by (simp add: response_next_early)
    moreover have "consumed r = r_idx r + r_tok r"
      using assms(1) message by (auto simp: response_ok_def consumed_def)
    ultimately show ?thesis
      using assms(1) message by (simp add: response_ok_def cursor_ok_def response_rank_def)
  qed
qed

text \<open>The response reader is a token reader.\<close>

lemma response_token_reader: "token_reader (response_next ieq) response_ok response_rank"
proof
  fix r r' :: response
  assume *: "response_ok r" "response_next ieq r = Some r'"
  show "response_ok r'" "r_buf r' = r_buf r"
    using response_next_some [OF *] by blast+
  assume t: "is_token (r_code r')"
  show "r_idx r' = consumed r"
    using response_next_some [OF *] t by blast
  have "cursor_ok r'"
    using response_next_some [OF *] by (simp add: response_ok_def)
  moreover have "consumed r' = consumed r + r_tok r'" "r_buf r' = r_buf r"
    "response_rank (r_state r') < 3 * r_tok r' + response_rank (r_state r)"
    using response_next_some [OF *] t by (simp_all add: consumed_def)
  ultimately show "token_measure response_rank r' < token_measure response_rank r"
    using t by (simp add: token_measure_def cursor_ok_def consumed_def [of r'])
qed (simp add: response_ok_def)

interpretation responses: token_reader "response_next ieq" response_ok response_rank for ieq
  by (rule response_token_reader)

text \<open>An empty value at the beginning of the buffer: the read in front of it.\<close>

lemma response_undefined_in_front:
  assumes front: "response_reads_in_front r"
  shows "response_next ieq r = None"
proof -
  let ?a = "advance r"
  from front have st: "r_state ?a = EXPECT_FIELD_VALUE \<or> r_state ?a = EXPECT_OWS_AFTER_COLON \<and> ows_match (rest_view ?a) = 0"
    and i: "r_idx ?a < length (r_buf ?a)" and m: "left_trimmed_field_value_match (rest_view ?a) = 0"
    and o: "list_all is_ows (take (r_idx ?a) (r_buf ?a))"
    by (simp_all add: response_reads_in_front_def Let_def)
  have u: "field_value ieq ERRORED EXPECT_CRLF_AFTER_FIELD_VALUE response_body_types (?a\<lparr>r_state := s\<rparr>) = Undefined" for s
    using i m o by (simp add: field_value_def rest_view_def field_value_of_def token_view_def decode_field_value_def)
  have n: "response_next ieq (?a\<lparr>r_state := EXPECT_FIELD_VALUE\<rparr>) = None"
    using i u [of EXPECT_FIELD_VALUE] by (subst response_next.simps) (simp add: advance_def response_handler_def)
  have "response_next ieq r = response_next ieq ?a"
    using st i by (subst response_next_later) auto
  also have "\<dots> = None"
  proof (cases "r_state ?a = EXPECT_FIELD_VALUE")
    case True
    then have "?a\<lparr>r_state := EXPECT_FIELD_VALUE\<rparr> = ?a"
      by (metis reader.surjective reader.update_convs(1) reader.select_convs(1))
    with n show ?thesis by simp
  next
    case False
    with st i n show ?thesis
      by (subst response_next.simps) (simp add: advance_def response_handler_def ows_after_colon_def)
  qed
  finally show ?thesis .
qed

text \<open>
  C36: a call of \<open>response::next\<close> on a reader in a valid state is free of undefined behaviour, leaves a
  valid state and keeps the buffer, except in one situation: an empty field value with only blanks
  (or nothing) of the buffer in front of it, where \<open>decode_field_value\<close> reads in front of the buffer.
\<close>

theorem response_next_safe:
  assumes "response_ok r"
  shows "(response_next ieq r = None \<longleftrightarrow> response_reads_in_front r)
    \<and> (\<not> response_reads_in_front r \<longrightarrow> (\<exists>r'. response_next ieq r = Some r' \<and> response_ok r' \<and> r_buf r' = r_buf r))"
proof -
  have "response_reads_in_front r" if none: "response_next ieq r = None"
  proof -
    have st: "r_state r \<notin> response_early"
      using none response_next_early [of r ieq] by auto
    then have "r_idx (advance r) \<noteq> length (r_buf r)" "response_next ieq (advance r) = None"
      using none response_next_later [OF st, of ieq] by (simp_all split: if_splits)
    with response_next_result [OF response_advance_ready [OF assms st], of ieq] show ?thesis
      by (simp add: response_reads_in_front_advance)
  qed
  moreover have "response_next ieq r = None" if "response_reads_in_front r"
    by (rule response_undefined_in_front [OF that])
  moreover have "\<exists>r'. response_next ieq r = Some r' \<and> response_ok r' \<and> r_buf r' = r_buf r"
    if "response_next ieq r \<noteq> None"
    using that response_next_some [OF assms, of ieq] by auto
  ultimately show ?thesis
    by blast
qed


end
