(* ===== verification/ResponseProperties.thy ===== *)
theory ResponseProperties
  imports ResponseReader
begin

text \<open>
  What a user of the response reader can rely on: reading ends and tiles the input, the method of the
  request has to be set before the reader goes past the status code, the responses without a body
  have none whatever their headers say, and a body that the connection delimits is delivered to the
  end of the connection, after which the connection is not used again.
\<close>

section \<open>The case behind a call\<close>

lemma response_handler_frame:
  assumes "response_handler ieq r = Ret_next r'"
  shows "rs_eof r' = rs_eof r \<and> r_body r' = r_body r \<and> r_body_size r' = r_body_size r \<and> r_tok r' \<le> r_tok r"
  using assms
  by (auto simp: response_handler_def response_field_name_def ows_after_colon_def
      chunk_ext_def trailer_name_def field_value_def response_crlf_after_headers_def
      response_end_of_headers_def response_transfer_encoding_def response_content_length_def Let_def
      split: response_state.splits if_splits option.splits liberal_crlf_result.splits response_body_type.splits)

text \<open>
  A call of \<open>next\<close> is one of the early returns, or one case (perhaps after a hand-over) run on a
  reader \<open>a\<close> that has left the previous token.
\<close>

lemma response_next_case:
  assumes "response_ok r" and "response_next ieq r = Some r'"
  shows "r_state r \<in> response_early \<or> r' = response_at_end (advance r)
    \<or> (\<exists>a. response_handler ieq a = Ret r' \<and> response_ready a \<and> r_buf a = r_buf r \<and> r_idx a = consumed r
         \<and> r_body a = r_body r \<and> r_body_size a = r_body_size r \<and> rs_eof a = rs_eof r
         \<and> (a = advance r \<or> response_handler ieq (advance r) = Ret_next a))"
proof (cases "r_state r \<in> response_early \<or> r_idx (advance r) = length (r_buf r)")
  case True
  with assms(2) show ?thesis
    using response_next_later [of r ieq] by (cases "r_state r \<in> response_early") simp_all
next
  case False
  then have rdy: "response_ready (advance r)"
    using response_advance_ready [OF assms(1)] by blast
  have idx: "r_idx (advance r) = consumed r"
    using False response_advance_idx [OF assms(1)] by blast
  have nxt: "response_next ieq (advance r) = Some r'"
    using assms(2) False response_next_later [of r ieq] by simp
  have frame: "rs_eof (advance r) = rs_eof r"
    by (simp add: advance_def)
  show ?thesis
  proof (cases "response_handler ieq (advance r)")
    case (Ret r1)
    with nxt have "r1 = r'"
      by (simp add: response_next_ready [OF rdy])
    with Ret rdy idx frame show ?thesis
      by (intro disjI2 exI [of _ "advance r"]) simp
  next
    case (Ret_next a)
    with response_handler_ok [OF rdy, of ieq] have a: "response_ready a" "r_buf a = r_buf r" "r_idx a = consumed r"
      by (simp_all add: response_case_ok_def idx)
    have "response_next ieq a = Some r'"
      using nxt Ret_next by (simp add: response_next_ready [OF rdy])
    then have "response_handler ieq a = Ret r' \<or> (\<exists>b. response_handler ieq a = Ret_next b)"
      by (auto simp: response_next_ready [OF a(1)] split: step.splits)
    moreover have "response_handover (r_state a) = 0"
      using response_handler_handover [OF Ret_next] by (simp add: response_handover_def split: if_splits)
    ultimately have "response_handler ieq a = Ret r'"
      using response_handler_handover [of ieq a] by (metis less_zeroE)
    with a Ret_next response_handler_frame [OF Ret_next] frame show ?thesis
      by (intro disjI2 exI [of _ a]) simp
  next
    case Undefined
    with nxt show ?thesis
      by (simp add: response_next_ready [OF rdy])
  qed
qed

section \<open>Reading ends, and the tokens are the input\<close>

text \<open>
  Calling \<open>response::next\<close> on a buffer of \<open>n\<close> bytes delivers at most \<open>3 n + 2\<close> tokens, and the
  tokens put together are exactly the bytes of the buffer that were read.
\<close>

theorem response_tokens_tile:
  assumes "response_ok r" and "3 * length (r_buf r) + 3 \<le> n" and "read_tokens (response_next ieq) n r = (rs, ended)"
  shows "ended \<and> concat (map token_view rs) = take (sum_list (map r_tok rs)) (drop (consumed r) (r_buf r))
    \<and> consumed r + sum_list (map r_tok rs) \<le> length (r_buf r)"
proof -
  have "response_rank (r_state r) \<le> 2"
    by (simp add: response_rank_def split: response_state.split)
  then have "token_measure response_rank r < n"
    using assms(2) unfolding token_measure_def by linarith
  from responses.read_tokens_ends [OF assms(1) this, of ieq] responses.tokens_tile [OF assms(1,3)] assms(3)
  show ?thesis by simp
qed

lemma new_response_ok: "response_ok (set_buffer buf (new_response k))"
  by (simp add: response_ok_def new_response_def set_buffer_def cursor_ok_def)

lemma response_tokens_tile_witness:
  "\<exists>rs. read_tokens (response_next ascii_iequals) 60 (set_buffer (asc ''HTTP/1.1 200 '') (new_response 0)) = (rs, True)
     \<and> concat (map token_view rs) = take (sum_list (map r_tok rs)) (asc ''HTTP/1.1 200 '')"
proof -
  let ?r = "set_buffer (asc ''HTTP/1.1 200 '') (new_response 0)"
  obtain rs ended where *: "read_tokens (response_next ascii_iequals) 60 ?r = (rs, ended)"
    by fastforce
  have "consumed ?r = 0" "r_buf ?r = asc ''HTTP/1.1 200 ''"
    by (simp_all add: consumed_def set_buffer_def new_response_def)
  moreover have "3 * length (r_buf ?r) + 3 \<le> 60"
    by (simp add: set_buffer_def asc_def)
  ultimately show ?thesis
    using response_tokens_tile [OF new_response_ok _ *] * by (intro exI [of _ rs]) simp
qed

lemma response_next_safe_witness:
  "response_next ascii_iequals (set_buffer (asc ''HTTP'') (new_response 0)) \<noteq> None"
proof -
  have "\<not> response_reads_in_front (set_buffer (asc ''HTTP'') (new_response 0))"
    by (simp add: response_reads_in_front_def advance_def set_buffer_def new_response_def)
  with response_next_safe [OF new_response_ok, of ascii_iequals] show ?thesis
    by blast
qed

section \<open>The method of the request\<close>

lemma set_method_ok:
  assumes "response_ok r" and "set_method m r = Some r1"
  shows "response_ok r1" and "r_code r1 = Status_code" and "r_state r1 = EXPECT_SP_AFTER_STATUS_CODE"
    and "r_body r1 \<in> {FORCE_NO_BODY, FORCE_NO_BODY_AND_STOP, CONNECTION_DELIMITED}"
    and "r_buf r1 = r_buf r" and "consumed r1 = consumed r"
proof -
  have code: "r_code r = Status_code"
    using assms(2) by (simp add: set_method_def split: if_splits)
  have st: "r_state r = EXPECT_SP_AFTER_STATUS_CODE"
    using assms(1) code unfolding response_ok_def by blast
  from assms(2) code have "r1 = r\<lparr>r_body := FORCE_NO_BODY, r_body_size := 0\<rparr>
      \<or> r1 = r\<lparr>r_body := FORCE_NO_BODY_AND_STOP, r_body_size := 0\<rparr> \<or> r1 = r\<lparr>r_body := CONNECTION_DELIMITED\<rparr>"
    by (auto simp: set_method_def Let_def split: if_splits)
  then show "response_ok r1" "r_code r1 = Status_code" "r_state r1 = EXPECT_SP_AFTER_STATUS_CODE"
    "r_body r1 \<in> {FORCE_NO_BODY, FORCE_NO_BODY_AND_STOP, CONNECTION_DELIMITED}" "r_buf r1 = r_buf r" "consumed r1 = consumed r"
    using assms(1) code st by (auto simp: response_ok_def cursor_ok_def consumed_def)
qed

text \<open>The states of a message whose end of headers was not delivered yet, and the end of an empty body.\<close>

definition no_body_states :: "response_state set" where
  "no_body_states =
     {EXPECT_SP_AFTER_STATUS_CODE, EXPECT_REASON_PHRASE, EXPECT_CRLF_AFTER_REASON_PHRASE, EXPECT_FIELD_NAME, EXPECT_COLON,
      EXPECT_OWS_AFTER_COLON, EXPECT_FIELD_VALUE, EXPECT_CRLF_AFTER_FIELD_VALUE, EXPECT_CRLF_AFTER_HEADERS,
      EXPECT_END_OF_BODY, EXPECT_END_OF_MESSAGE}"

definition no_body :: "response \<Rightarrow> bool" where
  "no_body r \<longleftrightarrow> r_body r \<in> {FORCE_NO_BODY, FORCE_NO_BODY_AND_STOP} \<and> r_state r \<in> no_body_states"

lemma no_body_handler:
  assumes "response_ready a" and "no_body a" and "response_handler ieq a = Ret r'" and "is_token (r_code r')"
  shows "no_body r' \<and> r_code r' \<notin> {Body_chunk, End_of_message}"
proof -
  have c: "cursor_ok a" and i: "r_idx a < length (r_buf a)" and code: "r_code a = Error_insufficient_data"
    using response_readyD [OF assms(1)] by auto
  note h = assms(3) [unfolded response_handler_def] assms(2,4) code
  note inv = no_body_def no_body_states_def
  show ?thesis
  proof (cases "r_state a")
    case EXPECT_SP_AFTER_STATUS_CODE
    with h show ?thesis
      by (cases rule: singleE [of is_sp ERRORED EXPECT_REASON_PHRASE Skip a]) (auto simp: inv response_sp_after_status_code_def)
  next
    case EXPECT_REASON_PHRASE
    with h show ?thesis
      by (cases rule: match_tokenE [OF reason_phrase_match_le, of EXPECT_CRLF_AFTER_REASON_PHRASE Reason_phrase a]) (auto simp: inv)
  next
    case EXPECT_CRLF_AFTER_REASON_PHRASE
    with h show ?thesis
      by (cases rule: liberal_lineE [of ERRORED EXPECT_FIELD_NAME a]) (auto simp: inv)
  next
    case EXPECT_FIELD_NAME
    with h show ?thesis
      by (cases rule: response_field_nameE [of ieq a]) (auto simp: inv)
  next
    case EXPECT_COLON
    with h show ?thesis
      by (auto simp: inv colon_def Let_def split: if_splits)
  next
    case EXPECT_OWS_AFTER_COLON
    with h show ?thesis
      by (cases rule: ows_after_colonE [of EXPECT_FIELD_VALUE a]) (auto simp: inv)
  next
    case EXPECT_FIELD_VALUE
    with h show ?thesis
      by (cases rule: field_valueE [of ieq ERRORED EXPECT_CRLF_AFTER_FIELD_VALUE response_body_types a])
        (auto simp: inv response_body_types_def)
  next
    case EXPECT_CRLF_AFTER_FIELD_VALUE
    with h show ?thesis
      by (cases rule: liberal_lineE [of ERRORED EXPECT_FIELD_NAME a]) (auto simp: inv)
  next
    case EXPECT_CRLF_AFTER_HEADERS
    with h show ?thesis
      by (auto simp: inv response_crlf_after_headers_def response_end_of_headers_def
          split: liberal_crlf_result.splits response_body_type.splits if_splits)
  qed (use h in \<open>auto simp: inv\<close>)
qed

lemma no_body_handover:
  assumes "no_body r" and "response_handler ieq r = Ret_next a"
  shows "no_body a"
proof -
  have "r_body a = r_body r"
    using response_handler_frame [OF assms(2)] by simp
  moreover have "r_state a \<in> {EXPECT_CRLF_AFTER_HEADERS, EXPECT_FIELD_VALUE}"
    using assms
    by (auto simp: no_body_def no_body_states_def response_handler_def response_field_name_def ows_after_colon_def
        field_value_def response_crlf_after_headers_def response_end_of_headers_def response_transfer_encoding_def
        response_content_length_def Let_def
        split: if_splits option.splits liberal_crlf_result.splits response_body_type.splits)
  ultimately show ?thesis
    using assms(1) by (auto simp: no_body_def no_body_states_def)
qed

lemma no_body_next:
  assumes "response_ok r" and "no_body r" and "response_next ieq r = Some r'" and "is_token (r_code r')"
    and "r_code r' \<noteq> End_of_message"
  shows "no_body r' \<and> r_code r' \<noteq> Body_chunk"
proof -
  consider (body) "r_state r = EXPECT_END_OF_BODY" | (message) "r_state r = EXPECT_END_OF_MESSAGE"
    | (wait) "r' = response_at_end (advance r)"
    | (step) a where "response_handler ieq a = Ret r'" "response_ready a"
      "a = advance r \<or> response_handler ieq (advance r) = Ret_next a"
    using response_next_case [OF assms(1,3)] assms(2) by (auto simp: no_body_def no_body_states_def)
  then show ?thesis
  proof cases
    case body
    with assms(2,3) show ?thesis
      by (auto simp: response_next_early no_body_def no_body_states_def)
  next
    case message
    with assms(3,5) show ?thesis
      by (auto simp: response_next_early)
  next
    case wait
    with assms(2,4) show ?thesis
      by (auto simp: response_at_end_def no_body_def no_body_states_def split: if_splits)
  next
    case (step a)
    have "no_body (advance r)"
      using assms(2) by (simp add: no_body_def)
    then have "no_body a"
      using step(3) no_body_handover by blast
    with no_body_handler [OF step(2) this step(1) assms(4)] show ?thesis
      by simp
  qed
qed

lemma no_body_tokens:
  assumes "response_ok r" and "no_body r" and "read_tokens (response_next ieq) n r = (rs, ended)"
  shows "\<forall>r' \<in> set (takeWhile (\<lambda>r'. r_code r' \<noteq> End_of_message) rs). r_code r' \<noteq> Body_chunk"
  using assms
proof (induction n arbitrary: r rs)
  case (Suc n)
  show ?case
  proof (cases "\<exists>r'. response_next ieq r = Some r' \<and> is_token (r_code r')")
    case True
    then obtain r' rs' where r': "response_next ieq r = Some r'" "is_token (r_code r')"
      and rs: "rs = r' # rs'" "read_tokens (response_next ieq) n r' = (rs', ended)"
      using Suc.prems(3) by (auto split: prod.splits)
    have "response_ok r'"
      using response_next_some [OF Suc.prems(1) r'(1)] by simp
    then show ?thesis
      using no_body_next [OF Suc.prems(1,2) r'] Suc.IH [of r' rs'] rs by auto
  next
    case False
    then have "rs = []"
      using Suc.prems(3) by (auto split: option.splits if_splits)
    then show ?thesis by simp
  qed
qed simp

text \<open>
  The response to \<open>HEAD\<close>, a response with a status of 1xx, 204 or 304 and a successful response to
  \<open>CONNECT\<close> have no body, whatever their Content-Length and Transfer-Encoding fields say: once
  \<open>set_method\<close> was called at the status code, no body byte is delivered up to the end of the message.
\<close>

theorem responses_without_body:
  assumes "response_ok r" and "set_method m r = Some r1" and "c = response_status_code r"
    and "c div 100 = 1 \<or> c = 204 \<or> c = 304 \<or> m = asc ''HEAD'' \<or> c div 100 = 2 \<and> m = asc ''CONNECT''"
    and "read_tokens (response_next ieq) n r1 = (rs, ended)"
  shows "\<forall>r' \<in> set (takeWhile (\<lambda>r'. r_code r' \<noteq> End_of_message) rs). r_code r' \<noteq> Body_chunk"
proof -
  have "r_body r1 \<in> {FORCE_NO_BODY, FORCE_NO_BODY_AND_STOP}"
    using assms(2-4) by (auto simp: set_method_def Let_def split: if_splits)
  then have "no_body r1"
    using set_method_ok [OF assms(1,2)] by (simp add: no_body_def no_body_states_def)
  with set_method_ok [OF assms(1,2)] assms(5) show ?thesis
    by (intro no_body_tokens)
qed

text \<open>
  A user who reads on without telling the method of the request gets an error: a token after the
  status code is delivered only when \<open>set_method\<close> was called.
\<close>

theorem method_required:
  assumes "response_ok r" and "r_code r = Status_code" and "r_body r = UNKNOWN_BODY"
    and "consumed r < length (r_buf r)"
  shows "\<exists>r'. response_next ieq r = Some r' \<and> r_state r' = ERRORED \<and> r_code r' = Error_set_method"
proof -
  have st: "r_state r = EXPECT_SP_AFTER_STATUS_CODE"
    using assms(1,2) unfolding response_ok_def by blast
  have "r_idx (advance r) < length (r_buf r)"
    using assms(4) response_advance_idx [OF assms(1)] st by simp
  then have "response_next ieq r = Some (refuse ERRORED Error_set_method (advance r))"
    using st assms(3) by (subst response_next.simps) (simp add: response_handler_def response_sp_after_status_code_def)
  then show ?thesis
    by simp
qed

section \<open>Bodies that the connection delimits\<close>

lemma unsafe_body_end:
  assumes "response_ok r" and "r_state r = EXPECT_UNSAFE_BODY" and "rs_eof r" and "consumed r = length (r_buf r)" and "3 \<le> n"
  shows "map (\<lambda>r'. (r_code r', token_view r')) (fst (read_tokens (response_next ieq) n r)) =
    [(End_of_body, []), (End_of_message, [])]"
proof -
  obtain m where n: "n = Suc (Suc (Suc m))"
    using assms(5) by (metis One_nat_def Suc_le_D numeral_3_eq_3 not0_implies_Suc not_less_eq_eq)
  let ?a = "advance r"
  define r1 where "r1 = accept EXPECT_END_OF_MESSAGE End_of_body 0 ?a"
  have body: "r_body r = FORCE_NO_BODY_AND_STOP"
    using assms(1,2) by (simp add: response_ok_def)
  have eof: "rs_eof ?a"
    using assms(3) by (simp add: advance_def)
  have 1: "response_next ieq r = Some r1"
    using assms(2,4) eof response_advance_idx [OF assms(1)]
    by (subst response_next.simps) (simp add: response_at_end_def r1_def)
  define r2 where "r2 = r1\<lparr>r_state := EXPECT_END_OF_CONNECTION_ERROR, r_body := UNKNOWN_BODY, r_code := End_of_message,
      r_idx := r_idx r1 + r_tok r1, r_tok := 0\<rparr>"
  have 2: "response_next ieq r1 = Some r2"
    by (simp add: response_next_early r1_def r2_def body)
  have 3: "response_next ieq r2 = Some (refuse ERRORED Error_use_another_connection r2)"
    by (simp add: response_next_early r2_def)
  have c: "r_code r1 = End_of_body" "r_code r2 = End_of_message" "r_tok r1 = 0" "r_tok r2 = 0"
    by (simp_all add: r1_def r2_def)
  show ?thesis
    by (simp add: n 1 2 3 c token_view_def)
qed

text \<open>
  A body without a length is the rest of the connection: after \<open>puteof\<close> the reader delivers every
  byte that is left as the body, then the end of the body and of the message, and nothing more.
\<close>

theorem connection_delimited_body:
  assumes "response_ok r" and "r_state r = EXPECT_UNSAFE_BODY" and "rs_eof r" and "4 \<le> n"
  shows "map (\<lambda>r'. (r_code r', token_view r')) (fst (read_tokens (response_next ieq) n r)) =
    (if consumed r < length (r_buf r) then [(Body_chunk, drop (consumed r) (r_buf r))] else [])
      @ [(End_of_body, []), (End_of_message, [])]"
proof (cases "consumed r < length (r_buf r)")
  case False
  have "consumed r \<le> length (r_buf r)"
    using assms(1) by (auto simp: response_ok_def cursor_ok_def consumed_def)
  with False show ?thesis
    using unsafe_body_end [OF assms(1-3), of n ieq] assms(4) by simp
next
  case True
  obtain m where n: "n = Suc m" "3 \<le> m"
    using assms(4) by (cases n) auto
  define r1 where "r1 = (advance r)\<lparr>r_code := Body_chunk, r_tok := length (rest_view (advance r))\<rparr>"
  have idx: "r_idx (advance r) = consumed r"
    using response_advance_idx [OF assms(1)] assms(2) by simp
  have r1: "response_next ieq r = Some r1"
    using True idx assms(2) by (subst response_next.simps) (simp add: response_handler_def r1_def)
  have ok: "response_ok r1"
    using response_next_some [OF assms(1) r1] by simp
  have f: "r_state r1 = EXPECT_UNSAFE_BODY" "rs_eof r1" "consumed r1 = length (r_buf r1)" "r_code r1 = Body_chunk"
    "token_view r1 = drop (consumed r) (r_buf r)"
    using assms(2,3) True idx by (simp_all add: r1_def consumed_def token_view_def) (simp add: advance_def)
  from unsafe_body_end [OF ok f(1-3) n(2), of ieq] show ?thesis
    using True by (simp add: n(1) r1 f split_def Let_def)
qed

section \<open>Instances\<close>

text \<open>A response to \<open>HEAD\<close> that announces a body.\<close>

definition head_response :: response where
  "head_response =
     \<lparr>r_state = EXPECT_SP_AFTER_STATUS_CODE, r_body = UNKNOWN_BODY, r_body_size = 0, r_code = Status_code, r_idx = 9,
      r_tok = 3, r_buf = asc ''HTTP/1.1 200 OK'' @ [13, 10] @ asc ''Content-Length: 2'' @ [13, 10, 13, 10] @ asc ''ab'',
      rs_eof = False\<rparr>"

lemma head_response_facts:
  "response_ok head_response" "r_code head_response = Status_code" "r_body head_response = UNKNOWN_BODY"
  "consumed head_response < length (r_buf head_response)"
  by (simp_all add: response_ok_def cursor_ok_def head_response_def asc_def consumed_def)

lemma responses_without_body_witness:
  "\<exists>r1. set_method (asc ''HEAD'') head_response = Some r1
     \<and> (\<forall>r' \<in> set (takeWhile (\<lambda>r'. r_code r' \<noteq> End_of_message) (fst (read_tokens (response_next ascii_iequals) 40 r1))).
          r_code r' \<noteq> Body_chunk)"
proof -
  obtain r1 where r1: "set_method (asc ''HEAD'') head_response = Some r1"
    using head_response_facts(2) by (simp add: set_method_def Let_def)
  obtain rs ended where rs: "read_tokens (response_next ascii_iequals) 40 r1 = (rs, ended)"
    by fastforce
  from responses_without_body [OF head_response_facts(1) r1 refl _ rs] r1 rs show ?thesis
    by simp
qed

lemma method_required_witness:
  "\<exists>r'. response_next ascii_iequals head_response = Some r' \<and> r_code r' = Error_set_method"
  using method_required [OF head_response_facts, of ascii_iequals] by auto

lemma connection_delimited_body_witness:
  "map r_code (fst (read_tokens (response_next ascii_iequals) 4
      \<lparr>r_state = EXPECT_UNSAFE_BODY, r_body = FORCE_NO_BODY_AND_STOP, r_body_size = 0, r_code = End_of_headers, r_idx = 0,
       r_tok = 2, r_buf = [13, 10, 97], rs_eof = True\<rparr>)) = [Body_chunk, End_of_body, End_of_message]"
proof -
  let ?r = "\<lparr>r_state = EXPECT_UNSAFE_BODY, r_body = FORCE_NO_BODY_AND_STOP, r_body_size = 0, r_code = End_of_headers, r_idx = 0,
       r_tok = 2, r_buf = [13, 10, 97], rs_eof = True\<rparr> :: response"
  have "response_ok ?r" "consumed ?r < length (r_buf ?r)"
    by (simp_all add: response_ok_def cursor_ok_def consumed_def)
  then have "map (\<lambda>r'. (r_code r', token_view r')) (fst (read_tokens (response_next ascii_iequals) 4 ?r)) =
      [(Body_chunk, drop (consumed ?r) (r_buf ?r)), (End_of_body, []), (End_of_message, [])]"
    using connection_delimited_body [of ?r 4 ascii_iequals] by simp
  then have "map fst (map (\<lambda>r'. (r_code r', token_view r')) (fst (read_tokens (response_next ascii_iequals) 4 ?r))) =
      [Body_chunk, End_of_body, End_of_message]"
    by simp
  then show ?thesis
    by (simp add: o_def)
qed

end
