(* ===== verification/ChunkRoundtrip.thy ===== *)
theory ChunkRoundtrip
  imports MessageWriter ResponseProperties
begin

text \<open>
  The two halves of the library against each other: the chunked body that \<open>socket::async_write\<close> and
  \<open>socket::async_write_end_of_message\<close> put on the channel (\<open>MessageWriter\<close>) is read back by
  \<open>reader::response\<close> (\<open>ResponseReader\<close>). The numbers the writer prints are those the decoders of
  \<open>Syntax\<close> read.
\<close>

section \<open>Printed numbers\<close>

lemma digit_char_hex: "d < 16 \<Longrightarrow> hex_digit (digit_char d) = Some (of_nat d)"
proof -
  assume d: "d < 16"
  have "list_all (\<lambda>d. hex_digit (digit_char d) = Some (of_nat d)) [0..<16]"
    by code_simp
  with d show ?thesis
    by (auto simp: list_all_iff)
qed

lemma digit_char_dec: "d < 10 \<Longrightarrow> dec_digit (digit_char d) = Some (of_nat d)"
proof -
  assume "d < 10"
  then have "d \<in> set [0..<10]"
    by simp
  then show ?thesis
    by (auto simp: upt_rec digit_char_def dec_digit_def isdigit_def)
qed

lemma print_base_not_Nil [simp]: "print_base b n \<noteq> []"
  by (subst print_base.simps) simp

lemma print_base_value:
  assumes "2 \<le> b" and "b \<le> 16" and "\<And>d. d < b \<Longrightarrow> val (digit_char d) = Some (of_nat d)"
  shows "numeral_value val b (print_base b n) = Some n"
  using assms
proof (induction b n rule: print_base.induct)
  case (1 b n)
  have u: "unat (of_nat d :: u64) = d" if "d < b" for d
    using that 1(3) by (simp add: unat_of_nat)
  show ?case
  proof (cases "n < b")
    case True
    then show ?thesis
      using 1 u by (subst print_base.simps) (simp add: numeral_value_def)
  next
    case False
    then have "numeral_value val b (print_base b (n div b)) = Some (n div b)"
      using 1 by simp
    then show ?thesis
      using 1 False u [of "n mod b"] by (subst print_base.simps) (simp add: numeral_value_def)
  qed
qed

lemma to_hex_digits: "\<forall>c \<in> set (to_hex n). is_hexdigit c"
proof -
  have "numeral_value hex_digit 16 (to_hex n) = Some n"
    unfolding to_hex_def by (rule print_base_value) (simp_all add: digit_char_hex)
  then have "digits_value hex_digit 16 (rev (to_hex n)) \<noteq> None"
    by (simp add: numeral_value_def)
  then show ?thesis
    unfolding digits_value_defined using hex_digit_match by auto
qed

lemma to_hex_decode:
  assumes "n < 2 ^ 64"
  shows "chunk_size_decode (to_hex n) out = (Ok, of_nat n)"
proof -
  have "unat (of_nat n :: u64) = n"
    using assms by (simp add: unat_of_nat)
  moreover have "numeral_value hex_digit 16 (to_hex n) = Some n"
    unfolding to_hex_def by (rule print_base_value) (simp_all add: digit_char_hex)
  ultimately show ?thesis
    unfolding chunk_size_decode_def
    by (subst decode_number_Ok [where val = hex_digit]) (simp_all add: hex_digit_zero to_hex_def)
qed

lemma to_hex_match: "chunk_size_match (to_hex n @ 0x0D # rest) = length (to_hex n)"
proof -
  have "match_while is_hexdigit (to_hex n @ 0x0D # rest) = length (to_hex n) + match_while is_hexdigit (0x0D # rest)"
    using to_hex_digits by (intro match_while_append_all) (simp add: match_while_eq_length)
  then show ?thesis
    by (simp add: chunk_size_match_def is_hexdigit_def asc_def)
qed

text \<open>
  What the socket prints the decoders read: the decimal length in a \<open>content-length\<close> field and the
  hexadecimal size of a chunk decode to the number that was printed, for every size of 64 bits.
\<close>

theorem printed_sizes_decode:
  assumes "n < 2 ^ 64"
  shows "content_length_decode (to_string n) out = (Ok, of_nat n)
    \<and> chunk_size_decode (to_hex n) out = (Ok, of_nat n)"
proof -
  have "unat (of_nat n :: u64) = n"
    using assms by (simp add: unat_of_nat)
  moreover have "numeral_value dec_digit 10 (to_string n) = Some n"
    unfolding to_string_def by (rule print_base_value) (simp_all add: digit_char_dec)
  ultimately have "content_length_decode (to_string n) out = (Ok, of_nat n)"
    unfolding content_length_decode_def
    by (subst decode_number_Ok [where val = dec_digit]) (simp_all add: dec_digit_zero to_string_def)
  then show ?thesis
    using to_hex_decode [OF assms] by simp
qed

lemma printed_sizes_decode_witness: "chunk_size_decode (to_hex 255) 0 = (Ok, 255)"
  using printed_sizes_decode [of 255 0] by simp

section \<open>One call of the reader on the bytes of a chunk\<close>

text \<open>A reader between two tokens of a chunked body, and what is left of its buffer.\<close>

definition between :: "response \<Rightarrow> response_state \<Rightarrow> bytes \<Rightarrow> bool" where
  "between r st rest \<longleftrightarrow> response_ok r \<and> is_token (r_code r) \<and> r_state r = st \<and> drop (consumed r) (r_buf r) = rest"

definition delivers :: "response \<Rightarrow> response \<Rightarrow> token_code \<Rightarrow> bytes \<Rightarrow> bool" where
  "delivers r r' c v \<longleftrightarrow> (\<forall>ieq. response_next ieq r = Some r') \<and> r_code r' = c \<and> token_view r' = v"

lemma between_advance:
  assumes "between r st rest" and "st \<notin> response_early" and "rest \<noteq> []"
  shows "rest_view (advance r) = rest" "r_idx (advance r) < length (r_buf r)" "r_tok (advance r) = 0"
    "r_idx (advance r) = consumed r"
proof -
  have "response_ok r" and st: "r_state r \<noteq> ERRORED" and tok: "is_token (r_code r)"
    using assms(1,2) by (auto simp: between_def)
  then show i: "r_idx (advance r) = consumed r"
    using response_advance_idx by blast
  with assms(1,3) show "rest_view (advance r) = rest" "r_idx (advance r) < length (r_buf r)"
    by (auto simp: between_def rest_view_def)
  show "r_tok (advance r) = 0"
    using tok by (auto simp: advance_def is_token_def)
qed

text \<open>A case that accepts \<open>v\<close> leaves the rest.\<close>

lemma delivers_step:
  assumes "between r st (v @ rest)" and "\<And>ieq. response_next ieq r = Some r'"
    and "r_code r' = c" and "is_token c" and "r_tok r' = length v"
  shows "delivers r r' c v \<and> between r' (r_state r') rest"
proof -
  have ok: "response_ok r" and d: "drop (consumed r) (r_buf r) = v @ rest"
    using assms(1) by (simp_all add: between_def)
  have n: "response_ok r'" "r_buf r' = r_buf r" "r_idx r' = consumed r"
    using response_next_some [OF ok assms(2)] assms(3,4) by auto
  then have "token_view r' = v"
    using d assms(5) by (simp add: token_view_def)
  moreover have "drop (consumed r') (r_buf r') = rest"
  proof -
    have "consumed r' = length v + consumed r"
      using n(3) assms(3-5) by (simp add: consumed_def)
    then show ?thesis
      using d n(2) by (simp flip: drop_drop)
  qed
  ultimately show ?thesis
    using assms n by (simp add: delivers_def between_def)
qed

lemma chunk_size_step:
  assumes "between r EXPECT_CHUNK_SIZE (to_hex n @ crlf @ rest)" and "n < 2 ^ 64"
  shows "\<exists>r'. delivers r r' Skip (to_hex n) \<and> between r' EXPECT_CHUNK_EXT (crlf @ rest) \<and> r_body_size r' = of_nat n
    \<and> r_body r' = r_body r"
proof -
  note a = between_advance [OF assms(1)]
  define r' where "r' = accept EXPECT_CHUNK_EXT Skip (length (to_hex n)) ((advance r)\<lparr>r_body_size := of_nat n\<rparr>)"
  have v: "rest_view (advance r) = to_hex n @ 0x0D # 0x0A # rest"
    using a(1) by simp
  have "chunk_size ERRORED EXPECT_CHUNK_EXT (advance r) = r'"
    unfolding chunk_size_def Let_def v to_hex_match
    using to_hex_decode [OF assms(2)] by (simp add: r'_def to_hex_def)
  then have "response_next ieq r = Some r'" for ieq
    using assms(1) a(2) by (subst response_next.simps) (simp add: between_def response_handler_def)
  then show ?thesis
    using delivers_step [OF assms(1), of r' Skip] by (intro exI [of _ r']) (simp add: r'_def)
qed

lemma chunk_crlf_step:
  assumes "between r EXPECT_CHUNK_EXT (crlf @ rest)"
  shows "\<exists>r'. delivers r r' (if r_body_size r \<noteq> 0 then Skip else End_of_body) crlf
    \<and> between r' (if r_body_size r \<noteq> 0 then EXPECT_CHUNK_DATA else EXPECT_TRAILER_NAME) rest
    \<and> r_body_size r' = r_body_size r \<and> r_body r' = r_body r"
proof -
  note a = between_advance [OF assms]
  let ?s = "if r_body_size r \<noteq> 0 then EXPECT_CHUNK_DATA else EXPECT_TRAILER_NAME"
  let ?c = "if r_body_size r \<noteq> 0 then Skip else End_of_body"
  define r1 where "r1 = (advance r)\<lparr>r_state := EXPECT_CRLF_AFTER_CHUNK_EXT, r_tok := 0\<rparr>"
  define r' where "r' = accept ?s ?c 2 r1"
  have v: "rest_view (advance r) = 0x0D # 0x0A # rest"
    using a(1) by simp
  then have d: "drop (r_idx (advance r)) (r_buf r) = 0x0D # 0x0A # rest"
    by (simp add: rest_view_def)
  have nth: "r_buf r ! r_idx (advance r) = 0x0D"
    using d nth_via_drop by fast
  have h: "chunk_ext ERRORED EXPECT_CRLF_AFTER_CHUNK_EXT (advance r) = Ret_next r1"
    using a d nth by (simp add: chunk_ext_def Let_def r1_def is_chunk_ext_char_def is_tchar_def isalnum_def isalpha_def
        isdigit_def is_obs_text_def is_vchar_def asc_def)
  have r1: "r_state r1 = EXPECT_CRLF_AFTER_CHUNK_EXT" "advance r1 = r1" "r_idx r1 < length (r_buf r1)"
    "rest_view r1 = 0x0D # 0x0A # rest" "r_body_size r1 = r_body_size r"
  proof -
    have "r_code r1 = Error_insufficient_data"
      by (simp add: r1_def)
    then show "advance r1 = r1"
      by (simp add: advance_def)
  qed (use a(2) v in \<open>simp_all add: r1_def rest_view_def\<close>)
  have "length (rest_view r1) \<ge> 2"
    by (simp add: r1(4) del: length_rest_view)
  then have "crlf_after_chunk_ext ERRORED EXPECT_CHUNK_DATA EXPECT_TRAILER_NAME r1 = r'"
    using r1(4,5) strict_crlf_match_iff(1) [of "rest_view r1"]
    by (simp add: crlf_after_chunk_ext_def strict_line_def Let_def r'_def del: length_rest_view)
  then have "response_next ieq r1 = Some r'" for ieq
    using r1 by (subst response_next.simps) (simp add: response_handler_def)
  then have "response_next ieq r = Some r'" for ieq
    using assms a(2) h by (subst response_next.simps) (simp add: between_def response_handler_def)
  then show ?thesis
    using delivers_step [OF assms, of r' ?c] by (intro exI [of _ r']) (simp add: r'_def r1_def)
qed

lemma chunk_data_step:
  assumes "between r EXPECT_CHUNK_DATA (body @ rest)" and "r_body_size r = of_nat (length body)"
    and "length body < 2 ^ 64" and "body \<noteq> []"
  shows "\<exists>r'. delivers r r' Body_chunk body \<and> between r' EXPECT_CRLF_AFTER_CHUNK_DATA rest \<and> r_body r' = r_body r"
proof -
  note a = between_advance [OF assms(1)]
  have u: "unat (of_nat (length body) :: u64) = length body"
    using assms(3) by (simp add: unat_of_nat)
  define r' where "r' = body_data EXPECT_CRLF_AFTER_CHUNK_DATA (advance r)"
  have "length (rest_view (advance r)) = length body + length rest"
    using a(1) assms(4) by (simp del: length_rest_view)
  then have r': "r' = (advance r)\<lparr>r_code := Body_chunk, r_tok := length body, r_body_size := 0,
      r_state := EXPECT_CRLF_AFTER_CHUNK_DATA\<rparr>"
    using assms(2) u by (simp add: r'_def body_data_def Let_def del: length_rest_view)
  have "response_next ieq r = Some r'" for ieq
    using assms(1,4) a(2) by (subst response_next.simps) (simp add: between_def response_handler_def r'_def)
  then show ?thesis
    using delivers_step [OF assms(1), of r' Body_chunk] by (intro exI [of _ r']) (simp add: r')
qed

lemma strict_line_step:
  assumes "between r st (crlf @ rest)" and "st = EXPECT_CRLF_AFTER_CHUNK_DATA"
  shows "\<exists>r'. delivers r r' Skip crlf \<and> between r' EXPECT_CHUNK_SIZE rest \<and> r_body r' = r_body r"
proof -
  note a = between_advance [OF assms(1)]
  define r' where "r' = accept EXPECT_CHUNK_SIZE Skip 2 (advance r)"
  have v: "rest_view (advance r) = 0x0D # 0x0A # rest"
    using a(1) assms(2) by simp
  then have "strict_line ERRORED EXPECT_CHUNK_SIZE Skip (advance r) = r'"
    using strict_crlf_match_iff(1) [of "rest_view (advance r)"]
    by (simp add: strict_line_def Let_def r'_def del: length_rest_view)
  then have "response_next ieq r = Some r'" for ieq
    using assms a(2) by (subst response_next.simps) (simp add: between_def response_handler_def)
  then show ?thesis
    using delivers_step [OF assms(1), of r' Skip] by (intro exI [of _ r']) (simp add: r'_def)
qed


lemma end_of_trailers_step:
  assumes "between r EXPECT_TRAILER_NAME (crlf @ rest)"
  shows "\<exists>r'. delivers r r' End_of_message crlf \<and> between r' EXPECT_VERSION_STATIC_STR rest"
proof -
  note a = between_advance [OF assms]
  define r1 where "r1 = (advance r)\<lparr>r_state := EXPECT_CRLF_AFTER_TRAILERS\<rparr>"
  define r' where "r' = (accept EXPECT_VERSION_STATIC_STR End_of_message 2 r1)\<lparr>r_body := UNKNOWN_BODY\<rparr>"
  have v: "rest_view (advance r) = 0x0D # 0x0A # rest"
    using a(1) by simp
  have h: "trailer_name EXPECT_CRLF_AFTER_TRAILERS EXPECT_TRAILER_COLON (advance r) = Ret_next r1"
    by (simp add: trailer_name_def Let_def v r1_def field_name_match_def is_tchar_def isalnum_def isalpha_def
        isdigit_def asc_def)
  have r1: "r_state r1 = EXPECT_CRLF_AFTER_TRAILERS" "advance r1 = r1" "r_idx r1 < length (r_buf r1)"
    "rest_view r1 = 0x0D # 0x0A # rest"
  proof -
    have "r_code r1 = Error_insufficient_data"
      by (simp add: r1_def)
    then show "advance r1 = r1"
      by (simp add: advance_def)
  qed (use a(2) v in \<open>simp_all add: r1_def rest_view_def\<close>)
  have "strict_line ERRORED EXPECT_VERSION_STATIC_STR End_of_message r1 = accept EXPECT_VERSION_STATIC_STR End_of_message 2 r1"
    using r1(4) strict_crlf_match_iff(1) [of "rest_view r1"] by (simp add: strict_line_def Let_def del: length_rest_view)
  then have "end_of_trailers ERRORED EXPECT_VERSION_STATIC_STR UNKNOWN_BODY r1 = r'"
    by (simp add: end_of_trailers_def Let_def r'_def)
  then have "response_next ieq r1 = Some r'" for ieq
    using r1 by (subst response_next.simps) (simp add: response_handler_def)
  then have "response_next ieq r = Some r'" for ieq
    using assms a(2) h by (subst response_next.simps) (simp add: between_def response_handler_def)
  then show ?thesis
    using delivers_step [OF assms, of r' End_of_message] by (intro exI [of _ r']) (simp add: r'_def)
qed

section \<open>A chunked body\<close>

lemma delivers_read:
  assumes "delivers r r' c v" and "is_token c"
  shows "map (\<lambda>t. (r_code t, token_view t)) (fst (read_tokens (response_next ieq) (Suc n) r)) =
    (c, v) # map (\<lambda>t. (r_code t, token_view t)) (fst (read_tokens (response_next ieq) n r'))"
  using assms by (simp add: delivers_def split_def Let_def)

definition chunk_tokens :: "bytes \<Rightarrow> (token_code \<times> bytes) list" where
  "chunk_tokens b = [(Skip, to_hex (length b)), (Skip, crlf), (Body_chunk, b), (Skip, crlf)]"

lemma chunk_read:
  assumes "between r EXPECT_CHUNK_SIZE (chunk_bytes b @ rest)" and "b \<noteq> []" and "length b < 2 ^ 64"
  shows "\<exists>r'. between r' EXPECT_CHUNK_SIZE rest \<and>
    (\<forall>ieq n. map (\<lambda>t. (r_code t, token_view t)) (fst (read_tokens (response_next ieq) (4 + n) r)) =
       chunk_tokens b @ map (\<lambda>t. (r_code t, token_view t)) (fst (read_tokens (response_next ieq) n r')))"
proof -
  have nz: "(of_nat (length b) :: u64) \<noteq> 0"
  proof -
    have "unat (of_nat (length b) :: u64) = length b"
      using assms(3) by (simp add: unat_of_nat)
    then show ?thesis
      using assms(2) by (metis length_0_conv unat_0)
  qed
  obtain r1 where 1: "delivers r r1 Skip (to_hex (length b))" "between r1 EXPECT_CHUNK_EXT (crlf @ b @ crlf @ rest)"
    "r_body_size r1 = of_nat (length b)"
    using chunk_size_step [OF _ assms(3), of r "b @ crlf @ rest"] assms(1) by (auto simp: chunk_bytes_def)
  obtain r2 where 2: "delivers r1 r2 Skip crlf" "between r2 EXPECT_CHUNK_DATA (b @ crlf @ rest)"
    "r_body_size r2 = of_nat (length b)"
    using chunk_crlf_step [OF 1(2)] nz 1(3) by auto
  obtain r3 where 3: "delivers r2 r3 Body_chunk b" "between r3 EXPECT_CRLF_AFTER_CHUNK_DATA (crlf @ rest)"
    using chunk_data_step [OF 2(2,3) assms(3,2)] by blast
  obtain r4 where 4: "delivers r3 r4 Skip crlf" "between r4 EXPECT_CHUNK_SIZE rest"
    using strict_line_step [OF 3(2) refl] by blast
  have n: "4 + n = Suc (Suc (Suc (Suc n)))" for n
    by simp
  show ?thesis
    unfolding n chunk_tokens_def
    by (intro exI [of _ r4] conjI allI 4(2))
       (simp only: delivers_read [OF 1(1)] delivers_read [OF 2(1)] delivers_read [OF 3(1)] delivers_read [OF 4(1)]
          is_token_simps append.simps)
qed

lemma chunks_read_back:
  assumes "between r EXPECT_CHUNK_SIZE (concat (map chunk_bytes bodies) @ end_of_message_bytes @ rest)"
    and "\<And>b. b \<in> set bodies \<Longrightarrow> b \<noteq> [] \<and> length b < 2 ^ 64"
  shows "map (\<lambda>t. (r_code t, token_view t)) (fst (read_tokens (response_next ieq) (4 * length bodies + 3) r)) =
    concat (map chunk_tokens bodies) @ [(Skip, asc ''0''), (End_of_body, crlf), (End_of_message, crlf)]"
  using assms
proof (induction bodies arbitrary: r)
  case Nil
  have z: "to_hex 0 = asc ''0''"
    by (simp add: to_hex_def print_base.simps digit_char_def asc_def)
  obtain r1 where 1: "delivers r r1 Skip (asc ''0'')" "between r1 EXPECT_CHUNK_EXT (crlf @ crlf @ rest)" "r_body_size r1 = 0"
    using chunk_size_step [of r 0 "crlf @ rest"] Nil.prems(1) by (auto simp: end_of_message_bytes_def z)
  obtain r2 where 2: "delivers r1 r2 End_of_body crlf" "between r2 EXPECT_TRAILER_NAME (crlf @ rest)"
    using chunk_crlf_step [OF 1(2)] 1(3) by auto
  obtain r3 where 3: "delivers r2 r3 End_of_message crlf"
    using end_of_trailers_step [OF 2(2)] by blast
  have "map (\<lambda>t. (r_code t, token_view t)) (fst (read_tokens (response_next ieq) (Suc (Suc (Suc 0))) r)) =
      [(Skip, asc ''0''), (End_of_body, crlf), (End_of_message, crlf)]"
    by (subst delivers_read [OF 1(1)], simp, subst delivers_read [OF 2(1)], simp, subst delivers_read [OF 3], simp_all)
  then show ?case
    by (simp only: list.size list.map concat.simps append.simps mult_0_right add_0 numeral_3_eq_3)
next
  case (Cons b bodies)
  obtain r' where r': "between r' EXPECT_CHUNK_SIZE (concat (map chunk_bytes bodies) @ end_of_message_bytes @ rest)"
    and read: "map (\<lambda>t. (r_code t, token_view t)) (fst (read_tokens (response_next ieq) (4 + n) r)) =
       chunk_tokens b @ map (\<lambda>t. (r_code t, token_view t)) (fst (read_tokens (response_next ieq) n r'))" for n
    using chunk_read [of r b "concat (map chunk_bytes bodies) @ end_of_message_bytes @ rest"] Cons.prems by auto
  have n: "4 * length (b # bodies) + 3 = 4 + (4 * length bodies + 3)"
    by simp
  show ?case
    unfolding n read using Cons.IH [OF r'] Cons.prems(2) by simp
qed

text \<open>
  C18: what the writer sends as chunks the reader delivers as the same chunks: for any sequence of
  non-empty bodies written with \<open>async_write\<close> and closed with \<open>async_write_end_of_message\<close>, a response
  reader in front of them delivers exactly these bodies as its body chunks, then the end of the body
  and of the message, and stops in front of the byte that follows.
\<close>

theorem chunked_body_roundtrip:
  assumes "between r EXPECT_CHUNK_SIZE (concat (map chunk_bytes bodies) @ end_of_message_bytes @ rest)"
    and "\<And>b. b \<in> set bodies \<Longrightarrow> b \<noteq> [] \<and> length b < 2 ^ 64"
  shows "map (\<lambda>t. (r_code t, token_view t)) (fst (read_tokens (response_next ieq) (4 * length bodies + 3) r)) =
    concat (map chunk_tokens bodies) @ [(Skip, asc ''0''), (End_of_body, crlf), (End_of_message, crlf)]"
  using assms by (rule chunks_read_back)

lemma chunked_body_roundtrip_witness:
  "map (\<lambda>t. (r_code t, token_view t)) (fst (read_tokens (response_next ascii_iequals) 7
     \<lparr>r_state = EXPECT_CHUNK_SIZE, r_body = CHUNKED_ENCODING_READ, r_body_size = 0, r_code = End_of_headers, r_idx = 0, r_tok = 2,
      r_buf = crlf @ chunk_bytes (asc ''ab'') @ end_of_message_bytes, rs_eof = False\<rparr>)) =
   chunk_tokens (asc ''ab'') @ [(Skip, asc ''0''), (End_of_body, crlf), (End_of_message, crlf)]"
proof -
  let ?r = "\<lparr>r_state = EXPECT_CHUNK_SIZE, r_body = CHUNKED_ENCODING_READ, r_body_size = 0, r_code = End_of_headers, r_idx = 0, r_tok = 2,
      r_buf = crlf @ chunk_bytes (asc ''ab'') @ end_of_message_bytes, rs_eof = False\<rparr> :: response"
  have "between ?r EXPECT_CHUNK_SIZE (concat (map chunk_bytes [asc ''ab'']) @ end_of_message_bytes @ [])"
    by (simp add: between_def response_ok_def cursor_ok_def consumed_def)
  from chunked_body_roundtrip [OF this, of ascii_iequals] show ?thesis
    by (simp add: asc_def)
qed

end
