(* ===== verification/ResponseRoundtrip.thy ===== *)
theory ResponseRoundtrip
  imports ChunkRoundtrip
begin

text \<open>
  A whole response: what \<open>socket::async_write_response\<close> puts on the channel, the response reader cuts into the
  same status, reason, fields and body. The comparison \<open>iequals\<close> is the one of ASCII.
\<close>

section \<open>Sequences of tokens\<close>

fun reads :: "response \<Rightarrow> (token_code \<times> bytes) list \<Rightarrow> response \<Rightarrow> bool" where
  "reads r [] r' \<longleftrightarrow> r' = r"
| "reads r ((c, v) # ts) r' \<longleftrightarrow>
     (\<exists>r1. response_next ascii_iequals r = Some r1 \<and> r_code r1 = c \<and> is_token c \<and> token_view r1 = v \<and> reads r1 ts r')"

lemma reads_append: "reads r (ts @ us) r' \<longleftrightarrow> (\<exists>r1. reads r ts r1 \<and> reads r1 us r')"
  by (induction r ts r' rule: reads.induct) auto

lemma reads_tokens:
  assumes "reads r ts r'"
  shows "map (\<lambda>t. (r_code t, token_view t)) (fst (read_tokens (response_next ascii_iequals) (length ts) r)) = ts"
  using assms by (induction r ts r' rule: reads.induct) (auto simp: split_def Let_def)

lemma next_step:
  assumes "between r st (v @ rest)" and "response_next ascii_iequals r = Some r'"
    and "r_code r' = c" and "is_token c" and "r_tok r' = length v"
  shows "reads r [(c, v)] r' \<and> between r' (r_state r') rest"
proof -
  have ok: "response_ok r" and d: "drop (consumed r) (r_buf r) = v @ rest"
    using assms(1) by (simp_all add: between_def)
  have r': "response_ok r'" "r_buf r' = r_buf r" "r_idx r' = consumed r"
    using response_next_some [OF ok assms(2)] assms(3,4) by auto
  then have "token_view r' = v"
    using d assms(5) by (simp add: token_view_def)
  moreover have "drop (consumed r') (r_buf r') = rest"
  proof -
    have "consumed r' = length v + consumed r"
      using r'(3) assms(3-5) by (simp add: consumed_def)
    then show ?thesis
      using d r'(2) by (simp flip: drop_drop)
  qed
  ultimately show ?thesis
    using assms(2-4) r' by (simp add: between_def)
qed

text \<open>A call that a case of the handler decides.\<close>

lemma handler_step:
  assumes "between r st (v @ rest)" and "st \<notin> response_early" and "v @ rest \<noteq> []"
    and "response_handler ascii_iequals (advance r) = Ret r'"
    and "r_code r' = c" and "is_token c" and "r_tok r' = length v"
  shows "reads r [(c, v)] r' \<and> between r' (r_state r') rest"
proof (rule next_step [OF assms(1) _ assms(5-7)])
  show "response_next ascii_iequals r = Some r'"
    using assms(1,2,4) between_advance(2) [OF assms(1-3)] by (subst response_next.simps) (auto simp: between_def)
qed

section \<open>The status line\<close>

text \<open>A reader between two tokens with the framing of the message.\<close>

definition at :: "response \<Rightarrow> response_state \<Rightarrow> response_body_type \<Rightarrow> bytes \<Rightarrow> bool" where
  "at r st b rest \<longleftrightarrow> between r st rest \<and> r_body r = b"

lemma accept_step:
  assumes "at r st b (v @ rest)" and "st \<notin> response_early" and "v @ rest \<noteq> []"
    and "response_handler ascii_iequals (advance r) = Ret (accept st' c (length v) (advance r))" and "is_token c"
  shows "\<exists>r'. reads r [(c, v)] r' \<and> at r' st' b rest \<and> r_body_size r' = r_body_size r"
  using handler_step [OF _ assms(2-4), where c = c] assms(1,5) by (auto simp: at_def intro!: exI)

lemma digit_char_facts:
  assumes "d < 10"
  shows "isdigit (digit_char d)" "uint (digit_char d) = 48 + int d"
proof -
  have "list_all (\<lambda>d. isdigit (digit_char d) \<and> uint (digit_char d) = 48 + int d) [0..<10]"
    by (simp add: upt_rec digit_char_def isdigit_def)
  with assms show "isdigit (digit_char d)" "uint (digit_char d) = 48 + int d"
    by (auto simp: list_all_iff)
qed

lemma status_digits:
  assumes "100 \<le> n" and "n \<le> 999"
  shows "\<exists>a b c. to_string n = [a, b, c] \<and> list_all isdigit [a, b, c] \<and> status_code_decode [a, b, c] = of_nat n"
proof -
  have small: "n div 100 < 10" "\<not> n div 10 < 10"
    using assms less_mult_imp_div_less [of n 10 100] div_le_mono [of 100 n 10] by simp_all
  have "print_base 10 (n div 100) = [digit_char (n div 100)]"
    using small by (subst print_base.simps) simp
  moreover have "print_base 10 (n div 10) = print_base 10 (n div 100) @ [digit_char (n div 10 mod 10)]"
    using small by (subst print_base.simps) (simp add: div_mult2_eq [symmetric])
  moreover have "print_base 10 n = print_base 10 (n div 10) @ [digit_char (n mod 10)]"
    using assms by (subst print_base.simps) simp
  ultimately have "to_string n = [digit_char (n div 100), digit_char (n div 10 mod 10), digit_char (n mod 10)]"
    by (simp add: to_string_def)
  moreover have "n div 100 < 10"
    using assms by simp
  moreover have "int (n div 100) * 100 + int (n div 10 mod 10) * 10 + int (n mod 10) = int n"
  proof -
    have "n = n div 10 * 10 + n mod 10" "n div 10 = n div 100 * 10 + n div 10 mod 10"
      using div_mult_mod_eq [of n 10] div_mult_mod_eq [of "n div 10" 10] by (simp_all add: div_mult2_eq [symmetric])
    then show ?thesis
      by linarith
  qed
  ultimately have digits: "(uint (to_string n ! 0) - 48) * 100 + (uint (to_string n ! 1) - 48) * 10 + uint (to_string n ! 2) - 48 = int n"
    "to_string n = [digit_char (n div 100), digit_char (n div 10 mod 10), digit_char (n mod 10)]"
    "list_all isdigit (to_string n)"
    by (simp_all add: digit_char_facts)
  then have "status_code_decode (to_string n) = word_of_int (int n)"
    by (simp only: status_code_decode_def)
  then show ?thesis
    using digits(2,3) by simp
qed

text \<open>What the server writes as its first line, in front of the byte that follows.\<close>

definition version_digit :: "bool \<Rightarrow> byte" where
  "version_digit modern = (if modern then 0x31 else 0x30)"

lemma start_line_split:
  "start_line modern status reason
    = version_static_str @ [version_digit modern] @ [0x20] @ to_string status @ [0x20] @ reason @ crlf"
  by (simp add: start_line_def version_static_str_def version_digit_def asc_def)

lemma match_literal_same: "match_literal l l = Some (length l)"
  by (induction l) simp_all

lemma version_step:
  assumes "response_ok r" and "r_state r = EXPECT_VERSION_STATIC_STR" and "r_code r = Error_insufficient_data" and "r_tok r = 0"
    and "drop (r_idx r) (r_buf r) = version_static_str @ rest"
  shows "\<exists>r'. reads r [(Skip, version_static_str)] r' \<and> at r' EXPECT_VERSION (r_body r) rest"
proof -
  have adv: "advance r = r"
    using assms(3) by (simp add: advance_def)
  have "length (drop (r_idx r) (r_buf r)) = 7 + length rest"
    by (subst assms(5)) (simp add: version_static_str_def asc_def)
  then have len: "length version_static_str = 7" "r_idx r + 7 \<le> length (r_buf r)" "r_idx r < length (r_buf r)"
    by (simp_all add: version_static_str_def asc_def)
  define r' where "r' = accept EXPECT_VERSION Skip 7 r"
  have "match_string version_static_str ERRORED EXPECT_VERSION r = r'"
  proof -
    have "drop (r_idx r) (take (r_idx r + 7) (r_buf r)) = version_static_str"
      using assms(5) len(1) by (simp add: drop_take)
    then show ?thesis
      using len assms(4) by (simp add: match_string_def Let_def r'_def match_literal_same min_absorb2)
  qed
  then have "response_next ascii_iequals r = Some r'"
    using assms(2) adv len by (subst response_next.simps) (simp add: response_handler_def)
  moreover have "response_ok r'"
    using response_next_some [OF assms(1) calculation] by simp
  moreover have "drop (r_idx r + 7) (r_buf r) = drop 7 (drop (r_idx r) (r_buf r))"
    by (simp only: drop_drop add.commute)
  then have "token_view r' = version_static_str" "drop (consumed r') (r_buf r') = rest"
    using assms(5) len by (simp_all add: r'_def token_view_def consumed_def)
  ultimately show ?thesis
    by (intro exI [of _ r']) (simp add: at_def between_def r'_def)
qed

lemma single_step:
  assumes "at r st b (c # rest)" and "st \<notin> response_early" and "p c" and "is_token k"
    and "response_handler ascii_iequals (advance r) = Ret (single p ERRORED st' k (advance r))"
  shows "\<exists>r'. reads r [(k, [c])] r' \<and> at r' st' b rest"
proof -
  note a = between_advance [of r st "c # rest"]
  have "drop (r_idx (advance r)) (r_buf r) = c # rest"
    using a(1) assms(1,2) by (simp add: at_def rest_view_def)
  then have "r_buf r ! r_idx (advance r) = c"
    by (rule nth_via_drop)
  then have "response_handler ascii_iequals (advance r) = Ret (accept st' k (length [c]) (advance r))"
    using assms(3,5) by (simp add: single_def)
  from accept_step [of r st b "[c]" rest, OF _ assms(2) _ this assms(4)] assms(1) show ?thesis
    by auto
qed

lemma status_line_head:
  assumes "100 \<le> status" and "status \<le> 999"
  shows "\<exists>r. reads (set_buffer (start_line modern status reason @ rest) (new_response k))
      [(Skip, version_static_str), (Version, [version_digit modern]), (Skip, [0x20]), (Status_code, to_string status)] r
    \<and> at r EXPECT_SP_AFTER_STATUS_CODE UNKNOWN_BODY ([0x20] @ reason @ crlf @ rest) \<and> response_status_code r = of_nat status"
proof -
  let ?r0 = "set_buffer (start_line modern status reason @ rest) (new_response k)"
  obtain x y z where d: "to_string status = [x, y, z]" "list_all isdigit [x, y, z]" "status_code_decode [x, y, z] = of_nat status"
    using status_digits [OF assms] by blast
  let ?rest = "[x, y, z] @ [0x20] @ reason @ crlf @ rest"
  have digit: "isdigit (version_digit modern)"
    by (simp add: version_digit_def isdigit_def)
  obtain r1 where 1: "reads ?r0 [(Skip, version_static_str)] r1" "at r1 EXPECT_VERSION UNKNOWN_BODY (version_digit modern # 0x20 # ?rest)"
    using version_step [of ?r0 "version_digit modern # 0x20 # ?rest"] new_response_ok
    by (auto simp: start_line_split d(1) set_buffer_def new_response_def)
  obtain r2 where 2: "reads r1 [(Version, [version_digit modern])] r2" "at r2 EXPECT_SP_AFTER_VERSION UNKNOWN_BODY (0x20 # ?rest)"
    using single_step [OF 1(2), of isdigit Version EXPECT_SP_AFTER_VERSION] 1(2) digit
    by (auto simp: at_def between_def response_handler_def)
  obtain r3 where 3: "reads r2 [(Skip, [0x20])] r3" "at r3 EXPECT_STATUS_CODE UNKNOWN_BODY ?rest"
    using single_step [OF 2(2), of is_sp Skip EXPECT_STATUS_CODE] 2(2)
    by (auto simp: at_def between_def response_handler_def is_sp_def)
  have v: "rest_view (advance r3) = ?rest"
    using between_advance(1) [of r3 EXPECT_STATUS_CODE ?rest] 3(2) by (simp add: at_def)
  have "response_status_code_case (advance r3) = accept EXPECT_SP_AFTER_STATUS_CODE Status_code (length [x, y, z]) (advance r3)"
    using d(2) by (simp add: numeral_3_eq_3 response_status_code_case_def status_code_match_def v Let_def del: length_rest_view)
  then have h: "response_handler ascii_iequals (advance r3) = Ret (accept EXPECT_SP_AFTER_STATUS_CODE Status_code (length [x, y, z]) (advance r3))"
    using 3(2) by (simp add: at_def between_def response_handler_def)
  obtain r4 where 4: "reads r3 [(Status_code, [x, y, z])] r4" "at r4 EXPECT_SP_AFTER_STATUS_CODE UNKNOWN_BODY ([0x20] @ reason @ crlf @ rest)"
    using accept_step [OF 3(2) _ _ h] by auto
  have "response_status_code r4 = of_nat status"
    using 4(1) d(3) by (auto simp: response_status_code_def)
  then show ?thesis
    using 1(1) 2(1) 3(1) 4 by (intro exI [of _ r4]) (auto simp: d(1))
qed

text \<open>The status and the method leave it to the headers to frame the body.\<close>

definition framed_by_headers :: "bytes \<Rightarrow> nat \<Rightarrow> bool" where
  "framed_by_headers method status \<longleftrightarrow>
     status div 100 \<noteq> 1 \<and> status \<noteq> 204 \<and> status \<noteq> 304 \<and> method \<noteq> asc ''HEAD'' \<and> \<not> (status div 100 = 2 \<and> method = asc ''CONNECT'')"

lemma set_method_framed:
  assumes "at r EXPECT_SP_AFTER_STATUS_CODE UNKNOWN_BODY rest" and "r_code r = Status_code"
    and "response_status_code r = of_nat status" and "status \<le> 999" and "framed_by_headers method status"
  shows "\<exists>r'. set_method method r = Some r' \<and> at r' EXPECT_SP_AFTER_STATUS_CODE CONNECTION_DELIMITED rest"
proof -
  have u: "unat (of_nat status :: 16 word) = status"
    using assms(4) by (simp add: unat_of_nat)
  have "(of_nat status :: 16 word) div 100 = n \<longleftrightarrow> status div 100 = unat n" for n
    using u by (simp add: word_unat_eq_iff unat_div)
  moreover have "(of_nat status :: 16 word) = n \<longleftrightarrow> status = unat n" for n
    using u by (simp add: word_unat_eq_iff)
  ultimately have "set_method method r = Some (r\<lparr>r_body := CONNECTION_DELIMITED\<rparr>)"
    using assms(2,3,5) by (auto simp: set_method_def Let_def framed_by_headers_def)
  moreover from set_method_ok [OF _ this] assms(1,2) have "at (r\<lparr>r_body := CONNECTION_DELIMITED\<rparr>) EXPECT_SP_AFTER_STATUS_CODE CONNECTION_DELIMITED rest"
    by (simp add: at_def between_def consumed_def)
  ultimately show ?thesis
    by blast
qed

section \<open>Fields\<close>

lemma match_while_upto: "list_all p v \<Longrightarrow> \<not> p c \<Longrightarrow> match_while p (v @ c # rest) = length v"
  by (induction v) auto

lemma at_view:
  assumes "at r st b rest" and "st \<notin> response_early" and "rest \<noteq> []"
  shows "rest_view (advance r) = rest" "r_state (advance r) = st" "r_body (advance r) = b"
    "drop (r_idx (advance r)) (r_buf r) = rest"
  using between_advance [of r st rest] assms by (auto simp: at_def between_def rest_view_def)

lemma reason_step:
  assumes "at r EXPECT_REASON_PHRASE b (reason @ crlf @ rest)" and "list_all is_reason_phrase_char reason"
  shows "\<exists>r'. reads r [(Reason_phrase, reason)] r' \<and> at r' EXPECT_CRLF_AFTER_REASON_PHRASE b (crlf @ rest)"
proof -
  note v = at_view [OF assms(1)]
  have "reason_phrase_match (reason @ crlf @ rest) = length reason"
    unfolding reason_phrase_match_def append_Cons
    by (rule match_while_upto [OF assms(2)]) (simp add: is_reason_phrase_char_def is_ows_def is_vchar_def is_obs_text_def)
  then have "response_handler ascii_iequals (advance r) = Ret (accept EXPECT_CRLF_AFTER_REASON_PHRASE Reason_phrase (length reason) (advance r))"
    using v by (simp add: response_handler_def match_token_def Let_def del: length_rest_view)
  from accept_step [OF assms(1) _ _ this] show ?thesis
    by auto
qed

lemma line_step:
  assumes "at r st b (crlf @ rest)" and "st \<in> {EXPECT_CRLF_AFTER_REASON_PHRASE, EXPECT_CRLF_AFTER_FIELD_VALUE}"
  shows "\<exists>r'. reads r [(Skip, crlf)] r' \<and> at r' EXPECT_FIELD_NAME b rest \<and> r_body_size r' = r_body_size r"
proof -
  have "rest_view (advance r) = 0x0D # 0x0A # rest" "r_state (advance r) = st"
    using at_view [OF assms(1)] assms(2) by auto
  then have "response_handler ascii_iequals (advance r) = Ret (accept EXPECT_FIELD_NAME Skip (length crlf) (advance r))"
    using assms(2) by (auto simp: response_handler_def liberal_line_def numeral_2_eq_2)
  from accept_step [OF assms(1) _ _ this] assms(2) show ?thesis
    by auto
qed

text \<open>A field whose name does not frame the message, and whose value needs no trimming.\<close>

definition field_text :: "bytes \<times> bytes \<Rightarrow> bool" where
  "field_text f \<longleftrightarrow> (case f of (name, v) \<Rightarrow>
     name \<noteq> [] \<and> list_all is_tchar name
     \<and> v \<noteq> [] \<and> list_all is_field_value_char v \<and> \<not> is_ows (hd v) \<and> \<not> is_ows (last v))"

definition plain_field :: "bytes \<times> bytes \<Rightarrow> bool" where
  "plain_field f \<longleftrightarrow> field_text f
     \<and> \<not> ascii_iequals (fst f) (asc ''Transfer-Encoding'') \<and> \<not> ascii_iequals (fst f) (asc ''Content-Length'')"

text \<open>The reader marks the value of a length that follows.\<close>

definition name_mark :: "bytes \<Rightarrow> response_body_type \<Rightarrow> response_body_type" where
  "name_mark name b = (if ascii_iequals name (asc ''Content-Length'') then READING_CONTENT_LENGTH else b)"

lemma name_step:
  assumes "at r EXPECT_FIELD_NAME CONNECTION_DELIMITED (name @ 0x3A # rest)"
    and "name \<noteq> []" "list_all is_tchar name" and "\<not> ascii_iequals name (asc ''Transfer-Encoding'')"
  shows "\<exists>r'. reads r [(Field_name, name)] r' \<and> at r' EXPECT_COLON (name_mark name CONNECTION_DELIMITED) (0x3A # rest)"
proof -
  note v = at_view [OF assms(1)]
  let ?r = "accept EXPECT_COLON Field_name (length name) (advance r)"
  have "field_name_match (name @ 0x3A # rest) = length name"
    unfolding field_name_match_def
    by (rule match_while_upto [OF assms(3)]) (simp add: is_tchar_def asc_def isalnum_def isalpha_def isdigit_def)
  moreover have "token_view ?r = name"
    using v by (simp add: token_view_def)
  ultimately have "response_field_name ascii_iequals (advance r) = Ret (?r\<lparr>r_body := name_mark name CONNECTION_DELIMITED\<rparr>)"
    using assms(2,4) v by (simp add: response_field_name_def Let_def name_mark_def response_content_length_def del: length_rest_view)
  then have "response_handler ascii_iequals (advance r) = Ret (?r\<lparr>r_body := name_mark name CONNECTION_DELIMITED\<rparr>)"
    using v by (simp add: response_handler_def)
  from handler_step [OF _ _ _ this, of EXPECT_FIELD_NAME name "0x3A # rest" Field_name] assms(1) show ?thesis
    by (auto simp: at_def intro!: exI)
qed

lemma colon_step:
  assumes "at r EXPECT_COLON b (asc '': '' @ v @ rest)" and "v \<noteq> []" and "\<not> is_ows (hd v)"
  shows "\<exists>r'. reads r [(Skip, asc '': '')] r' \<and> at r' EXPECT_FIELD_VALUE b (v @ rest) \<and> r_body_size r' = r_body_size r"
proof -
  note a = at_view [OF assms(1)]
  obtain c cs where c: "v = c # cs" "\<not> is_ows c"
    using assms(2,3) by (cases v) auto
  have d: "drop (r_idx (advance r)) (r_buf r) = 0x3A # 0x20 # c # cs @ rest"
    using a(4) by (simp add: c(1) asc_def)
  then have "r_buf r ! r_idx (advance r) = 0x3A"
    by (rule nth_via_drop)
  moreover have "drop (r_idx (advance r) + 1) (r_buf r) = 0x20 # c # cs @ rest"
    using d by (metis add.commute drop_drop drop_0 drop_Suc_Cons One_nat_def)
  moreover have "r_idx (advance r) + 2 < length (r_buf r)"
    using arg_cong [OF d, of length] by simp
  ultimately have "response_handler ascii_iequals (advance r) = Ret (accept EXPECT_FIELD_VALUE Skip (length (asc '': '')) (advance r))"
    using a(2) c(2) by (simp add: response_handler_def colon_def Let_def is_ows_def asc_def numeral_2_eq_2)
  from accept_step [OF assms(1) _ _ this] show ?thesis
    by (auto simp: asc_def)
qed

lemma decode_plain: "v \<noteq> [] \<Longrightarrow> \<not> is_ows (last v) \<Longrightarrow> decode_field_value before v = Some v"
proof -
  assume v: "v \<noteq> []" "\<not> is_ows (last v)"
  have "match_while is_ows (rev (tl v)) = 0"
  proof (cases "tl v = []")
    case False
    then have "rev (tl v) = last v # tl (rev (tl v))"
      by (metis hd_rev last_tl list.collapse rev_is_Nil_conv)
    then show ?thesis
      using v(2) by (metis match_while.simps(2))
  qed simp
  with v(1) show ?thesis
    by (simp add: decode_field_value_def)
qed

text \<open>What the value of a marked field does to the framing.\<close>

definition value_mark :: "response_body_type \<Rightarrow> response_body_type" where
  "value_mark b = (if b = READING_CONTENT_LENGTH then CONTENT_LENGTH_READ else b)"

lemma value_step:
  assumes "at r EXPECT_FIELD_VALUE b (v @ crlf @ rest)" and "b \<in> {CONNECTION_DELIMITED, READING_CONTENT_LENGTH}"
    and "v \<noteq> []" "list_all is_field_value_char v" "\<not> is_ows (last v)"
    and "b = READING_CONTENT_LENGTH \<longrightarrow> content_length_decode v (r_body_size r) = (Ok, n)"
  shows "\<exists>r'. reads r [(Field_value, v)] r' \<and> at r' EXPECT_CRLF_AFTER_FIELD_VALUE (value_mark b) (crlf @ rest)
    \<and> (b = READING_CONTENT_LENGTH \<longrightarrow> r_body_size r' = n)"
proof -
  note a = at_view [OF assms(1)]
  let ?r = "accept EXPECT_CRLF_AFTER_FIELD_VALUE Field_value (length v) (advance r)"
  let ?r' = "?r\<lparr>r_body := value_mark b, r_body_size := (if b = READING_CONTENT_LENGTH then n else r_body_size r)\<rparr>"
  have "left_trimmed_field_value_match (v @ crlf @ rest) = length v"
    unfolding left_trimmed_field_value_match_def append_Cons
    by (rule match_while_upto [OF assms(4)]) (simp add: is_field_value_char_def is_ows_def is_vchar_def is_obs_text_def)
  moreover have "field_value_of ?r = Some v"
    using a decode_plain [OF assms(3,5)] by (simp add: field_value_of_def token_view_def)
  moreover have "r_body_size (advance r) = r_body_size r"
    by (simp add: advance_def)
  ultimately have "field_value ascii_iequals ERRORED EXPECT_CRLF_AFTER_FIELD_VALUE response_body_types (advance r) = Ret ?r'"
    using a assms(2,6)
    by (auto simp: field_value_def Let_def response_body_types_def read_content_length_def value_mark_def simp del: length_rest_view)
  then have "response_handler ascii_iequals (advance r) = Ret ?r'"
    using a by (simp add: response_handler_def)
  from handler_step [OF _ _ _ this, of EXPECT_FIELD_VALUE v "crlf @ rest" Field_value] assms(1,3) show ?thesis
    by (auto simp: at_def intro!: exI)
qed

text \<open>A whole field.\<close>

definition field_tokens :: "bytes \<times> bytes \<Rightarrow> (token_code \<times> bytes) list" where
  "field_tokens f = [(Field_name, fst f), (Skip, asc '': ''), (Field_value, snd f), (Skip, crlf)]"

lemma field_step:
  assumes "at r EXPECT_FIELD_NAME CONNECTION_DELIMITED (field_lines [f] @ rest)" and "field_text f"
    and "\<not> ascii_iequals (fst f) (asc ''Transfer-Encoding'')"
    and "ascii_iequals (fst f) (asc ''Content-Length'') \<Longrightarrow> \<forall>out. content_length_decode (snd f) out = (Ok, n)"
  shows "\<exists>r'. reads r (field_tokens f) r' \<and> at r' EXPECT_FIELD_NAME (value_mark (name_mark (fst f) CONNECTION_DELIMITED)) rest
    \<and> (ascii_iequals (fst f) (asc ''Content-Length'') \<longrightarrow> r_body_size r' = n)"
proof -
  obtain name v where f: "f = (name, v)"
    by (cases f)
  have ok: "name \<noteq> []" "list_all is_tchar name" "v \<noteq> []" "list_all is_field_value_char v" "\<not> is_ows (hd v)" "\<not> is_ows (last v)"
    using assms(2) by (simp_all add: f field_text_def)
  have lines: "field_lines [f] @ rest = name @ 0x3A # 0x20 # v @ crlf @ rest"
    by (simp add: field_lines_def f asc_def)
  let ?b = "name_mark name CONNECTION_DELIMITED"
  obtain r1 where 1: "reads r [(Field_name, name)] r1" "at r1 EXPECT_COLON ?b (asc '': '' @ v @ crlf @ rest)"
    using name_step [OF assms(1) [unfolded lines] ok(1,2)] assms(3) by (auto simp: f asc_def)
  obtain r2 where 2: "reads r1 [(Skip, asc '': '')] r2" "at r2 EXPECT_FIELD_VALUE ?b (v @ crlf @ rest)"
    using colon_step [OF 1(2) ok(3,5)] by blast
  have "?b \<in> {CONNECTION_DELIMITED, READING_CONTENT_LENGTH}"
    "?b = READING_CONTENT_LENGTH \<longrightarrow> content_length_decode v (r_body_size r2) = (Ok, n)"
    using assms(4) by (auto simp: name_mark_def f)
  from value_step [OF 2(2) this(1) ok(3,4,6) this(2)]
  obtain r3 where 3: "reads r2 [(Field_value, v)] r3" "at r3 EXPECT_CRLF_AFTER_FIELD_VALUE (value_mark ?b) (crlf @ rest)"
    "?b = READING_CONTENT_LENGTH \<longrightarrow> r_body_size r3 = n"
    by blast
  obtain r4 where 4: "reads r3 [(Skip, crlf)] r4" "at r4 EXPECT_FIELD_NAME (value_mark ?b) rest" "r_body_size r4 = r_body_size r3"
    using line_step [OF 3(2)] by blast
  have "reads r ([(Field_name, name)] @ [(Skip, asc '': '')] @ [(Field_value, v)] @ [(Skip, crlf)]) r4"
    unfolding reads_append using 1(1) 2(1) 3(1) 4(1) by blast
  then have "reads r (field_tokens f) r4"
    by (simp add: field_tokens_def f)
  then show ?thesis
    using 3(3) 4(2,3) by (intro exI [of _ r4]) (simp add: f name_mark_def)
qed

lemma fields_read:
  assumes "at r EXPECT_FIELD_NAME CONNECTION_DELIMITED (field_lines fs @ rest)" and "\<And>f. f \<in> set fs \<Longrightarrow> plain_field f"
  shows "\<exists>r'. reads r (concat (map field_tokens fs)) r' \<and> at r' EXPECT_FIELD_NAME CONNECTION_DELIMITED rest"
  using assms
proof (induction fs arbitrary: r)
  case Nil
  then show ?case
    by (simp add: field_lines_def)
next
  case (Cons f fs)
  have f: "field_text f" "\<not> ascii_iequals (fst f) (asc ''Transfer-Encoding'')" "\<not> ascii_iequals (fst f) (asc ''Content-Length'')"
    using Cons.prems(2) by (simp_all add: plain_field_def)
  have "field_lines (f # fs) @ rest = field_lines [f] @ field_lines fs @ rest"
    by (simp add: field_lines_def)
  then obtain r1 where 1: "reads r (field_tokens f) r1" "at r1 EXPECT_FIELD_NAME CONNECTION_DELIMITED (field_lines fs @ rest)"
    using field_step [of r f "field_lines fs @ rest"] Cons.prems(1) f by (auto simp: name_mark_def value_mark_def)
  from Cons.IH [OF 1(2)] Cons.prems(2) 1(1) show ?case
    by (auto simp: reads_append)
qed

section \<open>The body and the whole response\<close>

lemma end_of_headers_step:
  assumes "at r EXPECT_FIELD_NAME CONTENT_LENGTH_READ (crlf @ rest)"
  shows "\<exists>r'. reads r [(End_of_headers, crlf)] r' \<and> r_body_size r' = r_body_size r
    \<and> at r' (if r_body_size r = 0 then EXPECT_END_OF_BODY else EXPECT_BODY) CONTENT_LENGTH_READ rest"
proof -
  note a = at_view [OF assms]
  have idx: "r_idx (advance r) < length (r_buf r)"
    using between_advance(2) [of r EXPECT_FIELD_NAME "crlf @ rest"] assms by (simp add: at_def)
  define r1 where "r1 = (advance r)\<lparr>r_state := EXPECT_CRLF_AFTER_HEADERS\<rparr>"
  define r' where "r' = r1\<lparr>r_tok := 2, r_code := End_of_headers,
      r_state := (if r_body_size r = 0 then EXPECT_END_OF_BODY else EXPECT_BODY)\<rparr>"
  have "field_name_match (crlf @ rest) = 0"
    by (simp add: field_name_match_def is_tchar_def isalnum_def isalpha_def isdigit_def asc_def)
  then have "response_handler ascii_iequals (advance r) = Ret_next r1"
    using a by (simp add: response_handler_def response_field_name_def Let_def r1_def del: length_rest_view)
  then have "response_next ascii_iequals r = response_next ascii_iequals r1"
    using a(2) idx by (subst response_next.simps) simp
  moreover have "advance r1 = r1"
    by (simp add: r1_def advance_def)
  moreover have "response_handler ascii_iequals r1 = Ret r'"
  proof -
    have "rest_view r1 = 0x0D # 0x0A # rest" "r_body r1 = CONTENT_LENGTH_READ" "r_body_size r1 = r_body_size r"
      using a by (simp_all add: r1_def rest_view_def)
    then show ?thesis
      by (simp add: response_handler_def response_crlf_after_headers_def response_end_of_headers_def r'_def r1_def)
  qed
  moreover have "response_next ascii_iequals r1 = Some r'"
    using calculation(2,3) idx by (subst response_next.simps) (simp add: r1_def)
  moreover have "r_body_size r' = r_body_size r" "r_body r' = CONTENT_LENGTH_READ"
    using a by (simp_all add: r'_def r1_def)
  ultimately show ?thesis
    using next_step [of r EXPECT_FIELD_NAME crlf rest r' End_of_headers] assms
    by (intro exI [of _ r']) (simp add: at_def r'_def)
qed

lemma body_step:
  assumes "at r EXPECT_BODY b (body @ rest)" and "r_body_size r = of_nat (length body)"
    and "length body < 2 ^ 64" and "body \<noteq> []"
  shows "\<exists>r'. reads r [(Body_chunk, body)] r' \<and> at r' EXPECT_END_OF_BODY b rest"
proof -
  note a = at_view [OF assms(1)]
  have u: "unat (of_nat (length body) :: u64) = length body"
    using assms(3) by (simp add: unat_of_nat)
  define r' where "r' = (advance r)\<lparr>r_code := Body_chunk, r_tok := length body, r_body_size := 0, r_state := EXPECT_END_OF_BODY\<rparr>"
  have "length (rest_view (advance r)) = length body + length rest"
    using a(1) assms(4) by (simp del: length_rest_view)
  then have "body_data EXPECT_END_OF_BODY (advance r) = r'"
    using assms(2) u by (simp add: r'_def body_data_def Let_def del: length_rest_view)
  then have "response_handler ascii_iequals (advance r) = Ret r'"
    using a assms(4) by (simp add: response_handler_def)
  from handler_step [OF _ _ _ this, of EXPECT_BODY body rest Body_chunk] assms(1,4) a show ?thesis
    by (auto simp: at_def r'_def intro!: exI)
qed

lemma end_of_message_steps:
  assumes "at r EXPECT_END_OF_BODY CONTENT_LENGTH_READ rest"
  shows "\<exists>r'. reads r [(End_of_body, []), (End_of_message, [])] r' \<and> at r' EXPECT_VERSION_STATIC_STR UNKNOWN_BODY rest"
proof -
  have st: "r_state r = EXPECT_END_OF_BODY"
    using assms by (simp add: at_def between_def)
  define r1 where "r1 = r\<lparr>r_state := EXPECT_END_OF_MESSAGE, r_code := End_of_body, r_idx := r_idx r + r_tok r, r_tok := 0\<rparr>"
  have 1: "reads r [(End_of_body, [])] r1 \<and> between r1 (r_state r1) rest"
    by (rule next_step [of r EXPECT_END_OF_BODY]) (use assms in \<open>simp_all add: at_def r1_def response_next_early(2) [OF st]\<close>)
  have st1: "r_state r1 = EXPECT_END_OF_MESSAGE"
    by (simp add: r1_def)
  define r2 where "r2 = r1\<lparr>r_state := EXPECT_VERSION_STATIC_STR, r_body := UNKNOWN_BODY, r_code := End_of_message,
      r_idx := r_idx r1 + r_tok r1, r_tok := 0\<rparr>"
  have "reads r1 [(End_of_message, [])] r2 \<and> between r2 (r_state r2) rest"
    by (rule next_step [of r1 "r_state r1"])
      (use 1 assms in \<open>simp_all add: at_def r2_def response_next_early(3) [OF st1], simp add: r1_def\<close>)
  with 1 show ?thesis
    by (intro exI [of _ r2]) (simp add: at_def r2_def)
qed

lemma read_rest:
  assumes "at r EXPECT_FIELD_NAME CONTENT_LENGTH_READ (crlf @ body @ rest)" and "r_body_size r = of_nat (length body)"
    and "length body < 2 ^ 64"
  shows "\<exists>r'. reads r ([(End_of_headers, crlf)] @ (if body = [] then [] else [(Body_chunk, body)]) @ [(End_of_body, []), (End_of_message, [])]) r'
    \<and> at r' EXPECT_VERSION_STATIC_STR UNKNOWN_BODY rest"
proof -
  have zero: "r_body_size r = 0 \<longleftrightarrow> body = []"
  proof -
    have "unat (r_body_size r) = length body"
      using assms(2,3) by (simp add: unat_of_nat)
    then show ?thesis
      by (metis length_0_conv unat_eq_zero)
  qed
  obtain r1 where 1: "reads r [(End_of_headers, crlf)] r1" "r_body_size r1 = r_body_size r"
    "at r1 (if body = [] then EXPECT_END_OF_BODY else EXPECT_BODY) CONTENT_LENGTH_READ (body @ rest)"
    using end_of_headers_step [OF assms(1)] zero by auto
  have "\<exists>r2. reads r1 (if body = [] then [] else [(Body_chunk, body)]) r2 \<and> at r2 EXPECT_END_OF_BODY CONTENT_LENGTH_READ rest"
    using body_step [of r1 CONTENT_LENGTH_READ body rest] 1(2,3) assms(2,3) by (cases "body = []") auto
  then obtain r2 where 2: "reads r1 (if body = [] then [] else [(Body_chunk, body)]) r2" "at r2 EXPECT_END_OF_BODY CONTENT_LENGTH_READ rest"
    by blast
  obtain r3 where 3: "reads r2 [(End_of_body, []), (End_of_message, [])] r3" "at r3 EXPECT_VERSION_STATIC_STR UNKNOWN_BODY rest"
    using end_of_message_steps [OF 2(2)] by blast
  show ?thesis
    unfolding reads_append using 1(1) 2(1) 3 by blast
qed

text \<open>The fields of a response as the socket writes them.\<close>

definition sent_fields :: "bool \<Rightarrow> message \<Rightarrow> (bytes \<times> bytes) list" where
  "sent_fields close m = (if close then [(asc ''connection'', asc ''close'')] else []) @ msg_headers m"

definition length_field :: "message \<Rightarrow> bytes \<times> bytes" where
  "length_field m = (asc ''content-length'', to_string (length (msg_body m)))"

lemma response_bytes_fields:
  assumes "\<And>f. f \<in> set (msg_headers m) \<Longrightarrow> plain_field f" and "framed_by_headers method status" and "\<not> (connect \<and> status div 100 = 2)"
  shows "response_bytes modern connect close status reason m
    = start_line modern status reason @ field_lines (sent_fields close m) @ field_lines [length_field m] @ crlf @ msg_body m"
proof -
  have "equal_range (msg_headers m) (asc ''content-length'') = []"
  proof -
    have "ascii_iequals (asc ''content-length'') (asc ''Content-Length'')"
      by code_simp
    then have "fst f \<noteq> asc ''content-length''" if "f \<in> set (msg_headers m)" for f
      using assms(1) [OF that] by (auto simp: plain_field_def)
    then show ?thesis
      by (auto simp: equal_range_def filter_empty_conv)
  qed
  then have "\<not> implicit_content_length connect status (msg_headers m)"
    using assms(2,3) by (auto simp: implicit_content_length_def framed_by_headers_def)
  then show ?thesis
    by (simp add: response_bytes_def Let_def connection_close_line_def field_lines_def sent_fields_def length_field_def asc_def)
qed

lemma to_string_value: "list_all isdigit (to_string n)"
proof -
  have "numeral_value dec_digit 10 (to_string n) = Some n"
    unfolding to_string_def by (rule print_base_value) (simp_all add: digit_char_dec)
  then have "digits_value dec_digit 10 (rev (to_string n)) \<noteq> None"
    by (simp add: numeral_value_def)
  then show ?thesis
    unfolding digits_value_defined by (auto simp: list_all_iff dec_digit_def split: if_splits)
qed

lemma close_field: "plain_field (asc ''connection'', asc ''close'')"
  by code_simp

lemma length_field_text: "field_text (length_field m)"
proof -
  have "list_all is_tchar (asc ''content-length'')"
    by code_simp
  moreover have "is_field_value_char c \<and> \<not> is_ows c" if "isdigit c" for c
    using that by (auto simp: is_field_value_char_def is_vchar_def is_ows_def isdigit_def word_le_nat_alt)
  then have "\<forall>c \<in> set (to_string n). is_field_value_char c \<and> \<not> is_ows c" for n
    using to_string_value [of n] by (simp add: list_all_iff)
  moreover have nz: "to_string n \<noteq> []" for n
    by (simp add: to_string_def)
  moreover have "\<not> is_ows (hd (to_string n)) \<and> \<not> is_ows (last (to_string n))" for n
    using calculation(2) hd_in_set [OF nz] last_in_set [OF nz] by blast
  moreover have "asc ''content-length'' \<noteq> []"
    by (simp add: asc_def)
  ultimately show ?thesis
    by (simp add: field_text_def length_field_def list_all_iff)
qed

text \<open>The status line as a whole, with the call of \<open>set_method\<close> that the reader waits for behind the status code.\<close>

lemma status_line_read:
  assumes "100 \<le> status" and "status \<le> 999" and "framed_by_headers method status" and "list_all is_reason_phrase_char reason"
  shows "\<exists>r1 r2 r5.
      reads (set_buffer (start_line modern status reason @ after) (new_response k))
        [(Skip, version_static_str), (Version, [version_digit modern]), (Skip, [0x20]), (Status_code, to_string status)] r1
    \<and> response_status_code r1 = of_nat status \<and> set_method method r1 = Some r2
    \<and> reads r2 [(Skip, [0x20]), (Reason_phrase, reason), (Skip, crlf)] r5
    \<and> at r5 EXPECT_FIELD_NAME CONNECTION_DELIMITED after"
proof -
  obtain r1 where 1: "reads (set_buffer (start_line modern status reason @ after) (new_response k))
      [(Skip, version_static_str), (Version, [version_digit modern]), (Skip, [0x20]), (Status_code, to_string status)] r1"
    "at r1 EXPECT_SP_AFTER_STATUS_CODE UNKNOWN_BODY ([0x20] @ reason @ crlf @ after)" "response_status_code r1 = of_nat status"
    using status_line_head [OF assms(1,2)] by blast
  then have "r_code r1 = Status_code"
    by auto
  then obtain r2 where 2: "set_method method r1 = Some r2"
    "at r2 EXPECT_SP_AFTER_STATUS_CODE CONNECTION_DELIMITED (0x20 # reason @ crlf @ after)"
    using set_method_framed [OF 1(2) _ 1(3) assms(2,3)] by auto
  obtain r3 where 3: "reads r2 [(Skip, [0x20])] r3" "at r3 EXPECT_REASON_PHRASE CONNECTION_DELIMITED (reason @ crlf @ after)"
    using single_step [OF 2(2), of is_sp Skip EXPECT_REASON_PHRASE] at_view(2,3) [OF 2(2)]
    by (auto simp: response_handler_def response_sp_after_status_code_def is_sp_def)
  obtain r4 where 4: "reads r3 [(Reason_phrase, reason)] r4" "at r4 EXPECT_CRLF_AFTER_REASON_PHRASE CONNECTION_DELIMITED (crlf @ after)"
    using reason_step [OF 3(2) assms(4)] by blast
  obtain r5 where 5: "reads r4 [(Skip, crlf)] r5" "at r5 EXPECT_FIELD_NAME CONNECTION_DELIMITED after"
    using line_step [OF 4(2)] by blast
  have "reads r2 ([(Skip, [0x20])] @ [(Reason_phrase, reason)] @ [(Skip, crlf)]) r5"
    by (subst reads_append, rule exI, rule conjI, rule 3(1), subst reads_append, rule exI, rule conjI, rule 4(1), rule 5(1))
  then show ?thesis
    using 1(1,3) 2(1) 5(2) by (intro exI [of _ r1] exI [of _ r2] exI [of _ r5]) simp
qed

text \<open>
  C17: what the server writes as a response the reader of the library cuts into the same message: for every
  status whose body the headers frame, every reason, fields and body, the reader delivers the version, the
  status code, and, once it was told the method, the reason, the fields in order with their values as they were
  given, the length, the end of the headers, the whole body as one piece when it is not empty, the end of the
  body and of the message, and it stops in front of the byte that follows.
\<close>

theorem response_roundtrip:
  assumes "100 \<le> status" and "status \<le> 999" and "framed_by_headers method status" and "\<not> (connect \<and> status div 100 = 2)"
    and "list_all is_reason_phrase_char reason" and "\<And>f. f \<in> set (msg_headers m) \<Longrightarrow> plain_field f" and "length (msg_body m) < 2 ^ 64"
  shows "\<exists>r1 r2 r3.
      reads (set_buffer (response_bytes modern connect close status reason m @ rest) (new_response k))
        [(Skip, version_static_str), (Version, [version_digit modern]), (Skip, [0x20]), (Status_code, to_string status)] r1
    \<and> response_status_code r1 = of_nat status \<and> set_method method r1 = Some r2
    \<and> reads r2
        ([(Skip, [0x20]), (Reason_phrase, reason), (Skip, crlf)]
         @ concat (map field_tokens (sent_fields close m @ [length_field m]))
         @ [(End_of_headers, crlf)] @ (if msg_body m = [] then [] else [(Body_chunk, msg_body m)])
         @ [(End_of_body, []), (End_of_message, [])]) r3
    \<and> r_state r3 = EXPECT_VERSION_STATIC_STR \<and> drop (consumed r3) (r_buf r3) = rest"
proof -
  let ?n = "of_nat (length (msg_body m)) :: u64"
  let ?tail = "crlf @ msg_body m @ rest"
  let ?fields = "field_lines (sent_fields close m) @ field_lines [length_field m] @ ?tail"
  have bytes: "response_bytes modern connect close status reason m @ rest = start_line modern status reason @ ?fields"
    using response_bytes_fields [OF assms(6,3,4)] by simp
  obtain r1 r2 r5 where 1: "reads (set_buffer (start_line modern status reason @ ?fields) (new_response k))
      [(Skip, version_static_str), (Version, [version_digit modern]), (Skip, [0x20]), (Status_code, to_string status)] r1"
    "response_status_code r1 = of_nat status" and 2: "set_method method r1 = Some r2"
    and 5: "reads r2 [(Skip, [0x20]), (Reason_phrase, reason), (Skip, crlf)] r5" "at r5 EXPECT_FIELD_NAME CONNECTION_DELIMITED ?fields"
    using status_line_read [OF assms(1,2,3,5), of modern ?fields k] by blast
  have "plain_field f" if "f \<in> set (sent_fields close m)" for f
    using that assms(6) [of f] close_field by (cases "f \<in> set (msg_headers m)") (simp_all add: sent_fields_def split: if_splits)
  from fields_read [OF 5(2) this] obtain r6 where 6: "reads r5 (concat (map field_tokens (sent_fields close m))) r6"
    "at r6 EXPECT_FIELD_NAME CONNECTION_DELIMITED (field_lines [length_field m] @ ?tail)"
    by blast
  have len: "\<not> ascii_iequals (fst (length_field m)) (asc ''Transfer-Encoding'')" "ascii_iequals (fst (length_field m)) (asc ''Content-Length'')"
    by (simp_all add: length_field_def, code_simp, code_simp)
  have dec: "\<forall>out. content_length_decode (snd (length_field m)) out = (Ok, ?n)"
    using printed_sizes_decode [OF assms(7)] by (simp add: length_field_def)
  obtain r7 where 7: "reads r6 (field_tokens (length_field m)) r7" "at r7 EXPECT_FIELD_NAME CONTENT_LENGTH_READ ?tail" "r_body_size r7 = ?n"
    using field_step [OF 6(2) length_field_text len(1)] dec len(2) by (auto simp: name_mark_def value_mark_def)
  obtain r8 where 8: "reads r7 ([(End_of_headers, crlf)] @ (if msg_body m = [] then [] else [(Body_chunk, msg_body m)])
      @ [(End_of_body, []), (End_of_message, [])]) r8" "at r8 EXPECT_VERSION_STATIC_STR UNKNOWN_BODY rest"
    using read_rest [OF 7(2,3) assms(7)] by blast
  have "reads r2 ([(Skip, [0x20]), (Reason_phrase, reason), (Skip, crlf)]
      @ concat (map field_tokens (sent_fields close m)) @ field_tokens (length_field m)
      @ [(End_of_headers, crlf)] @ (if msg_body m = [] then [] else [(Body_chunk, msg_body m)])
      @ [(End_of_body, []), (End_of_message, [])]) r8"
    by (subst reads_append, rule exI, rule conjI, rule 5(1), subst reads_append, rule exI, rule conjI, rule 6(1),
        subst reads_append, rule exI, rule conjI, rule 7(1), rule 8(1))
  then show ?thesis
    unfolding bytes using 1 2 8(2) by (intro exI [of _ r1] exI [of _ r2] exI [of _ r8]) (simp add: at_def between_def)
qed

lemma response_roundtrip_witness:
  "\<exists>r1 r2 r3.
      reads (set_buffer (response_bytes True False True 404 (asc ''Not Found'') \<lparr>msg_headers = [(asc ''server'', asc ''wye'')], msg_body = asc ''no'', msg_trailers = []\<rparr> @ [])
          (new_response 0)) [(Skip, asc ''HTTP/1.''), (Version, asc ''1''), (Skip, asc '' ''), (Status_code, asc ''404'')] r1
    \<and> response_status_code r1 = of_nat 404 \<and> set_method (asc ''GET'') r1 = Some r2
    \<and> reads r2
        ([(Skip, asc '' ''), (Reason_phrase, asc ''Not Found''), (Skip, crlf)]
         @ concat (map field_tokens [(asc ''connection'', asc ''close''), (asc ''server'', asc ''wye''), (asc ''content-length'', asc ''2'')])
         @ [(End_of_headers, crlf)] @ [(Body_chunk, asc ''no'')] @ [(End_of_body, []), (End_of_message, [])]) r3
    \<and> r_state r3 = EXPECT_VERSION_STATIC_STR \<and> drop (consumed r3) (r_buf r3) = []"
proof -
  let ?m = "\<lparr>msg_headers = [(asc ''server'', asc ''wye'')], msg_body = asc ''no'', msg_trailers = []\<rparr> :: message"
  have head: "framed_by_headers (asc ''GET'') 404" "list_all is_reason_phrase_char (asc ''Not Found'')" "plain_field (asc ''server'', asc ''wye'')"
    by code_simp+
  then have m: "f \<in> set (msg_headers ?m) \<Longrightarrow> plain_field f" for f
    by simp
  have facts: "(100::nat) \<le> 404" "(404::nat) \<le> 999" "\<not> (False \<and> (404::nat) div 100 = 2)" "length (msg_body ?m) < 2 ^ 64"
    by (simp_all add: asc_def)
  have texts: "to_string 404 = asc ''404''" "to_string (length (asc ''no'')) = asc ''2''" "version_static_str = asc ''HTTP/1.''"
    "[version_digit True] = asc ''1''" "[0x20] = asc '' ''" "to_string (Suc (Suc 0)) = asc ''2''"
    by code_simp+
  have fields: "sent_fields True ?m @ [length_field ?m]
      = [(asc ''connection'', asc ''close''), (asc ''server'', asc ''wye''), (asc ''content-length'', asc ''2'')]"
    by (simp add: sent_fields_def length_field_def texts)
  have body: "(if msg_body ?m = [] then [] else [(Body_chunk, msg_body ?m)]) = [(Body_chunk, asc ''no'')]"
    by (simp add: asc_def)
  show ?thesis
    using response_roundtrip [OF facts(1,2) head(1) facts(3) head(2) m facts(4), of True True "[]" 0]
    unfolding fields body texts(1-5) by blast
qed

end
