(* ===== verification/RequestReader.thy ===== *)
theory RequestReader
  imports ReaderCore
begin

text \<open>
  \<open>boost::http::reader::request\<close> (\<open>reader/request.hpp\<close>, \<open>reader/request.ipp\<close>): the state machine
  that cuts a byte stream into the tokens of HTTP requests. The record \<open>request\<close> is the class, the
  \<open>request_*\<close> definitions are its member functions; \<open>request_handler\<close> has one branch per case of
  the second \<open>switch\<close> of \<open>next()\<close>. The fields \<open>version\<close> and \<open>body_size\<close> are not initialised by
  the constructor: their first values are its arguments.
\<close>

datatype request_version = HTTP_1_0 | NOT_HTTP_1_0_AND_HOST_NOT_READ | NOT_HTTP_1_0_AND_HOST_READ

datatype request_body_type =
    NO_BODY
  | CONTENT_LENGTH_READ
  | CHUNKED_ENCODING_READ
  | RANDOM_ENCODING_READ
  | READING_CONTENT_LENGTH
  | READING_ENCODING

datatype request_state =
    ERRORED
  | EXPECT_METHOD
  | EXPECT_SP_AFTER_METHOD
  | EXPECT_REQUEST_TARGET
  | EXPECT_STATIC_STR_AFTER_TARGET
  | EXPECT_VERSION
  | EXPECT_CRLF_AFTER_VERSION
  | EXPECT_FIELD_NAME
  | EXPECT_COLON
  | EXPECT_OWS_AFTER_COLON
  | EXPECT_FIELD_VALUE
  | EXPECT_CRLF_AFTER_FIELD_VALUE
  | EXPECT_CRLF_AFTER_HEADERS
  | EXPECT_BODY
  | EXPECT_END_OF_BODY
  | EXPECT_END_OF_MESSAGE
  | EXPECT_CHUNK_SIZE
  | EXPECT_CHUNK_EXT
  | EXPECT_CRLF_AFTER_CHUNK_EXT
  | EXPECT_CHUNK_DATA
  | EXPECT_CRLF_AFTER_CHUNK_DATA
  | EXPECT_TRAILER_NAME
  | EXPECT_TRAILER_COLON
  | EXPECT_OWS_AFTER_TRAILER_COLON
  | EXPECT_TRAILER_VALUE
  | EXPECT_CRLF_AFTER_TRAILER_VALUE
  | EXPECT_CRLF_AFTER_TRAILERS

record request = "(request_state, request_body_type) reader" +
  rq_version :: request_version

definition new_request :: "request_version \<Rightarrow> u64 \<Rightarrow> request" where
  "new_request v body_size =
     \<lparr>r_state = EXPECT_METHOD, r_body = NO_BODY, r_body_size = body_size, r_code = Error_insufficient_data,
      r_idx = 0, r_tok = 0, r_buf = [], rq_version = v\<rparr>"

definition request_reset :: "request \<Rightarrow> request" where
  "request_reset r =
     r\<lparr>r_body := NO_BODY, r_state := EXPECT_METHOD, r_code := Error_insufficient_data,
       r_idx := 0, r_tok := 0, r_buf := []\<rparr>"

definition request_expected_token :: "request \<Rightarrow> token_code" where
  "request_expected_token r =
     (case r_state r of
        ERRORED \<Rightarrow> r_code r
      | EXPECT_METHOD \<Rightarrow> Method
      | EXPECT_REQUEST_TARGET \<Rightarrow> Request_target
      | EXPECT_VERSION \<Rightarrow> Version
      | EXPECT_FIELD_NAME \<Rightarrow> Field_name
      | EXPECT_TRAILER_NAME \<Rightarrow> Field_name
      | EXPECT_FIELD_VALUE \<Rightarrow> Field_value
      | EXPECT_TRAILER_VALUE \<Rightarrow> Field_value
      | EXPECT_BODY \<Rightarrow> Body_chunk
      | EXPECT_CHUNK_DATA \<Rightarrow> Body_chunk
      | EXPECT_END_OF_BODY \<Rightarrow> End_of_body
      | EXPECT_END_OF_MESSAGE \<Rightarrow> End_of_message
      | _ \<Rightarrow> Skip)"

definition request_body_types :: "request_body_type body_types" where
  "request_body_types =
     \<lparr>bt_content_length_read = CONTENT_LENGTH_READ, bt_chunked_encoding_read = CHUNKED_ENCODING_READ,
      bt_random_encoding_read = RANDOM_ENCODING_READ, bt_reading_content_length = READING_CONTENT_LENGTH,
      bt_reading_encoding = READING_ENCODING\<rparr>"

section \<open>The cases of \<open>next()\<close> that only requests have\<close>

text \<open>\<open>" HTTP/1."\<close>.\<close>

definition static_str_after_target :: bytes where
  "static_str_after_target = asc '' HTTP/1.''"

definition request_version_case :: "request \<Rightarrow> request" where
  "request_version_case r =
     (let c = r_buf r ! r_idx r
      in if c < 0x30 \<or> 0x39 < c then refuse ERRORED Error_invalid_data r
         else let r = accept EXPECT_CRLF_AFTER_VERSION Version 1 r
              in r\<lparr>rq_version := (if version_of r = 0 then HTTP_1_0 else NOT_HTTP_1_0_AND_HOST_NOT_READ)\<rparr>)"

definition request_host :: "request \<Rightarrow> request" where
  "request_host r =
     (case rq_version r of
        HTTP_1_0 \<Rightarrow> r
      | NOT_HTTP_1_0_AND_HOST_NOT_READ \<Rightarrow> r\<lparr>rq_version := NOT_HTTP_1_0_AND_HOST_READ\<rparr>
      | NOT_HTTP_1_0_AND_HOST_READ \<Rightarrow> refuse ERRORED Error_no_host r)"

definition request_transfer_encoding :: "request \<Rightarrow> request step" where
  "request_transfer_encoding r =
     (case r_body r of
        CONTENT_LENGTH_READ \<Rightarrow> Ret (r\<lparr>r_body := READING_ENCODING\<rparr>)
      | NO_BODY \<Rightarrow> Ret (r\<lparr>r_body := READING_ENCODING\<rparr>)
      | RANDOM_ENCODING_READ \<Rightarrow> Ret (r\<lparr>r_body := READING_ENCODING\<rparr>)
      | CHUNKED_ENCODING_READ \<Rightarrow> Ret (refuse ERRORED Error_invalid_transfer_encoding r)
      | _ \<Rightarrow> Undefined)"

definition request_content_length :: "request \<Rightarrow> request step" where
  "request_content_length r =
     (case r_body r of
        NO_BODY \<Rightarrow> Ret (r\<lparr>r_body := READING_CONTENT_LENGTH\<rparr>)
      | CONTENT_LENGTH_READ \<Rightarrow> Ret (refuse ERRORED Error_invalid_content_length r)
      | CHUNKED_ENCODING_READ \<Rightarrow> Ret r
      | RANDOM_ENCODING_READ \<Rightarrow> Ret r
      | _ \<Rightarrow> Undefined)"

definition request_field_name :: "(bytes \<Rightarrow> bytes \<Rightarrow> bool) \<Rightarrow> request \<Rightarrow> request step" where
  "request_field_name ieq r =
     (let nmatched = field_name_match (rest_view r)
      in if nmatched = 0 then Ret_next (r\<lparr>r_state := EXPECT_CRLF_AFTER_HEADERS\<rparr>)
         else if nmatched = length (rest_view r) then Ret r
         else let r = accept EXPECT_COLON Field_name nmatched r;
                  field = token_view r
              in if ieq field (asc ''Host'') then Ret (request_host r)
                 else if ieq field (asc ''Transfer-Encoding'') then request_transfer_encoding r
                 else if ieq field (asc ''Content-Length'') then request_content_length r
                 else Ret r)"

text \<open>What follows the empty line, once its size is in \<open>token_size_\<close>.\<close>

definition request_end_of_headers :: "request \<Rightarrow> request step" where
  "request_end_of_headers r =
     (if rq_version r = NOT_HTTP_1_0_AND_HOST_NOT_READ then Ret (refuse ERRORED Error_no_host r)
      else case r_body r of
          RANDOM_ENCODING_READ \<Rightarrow> Ret (refuse ERRORED Error_invalid_transfer_encoding r)
        | NO_BODY \<Rightarrow> Ret (r\<lparr>r_state := EXPECT_END_OF_BODY, r_code := End_of_headers\<rparr>)
        | CHUNKED_ENCODING_READ \<Rightarrow> Ret (r\<lparr>r_state := EXPECT_CHUNK_SIZE, r_code := End_of_headers\<rparr>)
        | CONTENT_LENGTH_READ \<Rightarrow>
            Ret (r\<lparr>r_state := (if r_body_size r = 0 then EXPECT_END_OF_BODY else EXPECT_BODY),
                   r_code := End_of_headers\<rparr>)
        | _ \<Rightarrow> Undefined)"

definition request_crlf_after_headers :: "request \<Rightarrow> request step" where
  "request_crlf_after_headers r =
     (case liberal_crlf_match (rest_view r) of
        Crlf \<Rightarrow> request_end_of_headers (r\<lparr>r_tok := 2\<rparr>)
      | Lf \<Rightarrow> request_end_of_headers (r\<lparr>r_tok := 1\<rparr>)
      | Insufficient_data \<Rightarrow> Ret r
      | Invalid_data \<Rightarrow> Ret (refuse ERRORED Error_invalid_data r))"

section \<open>\<open>next()\<close>\<close>

text \<open>The cases of the trailers and of the data of chunks repeat those of the headers and the body with other states.\<close>

abbreviation request_crlf_after_value_case :: "request \<Rightarrow> request step" where
  "request_crlf_after_value_case r \<equiv> Ret (liberal_line ERRORED EXPECT_FIELD_NAME r)"

abbreviation request_chunk_data_case :: "request \<Rightarrow> request step" where
  "request_chunk_data_case r \<equiv> Ret (body_data EXPECT_CRLF_AFTER_CHUNK_DATA r)"

abbreviation request_trailer_colon_case :: "request \<Rightarrow> request step" where
  "request_trailer_colon_case r \<equiv> Ret (colon ERRORED EXPECT_OWS_AFTER_TRAILER_COLON EXPECT_TRAILER_VALUE r)"

abbreviation request_ows_after_trailer_colon_case :: "request \<Rightarrow> request step" where
  "request_ows_after_trailer_colon_case r \<equiv> ows_after_colon EXPECT_TRAILER_VALUE r"

abbreviation request_crlf_after_trailer_value_case :: "request \<Rightarrow> request step" where
  "request_crlf_after_trailer_value_case r \<equiv> Ret (strict_line ERRORED EXPECT_TRAILER_NAME Skip r)"

definition request_handler :: "(bytes \<Rightarrow> bytes \<Rightarrow> bool) \<Rightarrow> request \<Rightarrow> request step" where
  "request_handler ieq r =
     (case r_state r of
        EXPECT_METHOD \<Rightarrow> Ret (scan_token is_tchar ERRORED EXPECT_SP_AFTER_METHOD Method r)
      | EXPECT_SP_AFTER_METHOD \<Rightarrow> Ret (single is_sp ERRORED EXPECT_REQUEST_TARGET Skip r)
      | EXPECT_REQUEST_TARGET \<Rightarrow>
          Ret (scan_token is_request_target_char ERRORED EXPECT_STATIC_STR_AFTER_TARGET Request_target r)
      | EXPECT_STATIC_STR_AFTER_TARGET \<Rightarrow> Ret (match_string static_str_after_target ERRORED EXPECT_VERSION r)
      | EXPECT_VERSION \<Rightarrow> Ret (request_version_case r)
      | EXPECT_CRLF_AFTER_VERSION \<Rightarrow> Ret (liberal_line ERRORED EXPECT_FIELD_NAME r)
      | EXPECT_FIELD_NAME \<Rightarrow> request_field_name ieq r
      | EXPECT_COLON \<Rightarrow> Ret (colon ERRORED EXPECT_OWS_AFTER_COLON EXPECT_FIELD_VALUE r)
      | EXPECT_OWS_AFTER_COLON \<Rightarrow> ows_after_colon EXPECT_FIELD_VALUE r
      | EXPECT_FIELD_VALUE \<Rightarrow> field_value ieq ERRORED EXPECT_CRLF_AFTER_FIELD_VALUE request_body_types r
      | EXPECT_CRLF_AFTER_FIELD_VALUE \<Rightarrow> request_crlf_after_value_case r
      | EXPECT_CRLF_AFTER_HEADERS \<Rightarrow> request_crlf_after_headers r
      | EXPECT_BODY \<Rightarrow> Ret (body_data EXPECT_END_OF_BODY r)
      | EXPECT_CHUNK_SIZE \<Rightarrow> Ret (chunk_size ERRORED EXPECT_CHUNK_EXT r)
      | EXPECT_CHUNK_EXT \<Rightarrow> chunk_ext ERRORED EXPECT_CRLF_AFTER_CHUNK_EXT r
      | EXPECT_CRLF_AFTER_CHUNK_EXT \<Rightarrow> Ret (crlf_after_chunk_ext ERRORED EXPECT_CHUNK_DATA EXPECT_TRAILER_NAME r)
      | EXPECT_CHUNK_DATA \<Rightarrow> request_chunk_data_case r
      | EXPECT_CRLF_AFTER_CHUNK_DATA \<Rightarrow> Ret (strict_line ERRORED EXPECT_CHUNK_SIZE Skip r)
      | EXPECT_TRAILER_NAME \<Rightarrow> trailer_name EXPECT_CRLF_AFTER_TRAILERS EXPECT_TRAILER_COLON r
      | EXPECT_TRAILER_COLON \<Rightarrow> request_trailer_colon_case r
      | EXPECT_OWS_AFTER_TRAILER_COLON \<Rightarrow> request_ows_after_trailer_colon_case r
      | EXPECT_TRAILER_VALUE \<Rightarrow>
          Ret (match_token left_trimmed_field_value_match EXPECT_CRLF_AFTER_TRAILER_VALUE Field_value r)
      | EXPECT_CRLF_AFTER_TRAILER_VALUE \<Rightarrow> request_crlf_after_trailer_value_case r
      | EXPECT_CRLF_AFTER_TRAILERS \<Rightarrow> Ret (end_of_trailers ERRORED EXPECT_METHOD NO_BODY r)
      | EXPECT_END_OF_BODY \<Rightarrow> Undefined
      | EXPECT_END_OF_MESSAGE \<Rightarrow> Undefined
      | ERRORED \<Rightarrow> Undefined)"

text \<open>The states a case can hand over to with \<open>return next()\<close> come after it in this order.\<close>

definition request_handover :: "request_state \<Rightarrow> nat" where
  "request_handover s =
     (if s \<in> {EXPECT_FIELD_NAME, EXPECT_OWS_AFTER_COLON, EXPECT_CHUNK_EXT, EXPECT_TRAILER_NAME,
              EXPECT_OWS_AFTER_TRAILER_COLON} then 1 else 0)"

lemma request_handler_handover:
  "request_handler ieq r = Ret_next r' \<Longrightarrow> request_handover (r_state r') < request_handover (r_state r)"
  by (auto simp: request_handler_def request_handover_def request_field_name_def ows_after_colon_def
      chunk_ext_def trailer_name_def field_value_def request_crlf_after_headers_def
      request_end_of_headers_def request_transfer_encoding_def request_content_length_def Let_def
      split: request_state.splits if_splits option.splits liberal_crlf_result.splits request_body_type.splits)

text \<open>The result is \<open>None\<close> when the call is undefined.\<close>

function request_next :: "(bytes \<Rightarrow> bytes \<Rightarrow> bool) \<Rightarrow> request \<Rightarrow> request option" where
  "request_next ieq r =
     (if r_state r = ERRORED then Some r
      else if r_state r = EXPECT_END_OF_BODY then
        Some (r\<lparr>r_state := EXPECT_END_OF_MESSAGE, r_code := End_of_body, r_idx := r_idx r + r_tok r, r_tok := 0\<rparr>)
      else if r_state r = EXPECT_END_OF_MESSAGE then
        Some (r\<lparr>r_body := NO_BODY, r_state := EXPECT_METHOD, r_code := End_of_message,
                r_idx := r_idx r + r_tok r, r_tok := 0\<rparr>)
      else if r_idx (advance r) = length (r_buf r) then Some (advance r)
      else case request_handler ieq (advance r) of
          Ret r' \<Rightarrow> Some r'
        | Ret_next r' \<Rightarrow> request_next ieq r'
        | Undefined \<Rightarrow> None)"
  by pat_completeness auto
termination
  by (relation "measure (\<lambda>(ieq, r). request_handover (r_state r))")
     (auto dest: request_handler_handover simp: advance_def split: if_splits)

declare request_next.simps [simp del]

section \<open>The invariant of the reader\<close>

text \<open>
  What holds of a reader between two calls: the cursor is inside the buffer; a token is only
  half read in the states that keep a partial token; the \<open>READING_*\<close> body types exist between a
  field name and its value only; no body type is set before the headers; a body or a chunk that is
  being read has bytes left.
\<close>

definition request_ok :: "request \<Rightarrow> bool" where
  "request_ok r \<longleftrightarrow> cursor_ok r
    \<and> (if r_state r = ERRORED then \<not> is_token (r_code r) \<and> r_code r \<noteq> Error_insufficient_data
       else is_token (r_code r) \<or> r_code r = Error_insufficient_data)
    \<and> (r_code r = Error_insufficient_data \<longrightarrow> r_tok r = 0 \<or>
        r_state r \<in> {EXPECT_METHOD, EXPECT_REQUEST_TARGET, EXPECT_STATIC_STR_AFTER_TARGET, EXPECT_CHUNK_EXT})
    \<and> (r_body r \<in> {READING_CONTENT_LENGTH, READING_ENCODING} \<longrightarrow>
        r_state r \<in> {ERRORED, EXPECT_COLON, EXPECT_OWS_AFTER_COLON, EXPECT_FIELD_VALUE})
    \<and> (r_state r \<in> {EXPECT_METHOD, EXPECT_SP_AFTER_METHOD, EXPECT_REQUEST_TARGET,
          EXPECT_STATIC_STR_AFTER_TARGET, EXPECT_VERSION, EXPECT_CRLF_AFTER_VERSION} \<longrightarrow> r_body r = NO_BODY)
    \<and> (r_state r \<in> {EXPECT_BODY, EXPECT_CHUNK_DATA} \<longrightarrow> r_body_size r \<noteq> 0)"

text \<open>The reader is about to decode an empty field value with no byte in front that stops the loop.\<close>

definition reads_in_front :: "request \<Rightarrow> bool" where
  "reads_in_front r \<longleftrightarrow>
     (let r = advance r
      in (r_state r = EXPECT_FIELD_VALUE \<or> r_state r = EXPECT_OWS_AFTER_COLON \<and> ows_match (rest_view r) = 0)
         \<and> r_idx r < length (r_buf r)
         \<and> left_trimmed_field_value_match (rest_view r) = 0
         \<and> list_all is_ows (take (r_idx r) (r_buf r)))"

text \<open>A reader in front of a case of \<open>next()\<close>.\<close>

definition request_ready :: "request \<Rightarrow> bool" where
  "request_ready r \<longleftrightarrow> request_ok r \<and> r_code r = Error_insufficient_data \<and> r_idx r < length (r_buf r)
     \<and> r_state r \<notin> {ERRORED, EXPECT_END_OF_BODY, EXPECT_END_OF_MESSAGE}"

definition request_rank :: "request_state \<Rightarrow> nat" where
  "request_rank s =
     (case s of EXPECT_END_OF_BODY \<Rightarrow> 2 | EXPECT_END_OF_MESSAGE \<Rightarrow> 1
      | EXPECT_OWS_AFTER_COLON \<Rightarrow> 1 | EXPECT_FIELD_VALUE \<Rightarrow> 1
      | EXPECT_OWS_AFTER_TRAILER_COLON \<Rightarrow> 1 | EXPECT_TRAILER_VALUE \<Rightarrow> 1 | _ \<Rightarrow> 0)"

text \<open>What a case of \<open>next()\<close> promises.\<close>

definition request_case_ok :: "request \<Rightarrow> request step \<Rightarrow> bool" where
  "request_case_ok r st =
     (case st of
        Ret r' \<Rightarrow> request_ok r' \<and> r_buf r' = r_buf r \<and> r_idx r' = r_idx r
          \<and> (is_token (r_code r') \<longrightarrow> request_rank (r_state r') < 3 * r_tok r' + request_rank (r_state r))
      | Ret_next r' \<Rightarrow> request_ready r' \<and> r_buf r' = r_buf r \<and> r_idx r' = r_idx r \<and> r_body r' = r_body r
          \<and> request_rank (r_state r') \<le> request_rank (r_state r)
          \<and> r_state r' \<in> {EXPECT_CRLF_AFTER_HEADERS, EXPECT_CRLF_AFTER_CHUNK_EXT, EXPECT_FIELD_VALUE,
               EXPECT_TRAILER_VALUE, EXPECT_CRLF_AFTER_TRAILERS}
          \<and> (r_state r' = EXPECT_FIELD_VALUE \<longrightarrow> r_state r = EXPECT_OWS_AFTER_COLON \<and> ows_match (rest_view r) = 0)
      | Undefined \<Rightarrow> reads_in_front r)"

lemma request_readyD:
  "request_ready r \<Longrightarrow> cursor_ok r \<and> r_code r = Error_insufficient_data \<and> r_idx r < length (r_buf r) \<and> advance r = r"
  by (simp add: request_ready_def request_ok_def advance_def)

lemmas request_invariant_defs =
  request_case_ok_def request_ready_def request_ok_def cursor_ok_def request_rank_def

lemma request_field_nameE:
  obtains (empty) "request_field_name ieq r = Ret_next (r\<lparr>r_state := EXPECT_CRLF_AFTER_HEADERS\<rparr>)"
  | (more) "request_field_name ieq r = Ret r"
  | (host) n where "request_field_name ieq r = Ret (request_host (accept EXPECT_COLON Field_name n r))"
      "0 < n" "n < length (rest_view r)" "ieq (take n (rest_view r)) (asc ''Host'')"
  | (coding) n where "request_field_name ieq r = request_transfer_encoding (accept EXPECT_COLON Field_name n r)"
      "0 < n" "n < length (rest_view r)" "ieq (take n (rest_view r)) (asc ''Transfer-Encoding'')"
  | (content_length) n where "request_field_name ieq r = request_content_length (accept EXPECT_COLON Field_name n r)"
      "0 < n" "n < length (rest_view r)" "ieq (take n (rest_view r)) (asc ''Content-Length'')"
  | (other) n where "request_field_name ieq r = Ret (accept EXPECT_COLON Field_name n r)"
      "0 < n" "n < length (rest_view r)"
proof -
  let ?n = "field_name_match (rest_view r)"
  have le: "?n \<le> length (rest_view r)"
    by (simp add: field_name_match_def del: length_rest_view)
  consider "?n = 0" | "?n \<noteq> 0" "?n = length (rest_view r)" | "?n \<noteq> 0" "?n < length (rest_view r)"
    using le by linarith
  then show thesis
  proof cases
    case 1
    then show ?thesis using empty by (simp add: request_field_name_def)
  next
    case 2
    then have "request_field_name ieq r = Ret r"
      unfolding request_field_name_def Let_def by (simp del: length_rest_view)
    then show ?thesis by (rule more)
  next
    case 3
    have "token_view (accept EXPECT_COLON Field_name ?n r) = take ?n (rest_view r)"
      by (simp add: token_view_def rest_view_def)
    with 3 have "request_field_name ieq r =
       (if ieq (take ?n (rest_view r)) (asc ''Host'') then Ret (request_host (accept EXPECT_COLON Field_name ?n r))
        else if ieq (take ?n (rest_view r)) (asc ''Transfer-Encoding'')
          then request_transfer_encoding (accept EXPECT_COLON Field_name ?n r)
        else if ieq (take ?n (rest_view r)) (asc ''Content-Length'')
          then request_content_length (accept EXPECT_COLON Field_name ?n r)
        else Ret (accept EXPECT_COLON Field_name ?n r))"
      unfolding request_field_name_def Let_def by (simp del: length_rest_view)
    with 3 show ?thesis
      using host [of ?n] coding [of ?n] content_length [of ?n] other [of ?n] by (auto split: if_splits)
  qed
qed

lemma request_host_ok:
  assumes "request_ready r" and "r_state r = EXPECT_FIELD_NAME" and "0 < n" and "n < length (rest_view r)"
  shows "request_case_ok r (Ret (request_host (accept EXPECT_COLON Field_name n r)))"
    and "request_case_ok r (request_transfer_encoding (accept EXPECT_COLON Field_name n r))"
    and "request_case_ok r (request_content_length (accept EXPECT_COLON Field_name n r))"
    and "request_case_ok r (Ret (accept EXPECT_COLON Field_name n r))"
  using assms
  by (auto simp: request_invariant_defs request_host_def request_transfer_encoding_def
      request_content_length_def split: request_version.splits request_body_type.splits)

lemma request_handler_ok:
  assumes "request_ready r"
  shows "request_case_ok r (request_handler ieq r)"
proof -
  have c: "cursor_ok r" and i: "r_idx r < length (r_buf r)" and code: "r_code r = Error_insufficient_data"
    using request_readyD [OF assms] by auto
  note rdy = assms [unfolded request_ready_def request_ok_def cursor_ok_def]
  note inv = request_handler_def request_invariant_defs
  show ?thesis
  proof (cases "r_state r")
    case EXPECT_METHOD
    with rdy show ?thesis
      by (cases rule: scan_tokenE [OF c, of is_tchar ERRORED EXPECT_SP_AFTER_METHOD Method]) (simp_all add: inv)
  next
    case EXPECT_SP_AFTER_METHOD
    with rdy show ?thesis
      by (cases rule: singleE [of is_sp ERRORED EXPECT_REQUEST_TARGET Skip r]) (simp_all add: inv)
  next
    case EXPECT_REQUEST_TARGET
    with rdy show ?thesis
      by (cases rule: scan_tokenE [OF c, of is_request_target_char ERRORED EXPECT_STATIC_STR_AFTER_TARGET Request_target])
        (simp_all add: inv)
  next
    case EXPECT_STATIC_STR_AFTER_TARGET
    with rdy show ?thesis
      by (cases rule: match_stringE [OF c, of static_str_after_target ERRORED EXPECT_VERSION]) (auto simp: inv static_str_after_target_def)
  next
    case EXPECT_VERSION
    with rdy show ?thesis
      by (simp add: inv request_version_case_def Let_def)
  next
    case EXPECT_CRLF_AFTER_VERSION
    with rdy show ?thesis
      by (cases rule: liberal_lineE [of ERRORED EXPECT_FIELD_NAME r]) (simp_all add: inv)
  next
    case EXPECT_COLON
    with rdy show ?thesis
      by (cases rule: colonE [OF i, of ERRORED EXPECT_OWS_AFTER_COLON EXPECT_FIELD_VALUE]) (auto simp: inv)
  next
    case EXPECT_CRLF_AFTER_FIELD_VALUE
    with rdy show ?thesis
      by (cases rule: liberal_lineE [of ERRORED EXPECT_FIELD_NAME r]) (simp_all add: inv)
  next
    case EXPECT_BODY
    with rdy body_data_simps [of r EXPECT_END_OF_BODY] show ?thesis
      by (simp add: inv split: if_splits)
  next
    case EXPECT_CHUNK_DATA
    with rdy body_data_simps [of r EXPECT_CRLF_AFTER_CHUNK_DATA] show ?thesis
      by (simp add: inv split: if_splits)
  next
    case EXPECT_CHUNK_SIZE
    with rdy show ?thesis
      by (cases rule: chunk_sizeE [of ERRORED EXPECT_CHUNK_EXT r]) (auto simp: inv)
  next
    case EXPECT_CHUNK_EXT
    with rdy show ?thesis
      by (cases rule: chunk_extE [OF c, of ERRORED EXPECT_CRLF_AFTER_CHUNK_EXT]) (auto simp: inv)
  next
    case EXPECT_CRLF_AFTER_CHUNK_EXT
    with rdy show ?thesis
      by (cases rule: strict_lineE [of ERRORED "if r_body_size r \<noteq> 0 then EXPECT_CHUNK_DATA else EXPECT_TRAILER_NAME"
             "if r_body_size r \<noteq> 0 then Skip else End_of_body" r])
        (auto simp: inv crlf_after_chunk_ext_def split: if_splits)
  next
    case EXPECT_CRLF_AFTER_CHUNK_DATA
    with rdy show ?thesis
      by (cases rule: strict_lineE [of ERRORED EXPECT_CHUNK_SIZE Skip r]) (simp_all add: inv)
  next
    case EXPECT_TRAILER_NAME
    with rdy show ?thesis
      by (cases rule: trailer_nameE [of EXPECT_CRLF_AFTER_TRAILERS EXPECT_TRAILER_COLON r]) (auto simp: inv)
  next
    case EXPECT_TRAILER_COLON
    with rdy show ?thesis
      by (cases rule: colonE [OF i, of ERRORED EXPECT_OWS_AFTER_TRAILER_COLON EXPECT_TRAILER_VALUE]) (auto simp: inv)
  next
    case EXPECT_OWS_AFTER_COLON
    with rdy show ?thesis
      by (cases rule: ows_after_colonE [of EXPECT_FIELD_VALUE r]) (auto simp: inv)
  next
    case EXPECT_OWS_AFTER_TRAILER_COLON
    with rdy show ?thesis
      by (cases rule: ows_after_colonE [of EXPECT_TRAILER_VALUE r]) (auto simp: inv)
  next
    case EXPECT_TRAILER_VALUE
    with rdy show ?thesis
      by (cases rule: match_tokenE [OF field_value_match_le, of EXPECT_CRLF_AFTER_TRAILER_VALUE Field_value r])
        (auto simp: inv)
  next
    case EXPECT_CRLF_AFTER_TRAILER_VALUE
    with rdy show ?thesis
      by (cases rule: strict_lineE [of ERRORED EXPECT_TRAILER_NAME Skip r]) (simp_all add: inv)
  next
    case EXPECT_CRLF_AFTER_TRAILERS
    with rdy code show ?thesis
      by (cases rule: strict_lineE [of ERRORED EXPECT_METHOD End_of_message r])
        (simp_all add: inv end_of_trailers_def Let_def)
  next
    case EXPECT_FIELD_VALUE
    with rdy show ?thesis
      by (cases rule: field_valueE [of ieq ERRORED EXPECT_CRLF_AFTER_FIELD_VALUE request_body_types r])
        (auto simp: inv request_body_types_def reads_in_front_def advance_def)
  next
    case EXPECT_CRLF_AFTER_HEADERS
    with rdy show ?thesis
      by (auto simp: inv request_crlf_after_headers_def request_end_of_headers_def dest!: liberal_crlf_room
          split: liberal_crlf_result.splits request_body_type.splits if_splits)
  next
    case EXPECT_FIELD_NAME
    then have h: "request_handler ieq r = request_field_name ieq r"
      by (simp add: request_handler_def)
    note named = request_host_ok [OF assms EXPECT_FIELD_NAME]
    show ?thesis
    proof (cases rule: request_field_nameE [of ieq r])
      case empty
      with rdy EXPECT_FIELD_NAME show ?thesis by (simp add: inv)
    next
      case more
      with rdy EXPECT_FIELD_NAME show ?thesis by (simp add: inv)
    qed (simp_all add: h named)
  qed (use rdy in simp_all)
qed

section \<open>One call of \<open>next()\<close>\<close>

lemma request_advance_idx: "request_ok r \<Longrightarrow> r_state r \<noteq> ERRORED \<Longrightarrow> r_idx (advance r) = consumed r"
  by (auto simp: request_ok_def advance_def consumed_def)

lemma request_advance_ready:
  assumes "request_ok r" and "r_state r \<notin> {ERRORED, EXPECT_END_OF_BODY, EXPECT_END_OF_MESSAGE}"
    and "r_idx (advance r) \<noteq> length (r_buf r)"
  shows "request_ready (advance r)"
proof (cases "r_code r = Error_insufficient_data")
  case True
  then have "advance r = r"
    by (simp add: advance_def)
  with assms True show ?thesis
    by (simp add: request_ready_def request_ok_def cursor_ok_def)
next
  case False
  then have "advance r = r\<lparr>r_idx := r_idx r + r_tok r, r_tok := 0, r_code := Error_insufficient_data\<rparr>"
    by (simp add: advance_def)
  with assms show ?thesis
    by (simp add: request_ready_def request_ok_def cursor_ok_def)
qed

text \<open>A call that hands over to the next case does what that case does.\<close>

lemma request_next_ready:
  assumes "request_ready r"
  shows "request_next ieq r =
    (case request_handler ieq r of Ret r' \<Rightarrow> Some r' | Ret_next r' \<Rightarrow> request_next ieq r' | Undefined \<Rightarrow> None)"
  using assms request_readyD [OF assms] by (subst request_next.simps) (auto simp: request_ready_def)

text \<open>The result of a call, in one case distinction.\<close>

lemma request_next_result:
  assumes "request_ready r"
  shows "case request_next ieq r of
      None \<Rightarrow> reads_in_front r
    | Some r' \<Rightarrow> request_ok r' \<and> r_buf r' = r_buf r \<and> r_idx r' = r_idx r
        \<and> (is_token (r_code r') \<longrightarrow> request_rank (r_state r') < 3 * r_tok r' + request_rank (r_state r))"
proof (cases "request_handler ieq r")
  case (Ret r')
  with request_handler_ok [OF assms, of ieq] show ?thesis
    by (simp add: request_next_ready [OF assms] request_case_ok_def)
next
  case Undefined
  with request_handler_ok [OF assms, of ieq] show ?thesis
    by (simp add: request_next_ready [OF assms] request_case_ok_def)
next
  case (Ret_next r1)
  have 1: "request_ready r1" "r_buf r1 = r_buf r" "r_idx r1 = r_idx r"
    and st: "r_state r1 \<in> {EXPECT_CRLF_AFTER_HEADERS, EXPECT_CRLF_AFTER_CHUNK_EXT, EXPECT_FIELD_VALUE,
               EXPECT_TRAILER_VALUE, EXPECT_CRLF_AFTER_TRAILERS}"
    and fv: "r_state r1 = EXPECT_FIELD_VALUE \<longrightarrow> r_state r = EXPECT_OWS_AFTER_COLON \<and> ows_match (rest_view r) = 0"
    using request_handler_ok [OF assms, of ieq] Ret_next by (simp_all add: request_case_ok_def)
  have eq: "request_next ieq r = request_next ieq r1"
    using Ret_next by (simp add: request_next_ready [OF assms])
  have adv: "advance r = r" "advance r1 = r1"
    using request_readyD [OF assms] request_readyD [OF 1(1)] by simp_all
  have rank: "request_rank (r_state r1) \<le> request_rank (r_state r)"
    using request_handler_ok [OF assms, of ieq] Ret_next by (simp add: request_case_ok_def)
  show ?thesis
  proof (cases "request_handler ieq r1")
    case (Ret r')
    with request_handler_ok [OF 1(1), of ieq] 1 rank show ?thesis
      by (auto simp: eq request_next_ready [OF 1(1)] request_case_ok_def)
  next
    case Undefined
    with request_handler_ok [OF 1(1), of ieq] 1 adv fv st show ?thesis
      by (auto simp: eq request_next_ready [OF 1(1)] request_case_ok_def reads_in_front_def Let_def rest_view_def)
  next
    case (Ret_next r2)
    then show ?thesis
      using request_handler_handover [OF Ret_next] st by (auto simp: request_handover_def)
  qed
qed

lemma request_next_early:
  "r_state r = ERRORED \<Longrightarrow> request_next ieq r = Some r"
  "r_state r = EXPECT_END_OF_BODY \<Longrightarrow> request_next ieq r =
     Some (r\<lparr>r_state := EXPECT_END_OF_MESSAGE, r_code := End_of_body, r_idx := r_idx r + r_tok r, r_tok := 0\<rparr>)"
  "r_state r = EXPECT_END_OF_MESSAGE \<Longrightarrow> request_next ieq r =
     Some (r\<lparr>r_body := NO_BODY, r_state := EXPECT_METHOD, r_code := End_of_message,
             r_idx := r_idx r + r_tok r, r_tok := 0\<rparr>)"
  by (simp_all add: request_next.simps [of ieq r])

lemma request_next_later:
  assumes "r_state r \<notin> {ERRORED, EXPECT_END_OF_BODY, EXPECT_END_OF_MESSAGE}"
  shows "request_next ieq r = (if r_idx (advance r) = length (r_buf r) then Some (advance r) else request_next ieq (advance r))"
proof -
  have "advance (advance r) = advance r"
    by (simp add: advance_def)
  with assms show ?thesis
    by (simp add: request_next.simps [of ieq r] request_next.simps [of ieq "advance r"])
qed

lemma reads_in_front_advance: "reads_in_front (advance r) \<longleftrightarrow> reads_in_front r"
  by (simp add: reads_in_front_def advance_def Let_def)

lemma request_next_some:
  assumes "request_ok r" and "request_next ieq r = Some r'"
  shows "request_ok r' \<and> r_buf r' = r_buf r
    \<and> (is_token (r_code r') \<longrightarrow> r_idx r' = consumed r \<and> request_rank (r_state r') < 3 * r_tok r' + request_rank (r_state r))"
proof -
  consider (errored) "r_state r = ERRORED" | (body) "r_state r = EXPECT_END_OF_BODY"
    | (message) "r_state r = EXPECT_END_OF_MESSAGE"
    | (drained) "r_state r \<notin> {ERRORED, EXPECT_END_OF_BODY, EXPECT_END_OF_MESSAGE}" "r_idx (advance r) = length (r_buf r)"
    | (ready) "r_state r \<notin> {ERRORED, EXPECT_END_OF_BODY, EXPECT_END_OF_MESSAGE}" "request_ready (advance r)"
    using request_advance_ready [OF assms(1)] by blast
  then show ?thesis
  proof cases
    case ready
    then have "request_next ieq (advance r) = Some r'"
      using assms(2) request_readyD [OF ready(2)] by (simp add: request_next_later [OF ready(1)])
    with request_next_result [OF ready(2), of ieq] ready(1) request_advance_idx [OF assms(1)] show ?thesis
      by auto
  next
    case drained
    then have "r' = advance r"
      using assms(2) by (simp add: request_next_later [OF drained(1)])
    moreover have "request_ok (advance r)"
      using assms(1) drained by (auto simp: request_ok_def advance_def cursor_ok_def split: if_splits)
    ultimately show ?thesis
      by simp
  next
    case errored
    with assms have "r' = r" "\<not> is_token (r_code r)"
      by (simp_all add: request_next_early request_ok_def)
    with assms(1) show ?thesis
      by simp
  next
    case body
    then have "r' = r\<lparr>r_state := EXPECT_END_OF_MESSAGE, r_code := End_of_body, r_idx := r_idx r + r_tok r, r_tok := 0\<rparr>"
      using assms(2) by (simp add: request_next_early)
    moreover have "consumed r = r_idx r + r_tok r"
      using assms(1) body by (auto simp: request_ok_def consumed_def)
    ultimately show ?thesis
      using assms(1) body by (simp add: request_ok_def cursor_ok_def request_rank_def)
  next
    case message
    then have "r' = r\<lparr>r_body := NO_BODY, r_state := EXPECT_METHOD, r_code := End_of_message,
        r_idx := r_idx r + r_tok r, r_tok := 0\<rparr>"
      using assms(2) by (simp add: request_next_early)
    moreover have "consumed r = r_idx r + r_tok r"
      using assms(1) message by (auto simp: request_ok_def consumed_def)
    ultimately show ?thesis
      using assms(1) message by (simp add: request_ok_def cursor_ok_def request_rank_def)
  qed
qed

text \<open>The request reader is a token reader.\<close>

lemma request_token_reader: "token_reader (request_next ieq) request_ok request_rank"
proof
  fix r r' :: request
  assume *: "request_ok r" "request_next ieq r = Some r'"
  show "request_ok r'" "r_buf r' = r_buf r"
    using request_next_some [OF *] by blast+
  assume t: "is_token (r_code r')"
  show "r_idx r' = consumed r"
    using request_next_some [OF *] t by blast
  have "cursor_ok r'"
    using request_next_some [OF *] by (simp add: request_ok_def)
  moreover have "consumed r' = consumed r + r_tok r'" "r_buf r' = r_buf r"
    "request_rank (r_state r') < 3 * r_tok r' + request_rank (r_state r)"
    using request_next_some [OF *] t by (simp_all add: consumed_def)
  ultimately show "token_measure request_rank r' < token_measure request_rank r"
    using t by (simp add: token_measure_def cursor_ok_def consumed_def [of r'])
qed (simp add: request_ok_def)

interpretation requests: token_reader "request_next ieq" request_ok request_rank for ieq
  by (rule request_token_reader)

text \<open>An empty value at the beginning of the buffer: the read in front of it.\<close>

lemma request_undefined_in_front:
  assumes front: "reads_in_front r"
  shows "request_next ieq r = None"
proof -
  let ?a = "advance r"
  from front have st: "r_state ?a = EXPECT_FIELD_VALUE \<or> r_state ?a = EXPECT_OWS_AFTER_COLON \<and> ows_match (rest_view ?a) = 0"
    and i: "r_idx ?a < length (r_buf ?a)" and m: "left_trimmed_field_value_match (rest_view ?a) = 0"
    and o: "list_all is_ows (take (r_idx ?a) (r_buf ?a))"
    by (simp_all add: reads_in_front_def Let_def)
  have u: "field_value ieq ERRORED EXPECT_CRLF_AFTER_FIELD_VALUE request_body_types (?a\<lparr>r_state := s\<rparr>) = Undefined" for s
    using i m o by (simp add: field_value_def rest_view_def field_value_of_def token_view_def decode_field_value_def)
  have n: "request_next ieq (?a\<lparr>r_state := EXPECT_FIELD_VALUE\<rparr>) = None"
    using i u [of EXPECT_FIELD_VALUE] by (subst request_next.simps) (simp add: advance_def request_handler_def)
  have "request_next ieq r = request_next ieq ?a"
    using st i by (subst request_next_later) auto
  also have "\<dots> = None"
  proof (cases "r_state ?a = EXPECT_FIELD_VALUE")
    case True
    then have "?a\<lparr>r_state := EXPECT_FIELD_VALUE\<rparr> = ?a"
      by (metis reader.surjective reader.update_convs(1) reader.select_convs(1))
    with n show ?thesis by simp
  next
    case False
    with st i n show ?thesis
      by (subst request_next.simps) (simp add: advance_def request_handler_def ows_after_colon_def)
  qed
  finally show ?thesis .
qed

text \<open>
  C1: a call of \<open>request::next\<close> on a reader in a valid state is free of undefined behaviour, leaves a
  valid state and keeps the buffer, except in one situation: an empty field value with only blanks
  (or nothing) of the buffer in front of it, where \<open>decode_field_value\<close> reads in front of the buffer.
\<close>

theorem request_next_safe:
  assumes "request_ok r"
  shows "(request_next ieq r = None \<longleftrightarrow> reads_in_front r)
    \<and> (\<not> reads_in_front r \<longrightarrow> (\<exists>r'. request_next ieq r = Some r' \<and> request_ok r' \<and> r_buf r' = r_buf r))"
proof -
  have "reads_in_front r" if none: "request_next ieq r = None"
  proof -
    have st: "r_state r \<notin> {ERRORED, EXPECT_END_OF_BODY, EXPECT_END_OF_MESSAGE}"
      using none request_next_early [of r ieq] by auto
    then have "r_idx (advance r) \<noteq> length (r_buf r)" "request_next ieq (advance r) = None"
      using none request_next_later [OF st, of ieq] by (simp_all split: if_splits)
    with request_next_result [OF request_advance_ready [OF assms st], of ieq] show ?thesis
      by (simp add: reads_in_front_advance)
  qed
  moreover have "request_next ieq r = None" if "reads_in_front r"
    by (rule request_undefined_in_front [OF that])
  moreover have "\<exists>r'. request_next ieq r = Some r' \<and> request_ok r' \<and> r_buf r' = r_buf r"
    if "request_next ieq r \<noteq> None"
    using that request_next_some [OF assms, of ieq] by auto
  ultimately show ?thesis
    by blast
qed

end

