(* ===== verification/RequestProperties.thy ===== *)
theory RequestProperties
  imports RequestReader
begin

text \<open>
  What a user of the request reader can rely on: reading ends and tiles the input, the text of
  every token is in its grammar, the framing of the body is decided as RFC 7230 asks (Host,
  Transfer-Encoding over Content-Length), and a body delivers exactly the announced bytes.
\<close>

section \<open>The case behind a call\<close>

lemma request_handler_frame:
  assumes "request_handler ieq r = Ret_next r'"
  shows "rq_version r' = rq_version r \<and> r_body r' = r_body r \<and> r_body_size r' = r_body_size r \<and> r_tok r' \<le> r_tok r"
  using assms
  by (auto simp: request_handler_def request_field_name_def ows_after_colon_def
      chunk_ext_def trailer_name_def field_value_def request_crlf_after_headers_def
      request_end_of_headers_def request_transfer_encoding_def request_content_length_def Let_def
      split: request_state.splits if_splits option.splits liberal_crlf_result.splits request_body_type.splits)

text \<open>
  A call of \<open>next\<close> is one of the early returns, or one case (perhaps after a hand-over) run on a
  reader \<open>a\<close> that has left the previous token.
\<close>

lemma request_next_case:
  assumes "request_ok r" and "request_next ieq r = Some r'"
  shows "r_state r \<in> {ERRORED, EXPECT_END_OF_BODY, EXPECT_END_OF_MESSAGE} \<or> r' = advance r
    \<or> (\<exists>a. request_handler ieq a = Ret r' \<and> request_ready a \<and> r_buf a = r_buf r \<and> r_idx a = consumed r
         \<and> r_body a = r_body r \<and> r_body_size a = r_body_size r \<and> rq_version a = rq_version r
         \<and> (a = advance r \<or> request_handler ieq (advance r) = Ret_next a))"
proof (cases "r_state r \<in> {ERRORED, EXPECT_END_OF_BODY, EXPECT_END_OF_MESSAGE} \<or> r_idx (advance r) = length (r_buf r)")
  case True
  with assms(2) show ?thesis
    using request_next_later [of r ieq] by (cases "r_state r \<in> {ERRORED, EXPECT_END_OF_BODY, EXPECT_END_OF_MESSAGE}") simp_all
next
  case False
  then have rdy: "request_ready (advance r)"
    using request_advance_ready [OF assms(1)] by blast
  have idx: "r_idx (advance r) = consumed r"
    using False request_advance_idx [OF assms(1)] by blast
  have nxt: "request_next ieq (advance r) = Some r'"
    using assms(2) False request_next_later [of r ieq] by simp
  have frame: "rq_version (advance r) = rq_version r"
    by (simp add: advance_def)
  show ?thesis
  proof (cases "request_handler ieq (advance r)")
    case (Ret r1)
    with nxt have "r1 = r'"
      by (simp add: request_next_ready [OF rdy])
    with Ret rdy idx frame show ?thesis
      by (intro disjI2 exI [of _ "advance r"]) simp
  next
    case (Ret_next a)
    with request_handler_ok [OF rdy, of ieq] have a: "request_ready a" "r_buf a = r_buf r" "r_idx a = consumed r"
      by (simp_all add: request_case_ok_def idx)
    have "request_next ieq a = Some r'"
      using nxt Ret_next by (simp add: request_next_ready [OF rdy])
    then have "request_handler ieq a = Ret r' \<or> (\<exists>b. request_handler ieq a = Ret_next b)"
      by (auto simp: request_next_ready [OF a(1)] split: step.splits)
    moreover have "request_handover (r_state a) = 0"
      using request_handler_handover [OF Ret_next] by (simp add: request_handover_def split: if_splits)
    ultimately have "request_handler ieq a = Ret r'"
      using request_handler_handover [of ieq a] by (metis less_zeroE)
    with a Ret_next request_handler_frame [OF Ret_next] frame show ?thesis
      by (intro disjI2 exI [of _ a]) simp
  next
    case Undefined
    with nxt show ?thesis
      by (simp add: request_next_ready [OF rdy])
  qed
qed

text \<open>The token codes each case can deliver.\<close>

definition request_case_codes :: "request_state \<Rightarrow> token_code set" where
  "request_case_codes s =
     (case s of
        EXPECT_METHOD \<Rightarrow> {Method}
      | EXPECT_REQUEST_TARGET \<Rightarrow> {Request_target}
      | EXPECT_VERSION \<Rightarrow> {Version}
      | EXPECT_FIELD_NAME \<Rightarrow> {Field_name}
      | EXPECT_TRAILER_NAME \<Rightarrow> {Field_name}
      | EXPECT_FIELD_VALUE \<Rightarrow> {Field_value}
      | EXPECT_TRAILER_VALUE \<Rightarrow> {Field_value}
      | EXPECT_BODY \<Rightarrow> {Body_chunk}
      | EXPECT_CHUNK_DATA \<Rightarrow> {Body_chunk}
      | EXPECT_CRLF_AFTER_HEADERS \<Rightarrow> {End_of_headers}
      | EXPECT_CRLF_AFTER_CHUNK_EXT \<Rightarrow> {Skip, End_of_body}
      | EXPECT_CRLF_AFTER_TRAILERS \<Rightarrow> {End_of_message}
      | _ \<Rightarrow> {Skip})"

lemma request_handler_codes:
  assumes "request_ready r" and "request_handler ieq r = Ret r'"
  shows "(is_token (r_code r') \<longrightarrow> r_code r' \<in> request_case_codes (r_state r))
    \<and> (r_code r' = Error_insufficient_data \<longrightarrow> r_state r' = r_state r)"
proof -
  have c: "cursor_ok r" and i: "r_idx r < length (r_buf r)" and code: "r_code r = Error_insufficient_data"
    using request_readyD [OF assms(1)] by auto
  note h = assms(2) [unfolded request_handler_def]
  note inv = request_case_codes_def
  show ?thesis
  proof (cases "r_state r")
    case EXPECT_METHOD
    with h code show ?thesis
      by (cases rule: scan_tokenE [OF c, of is_tchar ERRORED EXPECT_SP_AFTER_METHOD Method]) (auto simp: inv)
  next
    case EXPECT_SP_AFTER_METHOD
    with h code show ?thesis
      by (cases rule: singleE [of is_sp ERRORED EXPECT_REQUEST_TARGET Skip r]) (auto simp: inv)
  next
    case EXPECT_REQUEST_TARGET
    with h code show ?thesis
      by (cases rule: scan_tokenE [OF c, of is_request_target_char ERRORED EXPECT_STATIC_STR_AFTER_TARGET Request_target])
        (auto simp: inv)
  next
    case EXPECT_STATIC_STR_AFTER_TARGET
    with h code show ?thesis
      by (cases rule: match_stringE [OF c, of static_str_after_target ERRORED EXPECT_VERSION]) (auto simp: inv)
  next
    case EXPECT_VERSION
    with h code show ?thesis
      by (auto simp: inv request_version_case_def Let_def split: if_splits)
  next
    case EXPECT_CRLF_AFTER_VERSION
    with h code show ?thesis
      by (cases rule: liberal_lineE [of ERRORED EXPECT_FIELD_NAME r]) (auto simp: inv)
  next
    case EXPECT_COLON
    with h code show ?thesis
      by (cases rule: colonE [OF i, of ERRORED EXPECT_OWS_AFTER_COLON EXPECT_FIELD_VALUE]) (auto simp: inv)
  next
    case EXPECT_CRLF_AFTER_FIELD_VALUE
    with h code show ?thesis
      by (cases rule: liberal_lineE [of ERRORED EXPECT_FIELD_NAME r]) (auto simp: inv)
  next
    case EXPECT_CHUNK_SIZE
    with h code show ?thesis
      by (cases rule: chunk_sizeE [of ERRORED EXPECT_CHUNK_EXT r]) (auto simp: inv)
  next
    case EXPECT_CHUNK_EXT
    with h code show ?thesis
      by (cases rule: chunk_extE [OF c, of ERRORED EXPECT_CRLF_AFTER_CHUNK_EXT]) (auto simp: inv)
  next
    case EXPECT_CRLF_AFTER_CHUNK_EXT
    with h code show ?thesis
      by (cases rule: strict_lineE [of ERRORED "if r_body_size r \<noteq> 0 then EXPECT_CHUNK_DATA else EXPECT_TRAILER_NAME"
             "if r_body_size r \<noteq> 0 then Skip else End_of_body" r])
        (auto simp: inv crlf_after_chunk_ext_def split: if_splits)
  next
    case EXPECT_CRLF_AFTER_CHUNK_DATA
    with h code show ?thesis
      by (cases rule: strict_lineE [of ERRORED EXPECT_CHUNK_SIZE Skip r]) (auto simp: inv)
  next
    case EXPECT_TRAILER_NAME
    with h code show ?thesis
      by (cases rule: trailer_nameE [of EXPECT_CRLF_AFTER_TRAILERS EXPECT_TRAILER_COLON r]) (auto simp: inv)
  next
    case EXPECT_TRAILER_COLON
    with h code show ?thesis
      by (cases rule: colonE [OF i, of ERRORED EXPECT_OWS_AFTER_TRAILER_COLON EXPECT_TRAILER_VALUE]) (auto simp: inv)
  next
    case EXPECT_OWS_AFTER_COLON
    with h code show ?thesis
      by (cases rule: ows_after_colonE [of EXPECT_FIELD_VALUE r]) (auto simp: inv)
  next
    case EXPECT_OWS_AFTER_TRAILER_COLON
    with h code show ?thesis
      by (cases rule: ows_after_colonE [of EXPECT_TRAILER_VALUE r]) (auto simp: inv)
  next
    case EXPECT_TRAILER_VALUE
    with h code show ?thesis
      by (cases rule: match_tokenE [OF field_value_match_le, of EXPECT_CRLF_AFTER_TRAILER_VALUE Field_value r]) (auto simp: inv)
  next
    case EXPECT_CRLF_AFTER_TRAILER_VALUE
    with h code show ?thesis
      by (cases rule: strict_lineE [of ERRORED EXPECT_TRAILER_NAME Skip r]) (auto simp: inv)
  next
    case EXPECT_CRLF_AFTER_TRAILERS
    with h code show ?thesis
      by (cases rule: strict_lineE [of ERRORED EXPECT_METHOD End_of_message r])
        (auto simp: inv end_of_trailers_def Let_def)
  next
    case EXPECT_FIELD_VALUE
    with h code show ?thesis
      by (cases rule: field_valueE [of ieq ERRORED EXPECT_CRLF_AFTER_FIELD_VALUE request_body_types r])
        (auto simp: inv)
  next
    case EXPECT_CRLF_AFTER_HEADERS
    with h code show ?thesis
      by (auto simp: inv request_crlf_after_headers_def request_end_of_headers_def
          split: liberal_crlf_result.splits request_body_type.splits if_splits)
  next
    case EXPECT_FIELD_NAME
    with h code show ?thesis
      by (cases rule: request_field_nameE [of ieq r])
        (auto simp: inv request_host_def request_transfer_encoding_def request_content_length_def
          split: request_version.splits request_body_type.splits)
  qed (use h in \<open>auto simp: inv body_data_def Let_def\<close>)
qed

section \<open>Reading ends, and the tokens are the input\<close>

text \<open>
  C16: however the input looks, calling \<open>next\<close> on a buffer of \<open>n\<close> bytes delivers at most \<open>3 n + 2\<close>
  tokens before it asks for more data or reports an error: a user's loop over the tokens ends.
\<close>

theorem request_reading_ends:
  assumes "request_ok r" and "3 * length (r_buf r) + 3 \<le> n"
  shows "snd (read_tokens (request_next ieq) n r)"
proof -
  have "request_rank (r_state r) \<le> 2"
    by (simp add: request_rank_def split: request_state.split)
  moreover have "3 * (length (r_buf r) - consumed r) \<le> 3 * length (r_buf r)"
    by simp
  ultimately have "token_measure request_rank r < n"
    using assms(2) unfolding token_measure_def by linarith
  with assms(1) show ?thesis
    by (rule requests.read_tokens_ends)
qed

text \<open>
  C2: the tokens of a request, put together, are exactly the bytes of the buffer that were read: no byte
  is lost, duplicated or read twice between two tokens, and the reader never runs over the end.
\<close>

theorem request_tokens_tile:
  assumes "request_ok r" and "read_tokens (request_next ieq) n r = (rs, ended)"
  shows "concat (map token_view rs) = take (sum_list (map r_tok rs)) (drop (consumed r) (r_buf r))
    \<and> consumed r + sum_list (map r_tok rs) \<le> length (r_buf r)"
  using assms by (rule requests.tokens_tile)

lemma new_request_ok: "request_ok (set_buffer buf (new_request v k))"
  by (simp add: request_ok_def new_request_def set_buffer_def cursor_ok_def)

lemma request_reading_ends_witness:
  "snd (read_tokens (request_next ascii_iequals) 60 (set_buffer (asc ''GET / HTTP/1.1'') (new_request HTTP_1_0 0)))"
  using request_reading_ends [OF new_request_ok, of "asc ''GET / HTTP/1.1''" HTTP_1_0 0 60 ascii_iequals]
  by (simp add: set_buffer_def asc_def)

lemma request_tokens_tile_witness:
  "\<exists>rs ended. read_tokens (request_next ascii_iequals) 60 (set_buffer (asc ''GET / HTTP/1.1'') (new_request HTTP_1_0 0)) = (rs, ended)
     \<and> concat (map token_view rs) = take (sum_list (map r_tok rs)) (asc ''GET / HTTP/1.1'')"
proof -
  let ?r = "set_buffer (asc ''GET / HTTP/1.1'') (new_request HTTP_1_0 0)"
  obtain rs ended where *: "read_tokens (request_next ascii_iequals) 60 ?r = (rs, ended)"
    by fastforce
  have "consumed ?r = 0" "r_buf ?r = asc ''GET / HTTP/1.1''"
    by (simp_all add: consumed_def set_buffer_def new_request_def)
  with request_tokens_tile [OF new_request_ok *] * show ?thesis
    by (intro exI [of _ rs] exI [of _ ended]) simp
qed

lemma request_next_safe_witness:
  "request_next ascii_iequals (set_buffer (asc ''GET /'') (new_request HTTP_1_0 0)) \<noteq> None"
proof -
  have "\<not> reads_in_front (set_buffer (asc ''GET /'') (new_request HTTP_1_0 0))"
    by (simp add: reads_in_front_def advance_def set_buffer_def new_request_def)
  with request_next_safe [OF new_request_ok, of ascii_iequals] show ?thesis
    by blast
qed

section \<open>Framing\<close>

lemma request_end_of_headers_result:
  assumes "request_end_of_headers b = Ret r'" and "r_code r' = End_of_headers"
  shows "rq_version r' \<noteq> NOT_HTTP_1_0_AND_HOST_NOT_READ
    \<and> (r_state r' = EXPECT_CHUNK_SIZE \<and> r_body r' = CHUNKED_ENCODING_READ
       \<or> r_state r' = EXPECT_BODY \<and> r_body r' = CONTENT_LENGTH_READ \<and> r_body_size r' \<noteq> 0
       \<or> r_state r' = EXPECT_END_OF_BODY \<and> r_body r' = NO_BODY
       \<or> r_state r' = EXPECT_END_OF_BODY \<and> r_body r' = CONTENT_LENGTH_READ \<and> r_body_size r' = 0)"
proof -
  have v: "rq_version b \<noteq> NOT_HTTP_1_0_AND_HOST_NOT_READ"
  proof
    assume "rq_version b = NOT_HTTP_1_0_AND_HOST_NOT_READ"
    with assms(1) have "r' = refuse ERRORED Error_no_host b"
      by (simp add: request_end_of_headers_def)
    with assms(2) show False
      by simp
  qed
  note h = assms(1) [unfolded request_end_of_headers_def if_not_P [OF v]]
  show ?thesis
  proof (cases "r_body b")
    case NO_BODY
    with h have "r' = b\<lparr>r_state := EXPECT_END_OF_BODY, r_code := End_of_headers\<rparr>" by simp
    with NO_BODY v show ?thesis by simp
  next
    case CHUNKED_ENCODING_READ
    with h have "r' = b\<lparr>r_state := EXPECT_CHUNK_SIZE, r_code := End_of_headers\<rparr>" by simp
    with CHUNKED_ENCODING_READ v show ?thesis by simp
  next
    case CONTENT_LENGTH_READ
    with h have "r' = b\<lparr>r_state := (if r_body_size b = 0 then EXPECT_END_OF_BODY else EXPECT_BODY),
        r_code := End_of_headers\<rparr>" by simp
    with CONTENT_LENGTH_READ v show ?thesis by simp
  next
    case RANDOM_ENCODING_READ
    with h have "r' = refuse ERRORED Error_invalid_transfer_encoding b" by simp
    with assms(2) show ?thesis by simp
  qed (use h in simp_all)
qed


section \<open>Transfer-Encoding and Content-Length\<close>

abbreviation header_states :: "request_state set" where
  "header_states \<equiv> {EXPECT_FIELD_NAME, EXPECT_COLON, EXPECT_OWS_AFTER_COLON, EXPECT_FIELD_VALUE,
     EXPECT_CRLF_AFTER_FIELD_VALUE, EXPECT_CRLF_AFTER_HEADERS}"

abbreviation coding_bodies :: "request_body_type set" where
  "coding_bodies \<equiv> {READING_ENCODING, CHUNKED_ENCODING_READ, RANDOM_ENCODING_READ}"

lemma coding_handler:
  assumes "request_ready r" and "r_state r \<in> header_states" and "r_body r \<in> coding_bodies"
    and "request_handler ieq r = Ret r'" and "r_state r' \<noteq> ERRORED"
  shows "r_body r' \<in> coding_bodies \<and> (r_state r' \<in> header_states \<or> r_state r' = EXPECT_CHUNK_SIZE)"
proof -
  have i: "r_idx r < length (r_buf r)"
    using request_readyD [OF assms(1)] by auto
  note h = assms(4) [unfolded request_handler_def] assms(3,5)
  consider "r_state r = EXPECT_FIELD_NAME" | "r_state r = EXPECT_COLON" | "r_state r = EXPECT_OWS_AFTER_COLON"
    | "r_state r = EXPECT_FIELD_VALUE" | "r_state r = EXPECT_CRLF_AFTER_FIELD_VALUE" | "r_state r = EXPECT_CRLF_AFTER_HEADERS"
    using assms(2) by blast
  then show ?thesis
  proof cases
    case 1
    with h show ?thesis
      by (cases rule: request_field_nameE [of ieq r])
        (auto simp: request_host_def request_transfer_encoding_def request_content_length_def
          split: request_version.splits request_body_type.splits)
  next
    case 2
    with h show ?thesis
      by (auto simp: colon_def Let_def split: if_splits)
  next
    case 3
    with h show ?thesis
      by (cases rule: ows_after_colonE [of EXPECT_FIELD_VALUE r]) auto
  next
    case 4
    with h show ?thesis
      by (cases rule: field_valueE [of ieq ERRORED EXPECT_CRLF_AFTER_FIELD_VALUE request_body_types r])
        (auto simp: request_body_types_def)
  next
    case 5
    with h show ?thesis
      by (cases rule: liberal_lineE [of ERRORED EXPECT_FIELD_NAME r]) auto
  next
    case 6
    with h show ?thesis
      by (auto simp: request_crlf_after_headers_def request_end_of_headers_def
          split: liberal_crlf_result.splits request_body_type.splits if_splits)
  qed
qed

lemma coding_handover:
  assumes "request_handler ieq r = Ret_next r'" and "r_state r \<in> header_states"
  shows "r_state r' \<in> header_states"
  using assms
  by (auto simp: request_handler_def request_field_name_def ows_after_colon_def field_value_def
      request_crlf_after_headers_def request_end_of_headers_def request_transfer_encoding_def
      request_content_length_def Let_def
      split: if_splits option.splits liberal_crlf_result.splits request_body_type.splits)






section \<open>The text of the tokens\<close>

text \<open>
  What a half-read token has been checked for, in the states that do not start it again; a new buffer
  has to begin with the same bytes, as the comment on \<open>set_buffer\<close> asks.
\<close>

definition request_partial_ok :: "request \<Rightarrow> bool" where
  "request_partial_ok r \<longleftrightarrow>
     (r_code r = Error_insufficient_data \<longrightarrow>
        (r_state r = EXPECT_METHOD \<longrightarrow> list_all is_tchar (token_view r))
      \<and> (r_state r = EXPECT_REQUEST_TARGET \<longrightarrow> list_all is_request_target_char (token_view r)))"

definition token_text_ok :: "request \<Rightarrow> bool" where
  "token_text_ok r \<longleftrightarrow>
     (r_code r = Method \<longrightarrow> token_view r \<noteq> [] \<and> list_all is_tchar (token_view r))
   \<and> (r_code r = Request_target \<longrightarrow> token_view r \<noteq> [] \<and> list_all is_request_target_char (token_view r))
   \<and> (r_code r = Version \<longrightarrow> 0 \<le> version_of r \<and> version_of r \<le> 9)
   \<and> (r_code r = Field_name \<longrightarrow> token_view r \<noteq> [] \<and> list_all is_tchar (token_view r))
   \<and> (r_code r = Field_value \<longrightarrow> list_all is_field_value_char (token_view r))"

lemma list_all_match: "list_all p (take (match_while p v) v)"
  by (simp add: take_match_while list_all_iff) (meson set_takeWhileD)

lemma scanned_text:
  assumes "cursor_ok r" and "list_all p (token_view r)"
    and "\<forall>x \<in> set (take (n - r_tok r) (drop (r_idx r + r_tok r) (r_buf r))). p x" and "r_tok r \<le> n"
  shows "list_all p (take n (drop (r_idx r) (r_buf r)))"
proof -
  have "take n (drop (r_idx r) (r_buf r)) = token_view r @ take (n - r_tok r) (drop (r_idx r + r_tok r) (r_buf r))"
    using assms(4) by (metis add.commute drop_drop le_add_diff_inverse take_add token_view_def)
  with assms(2,3) show ?thesis
    by (auto simp: list_all_iff)
qed

lemma request_handler_text:
  assumes "request_ready a" and "request_partial_ok a" and "request_handler ieq a = Ret r'"
  shows "token_text_ok r' \<and> request_partial_ok r'"
proof -
  have c: "cursor_ok a" and i: "r_idx a < length (r_buf a)" and code: "r_code a = Error_insufficient_data"
    using request_readyD [OF assms(1)] by auto
  note codes = request_handler_codes [OF assms(1,3)]
  note h = assms(3) [unfolded request_handler_def]
  have scan: "token_text_ok r' \<and> request_partial_ok r'"
    if r': "r' = scan_token p ERRORED s cd a" and p: "list_all p (token_view a)"
      and k: "(r_state a = EXPECT_METHOD \<and> p = is_tchar \<and> cd = Method \<and> s = EXPECT_SP_AFTER_METHOD)
           \<or> (r_state a = EXPECT_REQUEST_TARGET \<and> p = is_request_target_char \<and> cd = Request_target \<and> s = EXPECT_STATIC_STR_AFTER_TARGET)"
    for p s cd
  proof (rule scan_tokenE [OF c, of p ERRORED s cd], goal_cases more token bad)
    case more
    have "list_all p (take (length (r_buf a) - r_idx a) (drop (r_idx a) (r_buf a)))"
      using more(2) c by (intro scanned_text [OF c p]) (auto simp: cursor_ok_def dest: in_set_takeD)
    with more(1) r' k code show ?thesis
      by (auto simp: token_text_ok_def request_partial_ok_def token_view_def)
  next
    case (token n)
    have "list_all p (take n (drop (r_idx a) (r_buf a)))"
      using token by (intro scanned_text [OF c p])
    moreover have "take n (drop (r_idx a) (r_buf a)) \<noteq> []"
      using token(2,4) by simp
    ultimately show ?thesis
      using token(1) r' k by (auto simp: token_text_ok_def request_partial_ok_def token_view_def)
  next
    case bad
    with r' show ?thesis
      by (simp add: token_text_ok_def request_partial_ok_def)
  qed
  have partial: "request_partial_ok r'" if "r_state a \<noteq> EXPECT_METHOD" "r_state a \<noteq> EXPECT_REQUEST_TARGET"
    using codes that by (auto simp: request_partial_ok_def)
  have quiet: "token_text_ok r' \<and> request_partial_ok r'"
    if "request_case_codes (r_state a) \<subseteq> {Skip, Body_chunk, End_of_headers, End_of_body, End_of_message}"
      "r_state a \<noteq> EXPECT_METHOD" "r_state a \<noteq> EXPECT_REQUEST_TARGET"
  proof -
    have "r_code r' \<in> {Skip, Body_chunk, End_of_headers, End_of_body, End_of_message} \<or> \<not> is_token (r_code r')"
      using codes that(1) by blast
    then have "token_text_ok r'"
      by (cases "r_code r'") (simp_all add: token_text_ok_def)
    with partial that(2,3) show ?thesis
      by simp
  qed
  have field_name: "token_text_ok r'"
    if "r' = accept s Field_name n a" "n = field_name_match (rest_view a)" "0 < n" "n < length (rest_view a)" for s n
    using that list_all_match [of is_tchar "rest_view a"]
    by (auto simp: token_text_ok_def token_view_def rest_view_def field_name_match_def)
  show ?thesis
  proof (cases "r_state a")
    case EXPECT_METHOD
    with h assms(2) code show ?thesis
      by (intro scan [of is_tchar EXPECT_SP_AFTER_METHOD Method]) (auto simp: request_partial_ok_def)
  next
    case EXPECT_REQUEST_TARGET
    with h assms(2) code show ?thesis
      by (intro scan [of is_request_target_char EXPECT_STATIC_STR_AFTER_TARGET Request_target])
        (auto simp: request_partial_ok_def)
  next
    case EXPECT_VERSION
    then have "token_text_ok r'"
      using h
      by (auto simp: request_version_case_def Let_def token_text_ok_def version_of_def word_less_def split: if_splits)
    with partial EXPECT_VERSION show ?thesis by simp
  next
    case EXPECT_FIELD_NAME
    then have f: "request_field_name ieq a = Ret r'"
      using h by simp
    have "token_text_ok r'"
    proof (cases "field_name_match (rest_view a) = 0 \<or> field_name_match (rest_view a) = length (rest_view a)")
      case True
      then have "r_code r' = Error_insufficient_data"
        using f code by (cases "field_name_match (rest_view a) = 0") (auto simp: request_field_name_def Let_def)
      then show ?thesis
        by (simp add: token_text_ok_def)
    next
      case False
      moreover have "field_name_match (rest_view a) \<le> length (rest_view a)"
        by (simp add: field_name_match_def del: length_rest_view)
      ultimately have n: "0 < field_name_match (rest_view a)" "field_name_match (rest_view a) < length (rest_view a)"
        by linarith+
      let ?n = "field_name_match (rest_view a)"
      have "token_view r' = take ?n (rest_view a) \<or> \<not> is_token (r_code r')"
        using f n by (auto simp: request_field_name_def Let_def request_host_def request_transfer_encoding_def
            request_content_length_def token_view_def rest_view_def
            split: if_splits request_version.splits request_body_type.splits)
      then show ?thesis
        using n codes EXPECT_FIELD_NAME list_all_match [of is_tchar "rest_view a"]
        by (cases "r_code r'") (auto simp: token_text_ok_def request_case_codes_def field_name_match_def)
    qed
    with partial EXPECT_FIELD_NAME show ?thesis by simp
  next
    case EXPECT_TRAILER_NAME
    then have f: "trailer_name EXPECT_CRLF_AFTER_TRAILERS EXPECT_TRAILER_COLON a = Ret r'"
      using h by simp
    have "field_name_match (rest_view a) \<le> length (rest_view a)"
      by (simp add: field_name_match_def del: length_rest_view)
    then have "token_text_ok r'"
      using f code field_name [of EXPECT_TRAILER_COLON "field_name_match (rest_view a)"]
      by (auto simp: trailer_name_def Let_def token_text_ok_def split: if_splits)
    with partial EXPECT_TRAILER_NAME show ?thesis by simp
  next
    case EXPECT_FIELD_VALUE
    then have f: "field_value ieq ERRORED EXPECT_CRLF_AFTER_FIELD_VALUE request_body_types a = Ret r'"
      using h by simp
    have "token_view r' = take (left_trimmed_field_value_match (rest_view a)) (rest_view a) \<or> r_code r' \<noteq> Field_value"
      using f code
      by (auto simp: field_value_def Let_def token_view_def rest_view_def read_content_length_def read_transfer_encoding_def
          split: if_splits option.splits prod.splits decode_result.splits transfer_encoding_result.splits)
    then have "token_text_ok r'"
      using codes EXPECT_FIELD_VALUE list_all_match [of is_field_value_char "rest_view a"]
      by (cases "r_code r'") (auto simp: token_text_ok_def request_case_codes_def left_trimmed_field_value_match_def)
    with partial EXPECT_FIELD_VALUE show ?thesis by simp
  next
    case EXPECT_TRAILER_VALUE
    then have f: "r' = match_token left_trimmed_field_value_match EXPECT_CRLF_AFTER_TRAILER_VALUE Field_value a"
      using h by simp
    then have "token_view r' = take (left_trimmed_field_value_match (rest_view a)) (rest_view a) \<or> r_code r' \<noteq> Field_value"
      using code by (auto simp: match_token_def Let_def token_view_def rest_view_def)
    then have "token_text_ok r'"
      using codes EXPECT_TRAILER_VALUE list_all_match [of is_field_value_char "rest_view a"]
      by (cases "r_code r'") (auto simp: token_text_ok_def request_case_codes_def left_trimmed_field_value_match_def)
    with partial EXPECT_TRAILER_VALUE show ?thesis by simp
  qed (rule quiet; simp add: request_case_codes_def)+
qed

lemma request_partial_handover: "request_handler ieq r = Ret_next a \<Longrightarrow> request_partial_ok a"
  by (auto simp: request_partial_ok_def request_handler_def request_field_name_def ows_after_colon_def chunk_ext_def trailer_name_def
      field_value_def request_crlf_after_headers_def request_end_of_headers_def request_transfer_encoding_def
      request_content_length_def Let_def
      split: request_state.splits if_splits option.splits liberal_crlf_result.splits request_body_type.splits)

text \<open>
  C24: the text of every token is in the grammar of its kind: methods and field names are non-empty
  runs of token characters, request targets non-empty runs of target characters, the version is one
  digit, field values contain field-value characters only; this holds also for tokens that arrive
  in several buffers.
\<close>

theorem request_token_text:
  assumes "request_ok r" and "request_partial_ok r" and "request_next ieq r = Some r'" and "r_state r \<noteq> ERRORED"
  shows "token_text_ok r' \<and> request_partial_ok r'"
proof -
  have adv: "request_partial_ok (advance r)"
    using assms(2) by (simp add: request_partial_ok_def advance_def token_view_def)
  consider (body) "r_state r = EXPECT_END_OF_BODY" | (message) "r_state r = EXPECT_END_OF_MESSAGE" | (wait) "r' = advance r"
    | (step) a where "request_handler ieq a = Ret r'" "request_ready a"
      "a = advance r \<or> request_handler ieq (advance r) = Ret_next a"
    using request_next_case [OF assms(1,3)] assms(4) by auto
  then show ?thesis
  proof cases
    case body
    then have "r_code r' = End_of_body"
      using assms(3) request_next_early(2) [of r ieq] by auto
    then show ?thesis
      by (simp add: token_text_ok_def request_partial_ok_def)
  next
    case message
    then have "r_code r' = End_of_message"
      using assms(3) request_next_early(3) [of r ieq] by auto
    then show ?thesis
      by (simp add: token_text_ok_def request_partial_ok_def)
  next
    case wait
    with adv show ?thesis
      by (simp add: token_text_ok_def)
  next
    case (step a)
    have "request_partial_ok a"
      using step(3) adv request_partial_handover by blast
    with step(1,2) show ?thesis
      by (rule request_handler_text [rotated -1])
  qed
qed

lemma request_token_text_witness:
  "\<exists>r'. request_next ascii_iequals (set_buffer (asc ''GET /'') (new_request HTTP_1_0 0)) = Some r'
     \<and> list_all is_tchar (token_view r')"
proof -
  let ?r = "set_buffer (asc ''GET /'') (new_request HTTP_1_0 0)"
  have r: "r_state ?r = EXPECT_METHOD" "r_code ?r = Error_insufficient_data" "r_idx ?r = 0" "r_tok ?r = 0"
    "r_buf ?r = asc ''GET /''" "request_partial_ok ?r" "asc ''GET /'' \<noteq> []"
    by (simp_all add: set_buffer_def new_request_def request_partial_ok_def token_view_def asc_def)
  define r' where "r' = scan_token is_tchar ERRORED EXPECT_SP_AFTER_METHOD Method ?r"
  have "advance ?r = ?r"
    by (simp add: advance_def r(2))
  then have n: "request_next ascii_iequals ?r = Some r'"
    by (subst request_next.simps) (simp add: r request_handler_def r'_def)
  have c: "r_code r' = Method"
    unfolding r'_def scan_token_def r
    by (simp add: asc_def is_tchar_def isalnum_def isalpha_def isdigit_def Let_def)
  from request_token_text [OF new_request_ok r(6) n] r(1) n c show ?thesis
    by (simp add: token_text_ok_def)
qed

end
