(* ===== verification/RequestPhases.thy ===== *)
theory RequestPhases
  imports RequestProperties
begin

text \<open>
  The request reader as an automaton: which token can follow in which state, without the bytes. The
  reader refines it, and what a user of the reader needs to know about the order of the tokens
  (a field name is followed by its value, a body by its end) is read off the automaton.
\<close>

definition request_successors :: "request_state \<Rightarrow> (token_code \<times> request_state) set" where
  "request_successors s =
     (case s of
        ERRORED \<Rightarrow> {}
      | EXPECT_METHOD \<Rightarrow> {(Method, EXPECT_SP_AFTER_METHOD)}
      | EXPECT_SP_AFTER_METHOD \<Rightarrow> {(Skip, EXPECT_REQUEST_TARGET)}
      | EXPECT_REQUEST_TARGET \<Rightarrow> {(Request_target, EXPECT_STATIC_STR_AFTER_TARGET)}
      | EXPECT_STATIC_STR_AFTER_TARGET \<Rightarrow> {(Skip, EXPECT_VERSION)}
      | EXPECT_VERSION \<Rightarrow> {(Version, EXPECT_CRLF_AFTER_VERSION)}
      | EXPECT_CRLF_AFTER_VERSION \<Rightarrow> {(Skip, EXPECT_FIELD_NAME)}
      | EXPECT_FIELD_NAME \<Rightarrow> {(Field_name, EXPECT_COLON)}
      | EXPECT_COLON \<Rightarrow> {(Skip, EXPECT_OWS_AFTER_COLON), (Skip, EXPECT_FIELD_VALUE)}
      | EXPECT_OWS_AFTER_COLON \<Rightarrow> {(Skip, EXPECT_OWS_AFTER_COLON)}
      | EXPECT_FIELD_VALUE \<Rightarrow> {(Field_value, EXPECT_CRLF_AFTER_FIELD_VALUE)}
      | EXPECT_CRLF_AFTER_FIELD_VALUE \<Rightarrow> {(Skip, EXPECT_FIELD_NAME)}
      | EXPECT_CRLF_AFTER_HEADERS \<Rightarrow>
          {(End_of_headers, EXPECT_END_OF_BODY), (End_of_headers, EXPECT_CHUNK_SIZE), (End_of_headers, EXPECT_BODY)}
      | EXPECT_BODY \<Rightarrow> {(Body_chunk, EXPECT_BODY), (Body_chunk, EXPECT_END_OF_BODY)}
      | EXPECT_END_OF_BODY \<Rightarrow> {(End_of_body, EXPECT_END_OF_MESSAGE)}
      | EXPECT_END_OF_MESSAGE \<Rightarrow> {(End_of_message, EXPECT_METHOD)}
      | EXPECT_CHUNK_SIZE \<Rightarrow> {(Skip, EXPECT_CHUNK_EXT)}
      | EXPECT_CHUNK_EXT \<Rightarrow> {(Skip, EXPECT_CRLF_AFTER_CHUNK_EXT)}
      | EXPECT_CRLF_AFTER_CHUNK_EXT \<Rightarrow> {(Skip, EXPECT_CHUNK_DATA), (End_of_body, EXPECT_TRAILER_NAME)}
      | EXPECT_CHUNK_DATA \<Rightarrow> {(Body_chunk, EXPECT_CHUNK_DATA), (Body_chunk, EXPECT_CRLF_AFTER_CHUNK_DATA)}
      | EXPECT_CRLF_AFTER_CHUNK_DATA \<Rightarrow> {(Skip, EXPECT_CHUNK_SIZE)}
      | EXPECT_TRAILER_NAME \<Rightarrow> {(Field_name, EXPECT_TRAILER_COLON)}
      | EXPECT_TRAILER_COLON \<Rightarrow> {(Skip, EXPECT_OWS_AFTER_TRAILER_COLON), (Skip, EXPECT_TRAILER_VALUE)}
      | EXPECT_OWS_AFTER_TRAILER_COLON \<Rightarrow> {(Skip, EXPECT_OWS_AFTER_TRAILER_COLON)}
      | EXPECT_TRAILER_VALUE \<Rightarrow> {(Field_value, EXPECT_CRLF_AFTER_TRAILER_VALUE)}
      | EXPECT_CRLF_AFTER_TRAILER_VALUE \<Rightarrow> {(Skip, EXPECT_TRAILER_NAME)}
      | EXPECT_CRLF_AFTER_TRAILERS \<Rightarrow> {(End_of_message, EXPECT_METHOD)})"

text \<open>The state a case hands over to when its own token is empty.\<close>

definition request_hands_over :: "request_state \<Rightarrow> request_state set" where
  "request_hands_over s =
     (case s of
        EXPECT_FIELD_NAME \<Rightarrow> {EXPECT_CRLF_AFTER_HEADERS}
      | EXPECT_OWS_AFTER_COLON \<Rightarrow> {EXPECT_FIELD_VALUE}
      | EXPECT_CHUNK_EXT \<Rightarrow> {EXPECT_CRLF_AFTER_CHUNK_EXT}
      | EXPECT_TRAILER_NAME \<Rightarrow> {EXPECT_CRLF_AFTER_TRAILERS}
      | EXPECT_OWS_AFTER_TRAILER_COLON \<Rightarrow> {EXPECT_TRAILER_VALUE}
      | _ \<Rightarrow> {})"

lemma request_handler_successors:
  assumes "request_ready r" and "request_handler ieq r = Ret r'"
  shows "is_token (r_code r') \<longrightarrow> (r_code r', r_state r') \<in> request_successors (r_state r)"
proof -
  have c: "cursor_ok r" and i: "r_idx r < length (r_buf r)" and code: "r_code r = Error_insufficient_data"
    using request_readyD [OF assms(1)] by auto
  note h = assms(2) [unfolded request_handler_def]
  note inv = request_successors_def
  show ?thesis
  proof (cases "r_state r")
    case EXPECT_METHOD
    with h code show ?thesis
      by (cases rule: scan_tokenE [OF c, of is_tchar ERRORED EXPECT_SP_AFTER_METHOD Method]) (auto simp: inv)
  next
    case EXPECT_SP_AFTER_METHOD
    with h code show ?thesis
      by (cases rule: singleE [of is_sp ERRORED EXPECT_REQUEST_TARGET Skip r]) (auto simp: inv)
  next
    case EXPECT_REQUEST_TARGET
    with h code show ?thesis
      by (cases rule: scan_tokenE [OF c, of is_request_target_char ERRORED EXPECT_STATIC_STR_AFTER_TARGET Request_target])
        (auto simp: inv)
  next
    case EXPECT_STATIC_STR_AFTER_TARGET
    with h code show ?thesis
      by (cases rule: match_stringE [OF c, of static_str_after_target ERRORED EXPECT_VERSION]) (auto simp: inv)
  next
    case EXPECT_VERSION
    with h code show ?thesis
      by (auto simp: inv request_version_case_def Let_def split: if_splits)
  next
    case EXPECT_CRLF_AFTER_VERSION
    with h code show ?thesis
      by (cases rule: liberal_lineE [of ERRORED EXPECT_FIELD_NAME r]) (auto simp: inv)
  next
    case EXPECT_COLON
    with h code show ?thesis
      by (auto simp: inv colon_def Let_def split: if_splits)
  next
    case EXPECT_CRLF_AFTER_FIELD_VALUE
    with h code show ?thesis
      by (cases rule: liberal_lineE [of ERRORED EXPECT_FIELD_NAME r]) (auto simp: inv)
  next
    case EXPECT_CHUNK_SIZE
    with h code show ?thesis
      by (cases rule: chunk_sizeE [of ERRORED EXPECT_CHUNK_EXT r]) (auto simp: inv)
  next
    case EXPECT_CHUNK_EXT
    with h code show ?thesis
      by (cases rule: chunk_extE [OF c, of ERRORED EXPECT_CRLF_AFTER_CHUNK_EXT]) (auto simp: inv)
  next
    case EXPECT_CRLF_AFTER_CHUNK_EXT
    with h code show ?thesis
      by (cases rule: strict_lineE [of ERRORED "if r_body_size r \<noteq> 0 then EXPECT_CHUNK_DATA else EXPECT_TRAILER_NAME"
             "if r_body_size r \<noteq> 0 then Skip else End_of_body" r])
        (auto simp: inv crlf_after_chunk_ext_def split: if_splits)
  next
    case EXPECT_CRLF_AFTER_CHUNK_DATA
    with h code show ?thesis
      by (cases rule: strict_lineE [of ERRORED EXPECT_CHUNK_SIZE Skip r]) (auto simp: inv)
  next
    case EXPECT_TRAILER_NAME
    with h code show ?thesis
      by (cases rule: trailer_nameE [of EXPECT_CRLF_AFTER_TRAILERS EXPECT_TRAILER_COLON r]) (auto simp: inv)
  next
    case EXPECT_TRAILER_COLON
    with h code show ?thesis
      by (auto simp: inv colon_def Let_def split: if_splits)
  next
    case EXPECT_OWS_AFTER_COLON
    with h code show ?thesis
      by (cases rule: ows_after_colonE [of EXPECT_FIELD_VALUE r]) (auto simp: inv)
  next
    case EXPECT_OWS_AFTER_TRAILER_COLON
    with h code show ?thesis
      by (cases rule: ows_after_colonE [of EXPECT_TRAILER_VALUE r]) (auto simp: inv)
  next
    case EXPECT_TRAILER_VALUE
    with h code show ?thesis
      by (cases rule: match_tokenE [OF field_value_match_le, of EXPECT_CRLF_AFTER_TRAILER_VALUE Field_value r]) (auto simp: inv)
  next
    case EXPECT_CRLF_AFTER_TRAILER_VALUE
    with h code show ?thesis
      by (cases rule: strict_lineE [of ERRORED EXPECT_TRAILER_NAME Skip r]) (auto simp: inv)
  next
    case EXPECT_CRLF_AFTER_TRAILERS
    with h code show ?thesis
      by (cases rule: strict_lineE [of ERRORED EXPECT_METHOD End_of_message r])
        (auto simp: inv end_of_trailers_def Let_def)
  next
    case EXPECT_FIELD_VALUE
    with h code show ?thesis
      by (cases rule: field_valueE [of ieq ERRORED EXPECT_CRLF_AFTER_FIELD_VALUE request_body_types r])
        (auto simp: inv)
  next
    case EXPECT_CRLF_AFTER_HEADERS
    with h code show ?thesis
      by (auto simp: inv request_crlf_after_headers_def request_end_of_headers_def
          split: liberal_crlf_result.splits request_body_type.splits if_splits)
  next
    case EXPECT_FIELD_NAME
    with h code show ?thesis
      by (cases rule: request_field_nameE [of ieq r])
        (auto simp: inv request_host_def request_transfer_encoding_def request_content_length_def
          split: request_version.splits request_body_type.splits)
  qed (use h in \<open>auto simp: inv body_data_def Let_def\<close>)
qed

lemma request_handler_hands_over:
  assumes "request_handler ieq r = Ret_next r'"
  shows "r_state r' \<in> request_hands_over (r_state r)"
  using assms
  by (auto simp: request_handler_def request_hands_over_def request_field_name_def ows_after_colon_def
      chunk_ext_def trailer_name_def field_value_def request_crlf_after_headers_def
      request_end_of_headers_def request_transfer_encoding_def request_content_length_def Let_def
      split: request_state.splits if_splits option.splits liberal_crlf_result.splits request_body_type.splits)

lemma request_next_automaton:
  assumes "request_ok r" and "request_next ieq r = Some r'" and "r_state r \<noteq> ERRORED"
  shows "\<exists>s \<in> insert (r_state r) (request_hands_over (r_state r)).
    (is_token (r_code r') \<longrightarrow> (r_code r', r_state r') \<in> request_successors s)
    \<and> (r_code r' = Error_insufficient_data \<longrightarrow> r_state r' = s)"
proof -
  consider (body) "r_state r = EXPECT_END_OF_BODY" | (message) "r_state r = EXPECT_END_OF_MESSAGE" | (wait) "r' = advance r"
    | (step) a where "request_handler ieq a = Ret r'" "request_ready a"
      "a = advance r \<or> request_handler ieq (advance r) = Ret_next a"
    using request_next_case [OF assms(1,2)] assms(3) by auto
  then show ?thesis
  proof cases
    case body
    then show ?thesis
      using assms(2) by (auto simp: request_next_early request_successors_def)
  next
    case message
    then show ?thesis
      using assms(2) by (auto simp: request_next_early request_successors_def)
  next
    case (step a)
    have "r_state a \<in> insert (r_state r) (request_hands_over (r_state r))"
      using step(3) request_handler_hands_over [of ieq "advance r" a] by auto
    then show ?thesis
      using request_handler_successors [OF step(2,1)] request_handler_codes [OF step(2,1)] by blast
  qed simp
qed

section \<open>The order of the tokens of a message\<close>

datatype order =
    Want_method | Want_target | Want_version
  | In_headers | In_header_value | In_body | In_trailers | In_trailer_value

text \<open>What a token does to the order, \<open>None\<close> when it is out of place.\<close>

definition order_step :: "token_code \<Rightarrow> order \<Rightarrow> order option" where
  "order_step c q =
     (case (c, q) of
        (Skip, _) \<Rightarrow> Some q
      | (Method, Want_method) \<Rightarrow> Some Want_target
      | (Request_target, Want_target) \<Rightarrow> Some Want_version
      | (Version, Want_version) \<Rightarrow> Some In_headers
      | (Field_name, In_headers) \<Rightarrow> Some In_header_value
      | (Field_value, In_header_value) \<Rightarrow> Some In_headers
      | (End_of_headers, In_headers) \<Rightarrow> Some In_body
      | (Body_chunk, In_body) \<Rightarrow> Some In_body
      | (End_of_body, In_body) \<Rightarrow> Some In_trailers
      | (Field_name, In_trailers) \<Rightarrow> Some In_trailer_value
      | (Field_value, In_trailer_value) \<Rightarrow> Some In_trailers
      | (End_of_message, In_trailers) \<Rightarrow> Some Want_method
      | _ \<Rightarrow> None)"

definition order_of :: "request_state \<Rightarrow> order" where
  "order_of s =
     (case s of
        ERRORED \<Rightarrow> Want_method
      | EXPECT_METHOD \<Rightarrow> Want_method
      | EXPECT_SP_AFTER_METHOD \<Rightarrow> Want_target
      | EXPECT_REQUEST_TARGET \<Rightarrow> Want_target
      | EXPECT_STATIC_STR_AFTER_TARGET \<Rightarrow> Want_version
      | EXPECT_VERSION \<Rightarrow> Want_version
      | EXPECT_COLON \<Rightarrow> In_header_value
      | EXPECT_OWS_AFTER_COLON \<Rightarrow> In_header_value
      | EXPECT_FIELD_VALUE \<Rightarrow> In_header_value
      | EXPECT_CRLF_AFTER_VERSION \<Rightarrow> In_headers
      | EXPECT_FIELD_NAME \<Rightarrow> In_headers
      | EXPECT_CRLF_AFTER_FIELD_VALUE \<Rightarrow> In_headers
      | EXPECT_CRLF_AFTER_HEADERS \<Rightarrow> In_headers
      | EXPECT_END_OF_MESSAGE \<Rightarrow> In_trailers
      | EXPECT_TRAILER_NAME \<Rightarrow> In_trailers
      | EXPECT_CRLF_AFTER_TRAILER_VALUE \<Rightarrow> In_trailers
      | EXPECT_CRLF_AFTER_TRAILERS \<Rightarrow> In_trailers
      | EXPECT_TRAILER_COLON \<Rightarrow> In_trailer_value
      | EXPECT_OWS_AFTER_TRAILER_COLON \<Rightarrow> In_trailer_value
      | EXPECT_TRAILER_VALUE \<Rightarrow> In_trailer_value
      | _ \<Rightarrow> In_body)"

lemma successors_order:
  "(c, s') \<in> request_successors s \<Longrightarrow> order_step c (order_of s) = Some (order_of s')"
  by (cases s) (auto simp: request_successors_def order_step_def order_of_def)

lemma hands_over_order: "s' \<in> request_hands_over s \<Longrightarrow> order_of s' = order_of s"
  by (cases s) (auto simp: request_hands_over_def order_of_def)

lemma request_next_order:
  assumes "request_ok r" and "request_next ieq r = Some r'" and "r_state r \<noteq> ERRORED"
  shows "is_token (r_code r') \<Longrightarrow> order_step (r_code r') (order_of (r_state r)) = Some (order_of (r_state r'))"
    and "r_code r' = Error_insufficient_data \<Longrightarrow> order_of (r_state r') = order_of (r_state r)"
proof -
  obtain s where s: "s \<in> insert (r_state r) (request_hands_over (r_state r))"
    and step: "is_token (r_code r') \<longrightarrow> (r_code r', r_state r') \<in> request_successors s"
    and stay: "r_code r' = Error_insufficient_data \<longrightarrow> r_state r' = s"
    using request_next_automaton [OF assms] by blast
  have o: "order_of s = order_of (r_state r)"
    using s hands_over_order by blast
  show "is_token (r_code r') \<Longrightarrow> order_step (r_code r') (order_of (r_state r)) = Some (order_of (r_state r'))"
    using step successors_order [of "r_code r'" "r_state r'" s] by (simp add: o)
  show "r_code r' = Error_insufficient_data \<Longrightarrow> order_of (r_state r') = order_of (r_state r)"
    using stay by (simp add: o)
qed

fun follow :: "order \<Rightarrow> token_code list \<Rightarrow> order option" where
  "follow q [] = Some q"
| "follow q (c # cs) = (case order_step c q of None \<Rightarrow> None | Some q' \<Rightarrow> follow q' cs)"

text \<open>
  C19: the tokens of a request come in the order of the grammar of messages, over any number of
  messages: method, target, version, then field names each followed by its value, the end of the
  headers, body chunks and the end of the body, trailers, and the end of the message.
\<close>

theorem request_token_order:
  assumes "request_ok r" and "r_state r \<noteq> ERRORED" and "read_tokens (request_next ieq) n r = (rs, ended)"
  shows "follow (order_of (r_state r)) (map r_code rs) = Some (order_of (r_state (last (r # rs))))"
  using assms
proof (induction n arbitrary: r rs)
  case (Suc n)
  show ?case
  proof (cases "\<exists>r'. request_next ieq r = Some r' \<and> is_token (r_code r')")
    case True
    then obtain r' rs' where r': "request_next ieq r = Some r'" "is_token (r_code r')"
      and rs: "rs = r' # rs'" "read_tokens (request_next ieq) n r' = (rs', ended)"
      using Suc.prems(3) by (auto split: prod.splits)
    have ok: "request_ok r'"
      using request_next_some [OF Suc.prems(1) r'(1)] by simp
    have "r_state r' \<noteq> ERRORED"
    proof
      assume "r_state r' = ERRORED"
      with ok r'(2) show False
        by (simp add: request_ok_def)
    qed
    with Suc.IH [OF ok _ rs(2)] request_next_order(1) [OF Suc.prems(1) r'(1) Suc.prems(2) r'(2)] show ?thesis
      by (simp add: rs(1))
  next
    case False
    then have "rs = []"
      using Suc.prems(3) by (auto split: option.splits if_splits)
    then show ?thesis by simp
  qed
qed simp

lemma request_token_order_witness:
  "\<exists>rs ended. read_tokens (request_next ascii_iequals) 60 (set_buffer (asc ''GET / HTTP/1.1'') (new_request HTTP_1_0 0)) = (rs, ended)
     \<and> follow Want_method (map r_code rs) \<noteq> None"
proof -
  let ?r = "set_buffer (asc ''GET / HTTP/1.1'') (new_request HTTP_1_0 0)"
  obtain rs ended where *: "read_tokens (request_next ascii_iequals) 60 ?r = (rs, ended)"
    by fastforce
  have "r_state ?r = EXPECT_METHOD"
    by (simp add: set_buffer_def new_request_def)
  with request_token_order [OF new_request_ok _ *] * show ?thesis
    by (intro exI [of _ rs] exI [of _ ended]) (simp add: order_of_def)
qed

end
