(* ===== verification/HttpSocket.thy ===== *)
theory HttpSocket
  imports RequestPhases MessageWriter
begin

text \<open>
  \<open>boost::http::basic_socket\<close> (\<open>socket.hpp\<close>, \<open>socket-inl.hpp\<close>): the server side of a connection. The
  record \<open>http_socket\<close> is the class. The channel is not part of it: a read that has to wait returns
  \<open>Wait\<close>, and \<open>on_async_read_message\<close> is called with what the channel delivers; a write returns the
  bytes it sends, and its completion handler is a definition of its own.

  The array \<open>buffer\<close> is its size and its first \<open>used_size\<close> bytes. The view the parser is given is a
  window of this array: it is modelled by the array up to the end of the window with the cursor at
  its beginning, so that the cursor counts from the beginning of the array, the parser sees
  the bytes the socket changes in place, and a read in front of the window finds what the array
  holds there. The fields that the constructor does not initialise get their values from its
  arguments.
\<close>

datatype read_state = Read_empty | Message_ready | Body_ready | Read_finished

datatype keep_alive = KEEP_ALIVE_UNKNOWN | KEEP_ALIVE_CLOSE_READ | KEEP_ALIVE_KEEP_ALIVE_READ

datatype http_errc = Out_of_order | Native_stream_unsupported | Parsing_error | Buffer_exhausted | Wrong_direction

datatype error_code = No_error | Http_error http_errc | Channel_error nat

datatype target = READY | DATA | END

record http_socket =
  so_channel_open :: bool
  so_is_open :: bool
  so_istate :: read_state
  so_capacity :: nat
  so_buf :: bytes
  so_parser :: request
  so_field_name_size :: nat
  so_expecting_field :: bool
  so_use_trailers :: bool
  so_modern_http :: bool
  so_keep_alive :: keep_alive
  so_writer :: write_state
  so_connect_request :: bool

definition new_socket :: "nat \<Rightarrow> http_socket \<Rightarrow> http_socket option" where
  "new_socket capacity raw =
     (if capacity = 0 then None
      else Some (raw\<lparr>so_channel_open := True, so_is_open := True, so_istate := Read_empty, so_capacity := capacity,
        so_buf := [], so_parser := new_request (rq_version (so_parser raw)) (r_body_size (so_parser raw)),
        so_expecting_field := False, so_writer := Write_empty\<rparr>))"

definition is_open :: "http_socket \<Rightarrow> bool" where
  "is_open s \<longleftrightarrow> so_channel_open s \<and> so_is_open s"

definition open_socket :: "http_socket \<Rightarrow> http_socket" where
  "open_socket s = s\<lparr>so_is_open := True\<rparr>"

definition clear_buffer :: "http_socket \<Rightarrow> http_socket" where
  "clear_buffer s =
     s\<lparr>so_istate := Read_empty, so_writer := Write_empty, so_buf := [], so_parser := request_reset (so_parser s),
       so_expecting_field := False\<rparr>"

definition clear_message :: "message \<Rightarrow> message" where
  "clear_message m = m\<lparr>msg_headers := [], msg_body := [], msg_trailers := []\<rparr>"

section \<open>Reading\<close>

text \<open>
  The local variables of \<open>on_async_read_message\<close> and what its pointer arguments point to; \<open>None\<close> is
  the null pointer.
\<close>

record read_frame =
  fr_nparsed :: nat
  fr_field_name_begin :: nat
  fr_flags :: "target set"
  fr_method :: "bytes option"
  fr_path :: "bytes option"
  fr_message :: message

text \<open>The window of the array that \<open>parser.set_buffer\<close> is given: its first byte and its end.\<close>

definition set_window :: "nat \<Rightarrow> nat \<Rightarrow> http_socket \<Rightarrow> http_socket" where
  "set_window from till s = s\<lparr>so_parser := (so_parser s)\<lparr>r_buf := take till (so_buf s), r_idx := from\<rparr>\<rparr>"

text \<open>\<open>std::tolower\<close> on each byte of a piece of the array, in place: the parser sees it too.\<close>

definition lower_at :: "nat \<Rightarrow> nat \<Rightarrow> bytes \<Rightarrow> bytes" where
  "lower_at i n v = take i v @ map ascii_lower (take n (drop i v)) @ drop (i + n) v"

definition on_field_name :: "http_socket \<times> read_frame \<Rightarrow> http_socket \<times> read_frame" where
  "on_field_name sf =
     (let (s, f) = sf;
          i = fr_nparsed f; n = r_tok (so_parser s)
      in (s\<lparr>so_field_name_size := n, so_buf := lower_at i n (so_buf s),
            so_parser := (so_parser s)\<lparr>r_buf := lower_at i n (r_buf (so_parser s))\<rparr>,
            so_expecting_field := True\<rparr>,
          f\<lparr>fr_field_name_begin := i\<rparr>))"

definition keep_alive_visit :: "(bytes \<Rightarrow> bytes \<Rightarrow> bool) \<Rightarrow> keep_alive \<Rightarrow> bytes \<Rightarrow> keep_alive \<times> bool" where
  "keep_alive_visit ieq k v =
     (if ieq v (asc ''close'') then (KEEP_ALIVE_CLOSE_READ, True)
      else ((if ieq v (asc ''keep-alive'') then KEEP_ALIVE_KEEP_ALIVE_READ else k), False))"

definition read_connection :: "(bytes \<Rightarrow> bytes \<Rightarrow> bool) \<Rightarrow> bytes \<Rightarrow> keep_alive \<Rightarrow> keep_alive" where
  "read_connection ieq v k =
     (if k = KEEP_ALIVE_CLOSE_READ then k else fst (any_of_state (keep_alive_visit ieq) k v))"

text \<open>\<open>None\<close>: \<open>value<token::field_value>()\<close> reads in front of the array.\<close>

definition on_field_value :: "(bytes \<Rightarrow> bytes \<Rightarrow> bool) \<Rightarrow> http_socket \<times> read_frame \<Rightarrow> (http_socket \<times> read_frame) option" where
  "on_field_value ieq sf =
     (let (s, f) = sf;
          name = take (so_field_name_size s) (drop (fr_field_name_begin f) (so_buf s));
          m = fr_message f
      in case field_value_of (so_parser s) of
           None \<Rightarrow> None
         | Some value \<Rightarrow>
             if so_modern_http s \<or> name \<noteq> asc ''expect'' \<and> name \<noteq> asc ''upgrade'' then
               (let k = (if name = asc ''connection'' then read_connection ieq value (so_keep_alive s) else so_keep_alive s);
                    m' = (if so_use_trailers s then m\<lparr>msg_trailers := multimap_emplace name value (msg_trailers m)\<rparr>
                          else m\<lparr>msg_headers := multimap_emplace name value (msg_headers m)\<rparr>)
                in Some (s\<lparr>so_keep_alive := k, so_expecting_field := False\<rparr>, f\<lparr>fr_message := m'\<rparr>))
             else Some (s\<lparr>so_expecting_field := False\<rparr>, f))"

definition on_end_of_headers :: "http_socket \<times> read_frame \<Rightarrow> http_socket \<times> read_frame" where
  "on_end_of_headers sf =
     (let (s, f) = sf;
          m = fr_message f;
          m' = (if 1 < length (equal_range (msg_headers m) (asc ''expect''))
                then m\<lparr>msg_headers := multimap_erase (asc ''expect'') (msg_headers m)\<rparr> else m);
          k = (if so_keep_alive s = KEEP_ALIVE_UNKNOWN
               then (if so_modern_http s then KEEP_ALIVE_KEEP_ALIVE_READ else KEEP_ALIVE_CLOSE_READ)
               else so_keep_alive s)
      in (s\<lparr>so_istate := Message_ready, so_writer := Write_empty, so_keep_alive := k\<rparr>,
          f\<lparr>fr_flags := insert READY (fr_flags f), fr_message := m'\<rparr>))"

text \<open>
  The cases of the \<open>switch\<close> on the code of a token; \<open>None\<close> is undefined behaviour: the codes a request
  reader does not deliver end in \<open>BOOST_HTTP_DETAIL_UNREACHABLE\<close>, a method or a path is assigned
  through a pointer that may be null, a field value may be read in front of the array.
\<close>

definition on_token :: "(bytes \<Rightarrow> bytes \<Rightarrow> bool) \<Rightarrow> http_socket \<times> read_frame \<Rightarrow> (http_socket \<times> read_frame) option" where
  "on_token ieq sf =
     (let (s, f) = sf; p = so_parser s
      in case r_code p of
           Skip \<Rightarrow> Some (s, f)
         | Method \<Rightarrow>
             (if fr_method f = None then None
              else Some (s\<lparr>so_use_trailers := False, so_connect_request := (token_view p = asc ''CONNECT'')\<rparr>,
                   f\<lparr>fr_method := Some (token_view p)\<rparr>))
         | Request_target \<Rightarrow> (if fr_path f = None then None else Some (s, f\<lparr>fr_path := Some (token_view p)\<rparr>))
         | Version \<Rightarrow> Some (s\<lparr>so_modern_http := (0 < version_of p), so_keep_alive := KEEP_ALIVE_UNKNOWN\<rparr>, f)
         | Field_name \<Rightarrow> Some (on_field_name (s, f))
         | Field_value \<Rightarrow> on_field_value ieq (s, f)
         | End_of_headers \<Rightarrow> Some (on_end_of_headers (s, f))
         | Body_chunk \<Rightarrow>
             Some (s, f\<lparr>fr_message := (fr_message f)\<lparr>msg_body := msg_body (fr_message f) @ token_view p\<rparr>,
                        fr_flags := insert DATA (fr_flags f)\<rparr>)
         | End_of_body \<Rightarrow> Some (s\<lparr>so_istate := Body_ready, so_use_trailers := True\<rparr>, f)
         | End_of_message \<Rightarrow>
             Some (set_window (fr_nparsed f) (fr_nparsed f + r_tok p) (s\<lparr>so_istate := Read_empty\<rparr>),
                   f\<lparr>fr_flags := insert END (fr_flags f)\<rparr>)
         | _ \<Rightarrow> None)"

datatype loop_result =
    Loop_done http_socket read_frame
  | Loop_error http_socket read_frame
  | Loop_undefined
  | Loop_out_of_fuel

text \<open>The \<open>do\<close> loop; the number of its rounds is the fuel.\<close>

fun read_loop :: "(bytes \<Rightarrow> bytes \<Rightarrow> bool) \<Rightarrow> nat \<Rightarrow> http_socket \<Rightarrow> read_frame \<Rightarrow> loop_result" where
  "read_loop ieq 0 s f = Loop_out_of_fuel"
| "read_loop ieq (Suc n) s f =
     (case request_next ieq (so_parser s) of
        None \<Rightarrow> Loop_undefined
      | Some p \<Rightarrow>
          let s = s\<lparr>so_parser := p\<rparr>
          in if r_code p = Error_insufficient_data then Loop_done s f
             else if r_code p \<in> {Error_invalid_data, Error_no_host, Error_invalid_content_length,
                Error_content_length_overflow, Error_invalid_transfer_encoding, Error_chunk_size_overflow}
             then Loop_error s f
             else case on_token ieq (s, f) of
                    None \<Rightarrow> Loop_undefined
                  | Some (s, f) \<Rightarrow> read_loop ieq n s (f\<lparr>fr_nparsed := fr_nparsed f + r_tok (so_parser s)\<rparr>))"

text \<open>What is not parsed moves to the front of the array, behind the name of a field whose value is missing.\<close>

definition compact :: "http_socket \<Rightarrow> read_frame \<Rightarrow> http_socket" where
  "compact s f =
     (if \<not> so_expecting_field s then s\<lparr>so_buf := drop (fr_nparsed f) (so_buf s)\<rparr>
      else if fr_nparsed f \<noteq> 0 then
        s\<lparr>so_buf := take (so_field_name_size s) (drop (fr_field_name_begin f) (so_buf s)) @ drop (fr_nparsed f) (so_buf s)\<rparr>
      else s)"

datatype read_outcome = Complete error_code | Wait | Undefined_behaviour | No_fuel

definition reached :: "target \<Rightarrow> target set \<Rightarrow> bool" where
  "reached t flags =
     (case t of READY \<Rightarrow> READY \<in> flags | DATA \<Rightarrow> DATA \<in> flags \<or> END \<in> flags | END \<Rightarrow> END \<in> flags)"

definition read_fuel :: "http_socket \<Rightarrow> nat" where
  "read_fuel s = 3 * length (so_buf s) + 3"

definition on_async_read_message ::
  "(bytes \<Rightarrow> bytes \<Rightarrow> bool) \<Rightarrow> target \<Rightarrow> error_code \<Rightarrow> bytes \<Rightarrow> http_socket \<Rightarrow> bytes option \<Rightarrow> bytes option \<Rightarrow> message \<Rightarrow>
     http_socket \<times> bytes option \<times> bytes option \<times> message \<times> read_outcome" where
  "on_async_read_message ieq target ec input s method path m =
     (if ec \<noteq> No_error then (clear_buffer s, method, path, m, Complete ec)
      else
        let s = s\<lparr>so_buf := so_buf s @ input\<rparr>;
            from = (if so_expecting_field s then so_field_name_size s else 0);
            s = set_window from (length (so_buf s)) s;
            f = \<lparr>fr_nparsed = from, fr_field_name_begin = 0, fr_flags = {}, fr_method = method, fr_path = path, fr_message = m\<rparr>
        in case read_loop ieq (read_fuel s) s f of
             Loop_undefined \<Rightarrow> (s, method, path, m, Undefined_behaviour)
           | Loop_out_of_fuel \<Rightarrow> (s, method, path, m, No_fuel)
           | Loop_error s f \<Rightarrow> (clear_buffer s, fr_method f, fr_path f, fr_message f, Complete (Http_error Parsing_error))
           | Loop_done s f \<Rightarrow>
               let s = compact s f
               in (s, fr_method f, fr_path f, fr_message f,
                   if reached target (fr_flags f) then Complete No_error
                   else if length (so_buf s) = so_capacity s then Complete (Http_error Buffer_exhausted)
                   else Wait))"

definition schedule_on_async_read_message ::
  "(bytes \<Rightarrow> bytes \<Rightarrow> bool) \<Rightarrow> target \<Rightarrow> http_socket \<Rightarrow> bytes option \<Rightarrow> bytes option \<Rightarrow> message \<Rightarrow>
     http_socket \<times> bytes option \<times> bytes option \<times> message \<times> read_outcome" where
  "schedule_on_async_read_message ieq target s method path m =
     (if so_buf s \<noteq> [] then on_async_read_message ieq target No_error [] s method path m
      else (s, method, path, m, Wait))"

definition async_read_request ::
  "(bytes \<Rightarrow> bytes \<Rightarrow> bool) \<Rightarrow> http_socket \<Rightarrow> bytes \<Rightarrow> bytes \<Rightarrow> message \<Rightarrow>
     http_socket \<times> bytes option \<times> bytes option \<times> message \<times> read_outcome" where
  "async_read_request ieq s method path m =
     (if so_istate s \<noteq> Read_empty then (s, Some method, Some path, m, Complete (Http_error Out_of_order))
      else schedule_on_async_read_message ieq READY (s\<lparr>so_writer := Finished\<rparr>) (Some []) (Some []) (clear_message m))"

definition async_read_some ::
  "(bytes \<Rightarrow> bytes \<Rightarrow> bool) \<Rightarrow> http_socket \<Rightarrow> message \<Rightarrow> http_socket \<times> bytes option \<times> bytes option \<times> message \<times> read_outcome" where
  "async_read_some ieq s m =
     (if so_istate s \<noteq> Message_ready then (s, None, None, m, Complete (Http_error Out_of_order))
      else schedule_on_async_read_message ieq DATA s None None m)"

definition async_read_trailers ::
  "(bytes \<Rightarrow> bytes \<Rightarrow> bool) \<Rightarrow> http_socket \<Rightarrow> message \<Rightarrow> http_socket \<times> bytes option \<times> bytes option \<times> message \<times> read_outcome" where
  "async_read_trailers ieq s m =
     (if so_istate s \<noteq> Body_ready then (s, None, None, m, Complete (Http_error Out_of_order))
      else schedule_on_async_read_message ieq END s None None m)"

section \<open>Writing\<close>

text \<open>A write either posts its handler or sends bytes.\<close>

datatype write_outcome = Posted error_code | Sent bytes

definition async_write_response ::
  "(bytes \<Rightarrow> bytes \<Rightarrow> bool) \<Rightarrow> nat \<Rightarrow> bytes \<Rightarrow> message \<Rightarrow> http_socket \<Rightarrow> http_socket \<times> write_outcome" where
  "async_write_response ieq status reason m s =
     (let (ok, w) = write_message (so_writer s)
      in if \<not> ok then (s, Posted (Http_error Out_of_order))
         else let s = s\<lparr>so_writer := w\<rparr>;
                  close = has_connection_close ieq (msg_headers m);
                  s = (if close then s\<lparr>so_keep_alive := KEEP_ALIVE_CLOSE_READ\<rparr> else s);
                  use_close = (so_keep_alive s = KEEP_ALIVE_CLOSE_READ \<and> \<not> close)
              in (s, Sent (response_bytes (so_modern_http s) (so_connect_request s) use_close status reason m)))"

definition async_write_response_continue :: "http_socket \<Rightarrow> http_socket \<times> write_outcome" where
  "async_write_response_continue s =
     (let (ok, w) = write_continue (so_writer s)
      in if \<not> ok then (s, Posted (Http_error Out_of_order)) else (s\<lparr>so_writer := w\<rparr>, Sent continue_bytes))"

definition async_write_response_metadata ::
  "(bytes \<Rightarrow> bytes \<Rightarrow> bool) \<Rightarrow> nat \<Rightarrow> bytes \<Rightarrow> message \<Rightarrow> http_socket \<Rightarrow> http_socket \<times> write_outcome" where
  "async_write_response_metadata ieq status reason m s =
     (let prev = so_writer s; (ok, w) = write_metadata (so_writer s)
      in if \<not> ok then (s, Posted (Http_error Out_of_order))
         else let s = s\<lparr>so_writer := w\<rparr>
              in if \<not> so_modern_http s then (s\<lparr>so_writer := prev\<rparr>, Posted (Http_error Native_stream_unsupported))
                 else let close = has_connection_close ieq (msg_headers m);
                          s = (if close then s\<lparr>so_keep_alive := KEEP_ALIVE_CLOSE_READ\<rparr> else s);
                          use_close = (so_keep_alive s = KEEP_ALIVE_CLOSE_READ \<and> \<not> close)
                      in (s, Sent (metadata_bytes (so_modern_http s) use_close status reason m)))"

definition async_write :: "message \<Rightarrow> http_socket \<Rightarrow> http_socket \<times> write_outcome" where
  "async_write m s =
     (let (ok, w) = write_chunk (so_writer s)
      in if \<not> ok then (s, Posted (Http_error Out_of_order))
         else if length (msg_body m) = 0 then (s\<lparr>so_writer := w\<rparr>, Posted No_error)
         else (s\<lparr>so_writer := w\<rparr>, Sent (chunk_bytes (msg_body m))))"

definition async_write_trailers :: "message \<Rightarrow> http_socket \<Rightarrow> http_socket \<times> write_outcome" where
  "async_write_trailers m s =
     (let (ok, w) = write_trailers (so_writer s)
      in if \<not> ok then (s, Posted (Http_error Out_of_order)) else (s\<lparr>so_writer := w\<rparr>, Sent (trailer_bytes m)))"

definition async_write_end_of_message :: "http_socket \<Rightarrow> http_socket \<times> write_outcome" where
  "async_write_end_of_message s =
     (let (ok, w) = write_end (so_writer s)
      in if \<not> ok then (s, Posted (Http_error Out_of_order)) else (s\<lparr>so_writer := w\<rparr>, Sent end_of_message_bytes))"

text \<open>The completion handler of the writes that end a response.\<close>

definition on_response_written :: "http_socket \<Rightarrow> http_socket" where
  "on_response_written s =
     (let s = s\<lparr>so_is_open := (so_keep_alive s = KEEP_ALIVE_KEEP_ALIVE_READ)\<rparr>
      in if \<not> so_is_open s then s\<lparr>so_channel_open := False\<rparr> else s)"

text \<open>The operations of the application that write.\<close>

datatype write_call =
    Write_response nat bytes message
  | Write_continue
  | Write_metadata nat bytes message
  | Write_chunk message
  | Write_trailers message
  | Write_end

definition run_write :: "(bytes \<Rightarrow> bytes \<Rightarrow> bool) \<Rightarrow> write_call \<Rightarrow> http_socket \<Rightarrow> http_socket \<times> write_outcome" where
  "run_write ieq c s =
     (case c of
        Write_response status reason m \<Rightarrow> async_write_response ieq status reason m s
      | Write_continue \<Rightarrow> async_write_response_continue s
      | Write_metadata status reason m \<Rightarrow> async_write_response_metadata ieq status reason m s
      | Write_chunk m \<Rightarrow> async_write m s
      | Write_trailers m \<Rightarrow> async_write_trailers m s
      | Write_end \<Rightarrow> async_write_end_of_message s)"

section \<open>Instances\<close>

definition idle_socket :: http_socket where
  "idle_socket =
     \<lparr>so_channel_open = True, so_is_open = True, so_istate = Read_empty, so_capacity = 16, so_buf = [],
      so_parser = new_request HTTP_1_0 0, so_field_name_size = 0, so_expecting_field = False, so_use_trailers = False,
      so_modern_http = True, so_keep_alive = KEEP_ALIVE_KEEP_ALIVE_READ, so_writer = Write_empty,
      so_connect_request = False\<rparr>"

definition empty_message :: message where
  "empty_message = \<lparr>msg_headers = [], msg_body = [], msg_trailers = []\<rparr>"

end
