(* ===== verification/StatusCode.thy ===== *)
theory StatusCode
  imports ResponseRoundtrip HttpSocket
begin

text \<open>
  The status codes of \<open>status_code.hpp\<close> with the reason phrases of \<open>status_code-inl.hpp\<close>. Every one of them can be
  written into a status line and is read back: three digits, and a phrase in the grammar of phrases.
\<close>

datatype (plugins only: code size) status_code =
    continue_request
  | switching_protocols
  | processing
  | ok
  | created
  | accepted
  | non_authoritative_information
  | no_content
  | reset_content
  | partial_content
  | multi_status
  | already_reported
  | im_used
  | multiple_choices
  | moved_permanently
  | found
  | see_other
  | not_modified
  | use_proxy
  | switch_proxy
  | temporary_redirect
  | permanent_redirect
  | bad_request
  | unauthorized
  | payment_required
  | forbidden
  | not_found
  | method_not_allowed
  | not_acceptable
  | proxy_authentication_required
  | request_timeout
  | conflict
  | gone
  | length_required
  | precondition_failed
  | payload_too_large
  | uri_too_long
  | unsupported_media_type
  | requested_range_not_satisfiable
  | expectation_failed
  | unprocessable_entity
  | locked
  | failed_dependency
  | upgrade_required
  | precondition_required
  | too_many_requests
  | request_header_fields_too_large
  | internal_server_error
  | not_implemented
  | bad_gateway
  | service_unavailable
  | gateway_timeout
  | http_version_not_supported
  | variant_also_negotiates
  | insufficient_storage
  | loop_detected
  | not_extended
  | network_authentication_required

text \<open>The value of an enumerator.\<close>

primrec status_value :: "status_code \<Rightarrow> nat" where
  "status_value continue_request = 100"
| "status_value switching_protocols = 101"
| "status_value processing = 102"
| "status_value ok = 200"
| "status_value created = 201"
| "status_value accepted = 202"
| "status_value non_authoritative_information = 203"
| "status_value no_content = 204"
| "status_value reset_content = 205"
| "status_value partial_content = 206"
| "status_value multi_status = 207"
| "status_value already_reported = 208"
| "status_value im_used = 226"
| "status_value multiple_choices = 300"
| "status_value moved_permanently = 301"
| "status_value found = 302"
| "status_value see_other = 303"
| "status_value not_modified = 304"
| "status_value use_proxy = 305"
| "status_value switch_proxy = 306"
| "status_value temporary_redirect = 307"
| "status_value permanent_redirect = 308"
| "status_value bad_request = 400"
| "status_value unauthorized = 401"
| "status_value payment_required = 402"
| "status_value forbidden = 403"
| "status_value not_found = 404"
| "status_value method_not_allowed = 405"
| "status_value not_acceptable = 406"
| "status_value proxy_authentication_required = 407"
| "status_value request_timeout = 408"
| "status_value conflict = 409"
| "status_value gone = 410"
| "status_value length_required = 411"
| "status_value precondition_failed = 412"
| "status_value payload_too_large = 413"
| "status_value uri_too_long = 414"
| "status_value unsupported_media_type = 415"
| "status_value requested_range_not_satisfiable = 416"
| "status_value expectation_failed = 417"
| "status_value unprocessable_entity = 422"
| "status_value locked = 423"
| "status_value failed_dependency = 424"
| "status_value upgrade_required = 426"
| "status_value precondition_required = 428"
| "status_value too_many_requests = 429"
| "status_value request_header_fields_too_large = 431"
| "status_value internal_server_error = 500"
| "status_value not_implemented = 501"
| "status_value bad_gateway = 502"
| "status_value service_unavailable = 503"
| "status_value gateway_timeout = 504"
| "status_value http_version_not_supported = 505"
| "status_value variant_also_negotiates = 506"
| "status_value insufficient_storage = 507"
| "status_value loop_detected = 508"
| "status_value not_extended = 510"
| "status_value network_authentication_required = 511"

text \<open>\<open>to_string\<close>\<close>

primrec status_phrase :: "status_code \<Rightarrow> string" where
  "status_phrase continue_request = ''Continue''"
| "status_phrase switching_protocols = ''Switching Protocols''"
| "status_phrase processing = ''Processing''"
| "status_phrase ok = ''OK''"
| "status_phrase created = ''Created''"
| "status_phrase accepted = ''Accepted''"
| "status_phrase non_authoritative_information = ''Non-Authoritative Information''"
| "status_phrase no_content = ''No Content''"
| "status_phrase reset_content = ''Reset Content''"
| "status_phrase partial_content = ''Partial Content''"
| "status_phrase multi_status = ''Multi-Status''"
| "status_phrase already_reported = ''Already Reported''"
| "status_phrase im_used = ''IM Used''"
| "status_phrase multiple_choices = ''Multiple Choices''"
| "status_phrase moved_permanently = ''Moved Permanently''"
| "status_phrase found = ''Found''"
| "status_phrase see_other = ''See Other''"
| "status_phrase not_modified = ''Not Modified''"
| "status_phrase use_proxy = ''Use Proxy''"
| "status_phrase switch_proxy = ''Switch Proxy''"
| "status_phrase temporary_redirect = ''Temporary Redirect''"
| "status_phrase permanent_redirect = ''Permanent Redirect''"
| "status_phrase bad_request = ''Bad Request''"
| "status_phrase unauthorized = ''Unauthorized''"
| "status_phrase payment_required = ''Payment Required''"
| "status_phrase forbidden = ''Forbidden''"
| "status_phrase not_found = ''Not Found''"
| "status_phrase method_not_allowed = ''Method Not Allowed''"
| "status_phrase not_acceptable = ''Not Acceptable''"
| "status_phrase proxy_authentication_required = ''Proxy Authentication Required''"
| "status_phrase request_timeout = ''Request Timeout''"
| "status_phrase conflict = ''Conflict''"
| "status_phrase gone = ''Gone''"
| "status_phrase length_required = ''Length Required''"
| "status_phrase precondition_failed = ''Precondition Failed''"
| "status_phrase payload_too_large = ''Payload Too Large''"
| "status_phrase uri_too_long = ''URI Too Long''"
| "status_phrase unsupported_media_type = ''Unsupported Media Type''"
| "status_phrase requested_range_not_satisfiable = ''Requested Range Not Satisfiable''"
| "status_phrase expectation_failed = ''Expectation Failed''"
| "status_phrase unprocessable_entity = ''Unprocessable Entity''"
| "status_phrase locked = ''Locked''"
| "status_phrase failed_dependency = ''Failed Dependency''"
| "status_phrase upgrade_required = ''Upgrade Required''"
| "status_phrase precondition_required = ''Precondition Required''"
| "status_phrase too_many_requests = ''Too Many Requests''"
| "status_phrase request_header_fields_too_large = ''Request Header Fields Too Large''"
| "status_phrase internal_server_error = ''Internal Server Error''"
| "status_phrase not_implemented = ''Not Implemented''"
| "status_phrase bad_gateway = ''Bad Gateway''"
| "status_phrase service_unavailable = ''Service Unavailable''"
| "status_phrase gateway_timeout = ''Gateway Timeout''"
| "status_phrase http_version_not_supported = ''HTTP Version Not Supported''"
| "status_phrase variant_also_negotiates = ''Variant Also Negotiates''"
| "status_phrase insufficient_storage = ''Insufficient Storage''"
| "status_phrase loop_detected = ''Loop Detected''"
| "status_phrase not_extended = ''Not Extended''"
| "status_phrase network_authentication_required = ''Network Authentication Required''"

section \<open>Status lines\<close>

lemma status_value_digits: "100 \<le> status_value sc" "status_value sc \<le> 511"
  by (cases sc; simp)+

lemma status_phrase_text: "status_phrase sc \<noteq> []" "list_all is_reason_phrase_char (asc (status_phrase sc))"
  by (cases sc; simp; fail) (cases sc; simp add: asc_def is_reason_phrase_char_def is_vchar_def is_ows_def)

text \<open>The number of a status line tells the code: no two enumerators share one.\<close>

definition status_codes :: "status_code list" where
  "status_codes =
     [continue_request, switching_protocols, processing, ok, created, accepted, non_authoritative_information,
      no_content, reset_content, partial_content, multi_status, already_reported, im_used, multiple_choices,
      moved_permanently, found, see_other, not_modified, use_proxy, switch_proxy, temporary_redirect,
      permanent_redirect, bad_request, unauthorized, payment_required, forbidden, not_found, method_not_allowed,
      not_acceptable, proxy_authentication_required, request_timeout, conflict, gone, length_required,
      precondition_failed, payload_too_large, uri_too_long, unsupported_media_type, requested_range_not_satisfiable,
      expectation_failed, unprocessable_entity, locked, failed_dependency, upgrade_required, precondition_required,
      too_many_requests, request_header_fields_too_large, internal_server_error, not_implemented, bad_gateway,
      service_unavailable, gateway_timeout, http_version_not_supported, variant_also_negotiates,
      insufficient_storage, loop_detected, not_extended, network_authentication_required]"

lemma status_value_eq_iff [simp]: "status_value sc = status_value sc' \<longleftrightarrow> sc = sc'"
proof -
  have "map_of (map (\<lambda>sc. (status_value sc, sc)) status_codes) (status_value sc) = Some sc" for sc
    by (cases sc) (simp_all add: status_codes_def)
  then show ?thesis
    by (metis option.inject)
qed

lemma status_line_of_code:
  "\<exists>r. reads (set_buffer (start_line modern (status_value sc) (asc (status_phrase sc)) @ rest) (new_response k))
      [(Skip, version_static_str), (Version, [version_digit modern]), (Skip, [0x20]), (Status_code, to_string (status_value sc))] r
    \<and> at r EXPECT_SP_AFTER_STATUS_CODE UNKNOWN_BODY ([0x20] @ asc (status_phrase sc) @ crlf @ rest)
    \<and> response_status_code r = of_nat (status_value sc)"
  using status_value_digits [of sc] by (intro status_line_head) simp_all

section \<open>Responses with a status code\<close>

text \<open>\<open>algorithm/write.hpp\<close>: the functions that take a \<open>status_code\<close> pass its number and its phrase on.\<close>

definition async_write_response_code ::
  "(bytes \<Rightarrow> bytes \<Rightarrow> bool) \<Rightarrow> status_code \<Rightarrow> message \<Rightarrow> http_socket \<Rightarrow> http_socket \<times> write_outcome" where
  "async_write_response_code ieq sc m s = async_write_response ieq (status_value sc) (asc (status_phrase sc)) m s"

definition async_write_response_metadata_code ::
  "(bytes \<Rightarrow> bytes \<Rightarrow> bool) \<Rightarrow> status_code \<Rightarrow> message \<Rightarrow> http_socket \<Rightarrow> http_socket \<times> write_outcome" where
  "async_write_response_metadata_code ieq sc m s = async_write_response_metadata ieq (status_value sc) (asc (status_phrase sc)) m s"

text \<open>What such a function sends, a client reads as this status code and no other.\<close>

lemma status_code_read_back:
  assumes "async_write_response_code ieq sc m s = (s', Sent b)"
  shows "\<exists>r v. reads (set_buffer b (new_response k)) [(Skip, version_static_str), (Version, v), (Skip, [0x20]), (Status_code, to_string (status_value sc))] r
    \<and> (\<forall>sc'. response_status_code r = of_nat (status_value sc') \<longleftrightarrow> sc' = sc)"
proof -
  obtain modern rest where b: "b = start_line modern (status_value sc) (asc (status_phrase sc)) @ rest"
    using assms by (auto simp: async_write_response_code_def async_write_response_def response_bytes_def Let_def split: if_splits prod.splits)
  have "(of_nat (status_value sc) :: 16 word) = of_nat (status_value sc') \<longleftrightarrow> sc' = sc" for sc'
  proof -
    have "unat (of_nat (status_value c) :: 16 word) = status_value c" for c
      using status_value_digits [of c] by (simp add: unat_of_nat)
    then show ?thesis
      using status_value_eq_iff by metis
  qed
  then show ?thesis
    using status_line_of_code [of modern sc rest k] unfolding b by metis
qed

end
