(* ===== verification/SocketLoop.thy ===== *)
theory SocketLoop
  imports HttpSocket
begin

text \<open>
  The loop over the tokens in \<open>on_async_read_message\<close>: the invariant of the socket between two calls and
  between two rounds, what each token does to it, and that the loop ends without undefined behaviour.
\<close>

section \<open>The invariant of the socket\<close>

text \<open>What the position in the message says about the state of the socket.\<close>

definition phase :: "order \<Rightarrow> read_state" where
  "phase q =
     (if q = In_body then Message_ready
      else if q = In_trailers \<or> q = In_trailer_value then Body_ready
      else Read_empty)"

definition position_ok :: "http_socket \<Rightarrow> bool" where
  "position_ok s \<longleftrightarrow>
     (let q = order_of (r_state (so_parser s))
      in so_istate s = phase q
       \<and> (so_expecting_field s \<longleftrightarrow> q = In_header_value \<or> q = In_trailer_value)
       \<and> (q \<in> {Want_target, Want_version, In_headers, In_header_value} \<longrightarrow> \<not> so_use_trailers s)
       \<and> (q \<in> {In_trailers, In_trailer_value} \<longrightarrow> so_use_trailers s)
       \<and> (phase q \<noteq> Read_empty \<longrightarrow> so_keep_alive s \<noteq> KEEP_ALIVE_UNKNOWN))"

text \<open>The name of the field whose value is expected is \<open>n\<close> bytes long and begins at \<open>i\<close>; it is in lower case.\<close>

definition is_name_char :: "byte \<Rightarrow> bool" where
  "is_name_char c \<longleftrightarrow> is_tchar c \<and> ascii_lower c = c"

definition name_at :: "nat \<Rightarrow> nat \<Rightarrow> bytes \<Rightarrow> bool" where
  "name_at i n v \<longleftrightarrow> 0 < n \<and> i + n \<le> length v \<and> list_all is_name_char (take n (drop i v))"

definition window_start :: "http_socket \<Rightarrow> nat" where
  "window_start s = (if so_expecting_field s then so_field_name_size s else 0)"

text \<open>Between two calls.\<close>

definition socket_ok :: "http_socket \<Rightarrow> bool" where
  "socket_ok s \<longleftrightarrow>
     0 < so_capacity s \<and> length (so_buf s) \<le> so_capacity s
   \<and> position_ok s
   \<and> r_code (so_parser s) = Error_insufficient_data \<and> r_state (so_parser s) \<noteq> ERRORED
   \<and> request_ok (so_parser (set_window (window_start s) (length (so_buf s)) s))
   \<and> (so_expecting_field s \<longrightarrow> name_at 0 (so_field_name_size s) (so_buf s))"

text \<open>Between two rounds of the loop; \<open>orig\<close> is the array when the loop began.\<close>

definition loop_ok :: "bytes \<Rightarrow> http_socket \<Rightarrow> read_frame \<Rightarrow> bool" where
  "loop_ok orig s f \<longleftrightarrow>
     request_ok (so_parser s) \<and> r_state (so_parser s) \<noteq> ERRORED
   \<and> position_ok s
   \<and> fr_nparsed f = consumed (so_parser s)
   \<and> length (so_buf s) = length orig \<and> drop (fr_nparsed f) (so_buf s) = drop (fr_nparsed f) orig
   \<and> (so_expecting_field s \<longrightarrow>
        name_at (fr_field_name_begin f) (so_field_name_size s) (take (fr_nparsed f) (so_buf s)))
   \<and> (if END \<in> fr_flags f
      then r_buf (so_parser s) = take (fr_nparsed f) (so_buf s) \<and> fr_nparsed f \<le> length (so_buf s)
         \<and> order_of (r_state (so_parser s)) = Want_method \<and> is_token (r_code (so_parser s))
      else r_buf (so_parser s) = so_buf s
         \<and> (fr_method f = None \<or> fr_path f = None \<longrightarrow> phase (order_of (r_state (so_parser s))) \<noteq> Read_empty))"

lemma tchar_not_ows: "is_tchar c \<Longrightarrow> \<not> is_ows c"
  by (auto simp: is_tchar_def is_ows_def isalnum_def isalpha_def isdigit_def asc_def)

lemma isalpha_lower: "isalpha c \<Longrightarrow> isalpha (ascii_lower c)"
proof -
  assume "isalpha c"
  then have "unat c \<in> {65..90} \<or> unat c \<in> {97..122}"
    by (auto simp: isalpha_def word_le_nat_alt)
  moreover have "unat (c + 0x20) = unat c + 32" if "unat c \<le> 90"
    using that by (subst unat_add_lem [THEN iffD1]) simp_all
  ultimately show ?thesis
    by (auto simp: isalpha_def ascii_lower_def word_le_nat_alt)
qed

lemma tchar_lower: "is_tchar c \<Longrightarrow> is_tchar (ascii_lower c)"
proof (cases "isalpha c")
  case True
  then show ?thesis
    using isalpha_lower by (simp add: is_tchar_def isalnum_def)
next
  case False
  then have "ascii_lower c = c"
    by (auto simp: isalpha_def ascii_lower_def)
  then show "is_tchar c \<Longrightarrow> ?thesis" by simp
qed

lemma ascii_lower_idem: "ascii_lower (ascii_lower c) = ascii_lower c"
proof (cases "0x41 \<le> c \<and> c \<le> 0x5A")
  case True
  then have "unat c \<in> {65..90}"
    by (auto simp: word_le_nat_alt)
  moreover from this have "unat (c + 0x20) = unat c + 32"
    by (subst unat_add_lem [THEN iffD1]) simp_all
  ultimately show ?thesis
    by (auto simp: ascii_lower_def word_le_nat_alt)
qed (auto simp: ascii_lower_def)

lemma name_char_lower: "is_tchar c \<Longrightarrow> is_name_char (ascii_lower c)"
  by (simp add: is_name_char_def tchar_lower ascii_lower_idem)

text \<open>So the reader finds a byte that is no blank in front of a value.\<close>

lemma name_at_front: "name_at i n (take k v) \<Longrightarrow> \<not> list_all is_ows (take k v)"
proof
  assume n: "name_at i n (take k v)" and o: "list_all is_ows (take k v)"
  then have "i < length (take k v)" "0 < n"
    by (auto simp: name_at_def)
  then have "take k v ! i \<in> set (take n (drop i (take k v)))"
    by (cases n) (simp_all add: Cons_nth_drop_Suc [symmetric])
  moreover have "take k v ! i \<in> set (take k v)"
    using \<open>i < length (take k v)\<close> by (rule nth_mem)
  ultimately show False
    using n o tchar_not_ows by (auto simp: name_at_def list_all_iff is_name_char_def)
qed

lemma length_lower_at [simp]: "i + n \<le> length v \<Longrightarrow> length (lower_at i n v) = length v"
  by (simp add: lower_at_def)

lemma drop_lower_at: "i + n \<le> length v \<Longrightarrow> drop (i + n) (lower_at i n v) = drop (i + n) v"
  by (simp add: lower_at_def)

lemma take_drop_lower_at: "i + n \<le> length v \<Longrightarrow> take n (drop i (lower_at i n v)) = map ascii_lower (take n (drop i v))"
  by (simp add: lower_at_def)


section \<open>What the socket needs to know of a call of the reader\<close>

lemma request_next_idx:
  assumes "request_ok r" and "request_next ieq r = Some r'" and "r_state r \<noteq> ERRORED"
  shows "r_idx r' = consumed r"
proof -
  consider (body) "r_state r = EXPECT_END_OF_BODY" | (message) "r_state r = EXPECT_END_OF_MESSAGE" | (wait) "r' = advance r"
    | (step) a where "request_handler ieq a = Ret r'" "request_ready a" "r_idx a = consumed r"
    using request_next_case [OF assms(1,2)] assms(3) by auto
  then show ?thesis
  proof cases
    case body
    then have "r_code r' = End_of_body"
      using assms(2) request_next_early(2) [of r ieq] by auto
    then show ?thesis
      using request_next_some [OF assms(1,2)] by simp
  next
    case message
    then have "r_code r' = End_of_message"
      using assms(2) request_next_early(3) [of r ieq] by auto
    then show ?thesis
      using request_next_some [OF assms(1,2)] by simp
  next
    case wait
    then show ?thesis
      using request_advance_idx [OF assms(1,3)] by simp
  next
    case (step a)
    then show ?thesis
      using request_handler_ok [OF step(2), of ieq] by (simp add: request_case_ok_def)
  qed
qed

lemma request_next_field_name:
  assumes "request_ok r" and "request_next ieq r = Some r'" and "r_state r \<noteq> ERRORED" and "r_code r' = Field_name"
  shows "0 < r_tok r' \<and> list_all is_tchar (token_view r')"
proof -
  consider (body) "r_state r = EXPECT_END_OF_BODY" | (message) "r_state r = EXPECT_END_OF_MESSAGE" | (wait) "r' = advance r"
    | (step) a where "request_handler ieq a = Ret r'" "request_ready a"
    using request_next_case [OF assms(1,2)] assms(3) by auto
  then show ?thesis
  proof cases
    case (step a)
    have "r_state a \<in> {EXPECT_FIELD_NAME, EXPECT_TRAILER_NAME}"
      using request_handler_codes [OF step(2,1)] assms(4)
      by (cases "r_state a") (auto simp: request_case_codes_def)
    then have "request_partial_ok a"
      by (auto simp: request_partial_ok_def)
    from request_handler_text [OF step(2) this step(1)] assms(4) show ?thesis
      by (auto simp: token_text_ok_def token_view_def)
  qed (use assms(2,4) in \<open>auto simp: request_next_early\<close>)
qed

text \<open>Asking for more data at the end of the window keeps no part of a token that was complete.\<close>

lemma request_next_drained:
  assumes "request_ok r" and "is_token (r_code r)" and "r_state r = EXPECT_METHOD" and "consumed r = length (r_buf r)"
  shows "request_next ieq r = Some (advance r)" "r_tok (advance r) = 0"
proof -
  have "r_idx (advance r) = length (r_buf r)"
    using request_advance_idx [OF assms(1)] assms(3,4) by simp
  then show "request_next ieq r = Some (advance r)"
    using request_next_later [of r ieq] assms(3) by simp
  show "r_tok (advance r) = 0"
    using assms(2) by (auto simp: advance_def)
qed

lemma order_stepE:
  assumes "order_step c q = Some q'"
  obtains "c = Skip" "q' = q"
  | "c = Method" "q = Want_method" "q' = Want_target"
  | "c = Request_target" "q = Want_target" "q' = Want_version"
  | "c = Version" "q = Want_version" "q' = In_headers"
  | "c = Field_name" "q = In_headers" "q' = In_header_value"
  | "c = Field_value" "q = In_header_value" "q' = In_headers"
  | "c = End_of_headers" "q = In_headers" "q' = In_body"
  | "c = Body_chunk" "q = In_body" "q' = In_body"
  | "c = End_of_body" "q = In_body" "q' = In_trailers"
  | "c = Field_name" "q = In_trailers" "q' = In_trailer_value"
  | "c = Field_value" "q = In_trailer_value" "q' = In_trailers"
  | "c = End_of_message" "q = In_trailers" "q' = Want_method"
  using assms by (cases c; cases q; simp add: order_step_def)

lemma Want_method_state: "order_of s = Want_method \<Longrightarrow> s \<noteq> ERRORED \<Longrightarrow> s = EXPECT_METHOD"
  by (cases s) (simp_all add: order_of_def)

section \<open>One round of the loop\<close>

text \<open>The value of a field is never read in front of the array: the name is there.\<close>

lemma value_after_name:
  assumes "name_at i n (take (r_idx p) (r_buf p))"
  shows "field_value_of p \<noteq> None"
  using name_at_front [OF assms] by (simp add: field_value_of_def decode_field_value_def)

lemma loop_no_undefined:
  assumes "loop_ok orig s f"
  shows "request_next ieq (so_parser s) \<noteq> None"
proof
  let ?p = "so_parser s"
  assume none: "request_next ieq ?p = None"
  have ok: "request_ok ?p" and st: "r_state ?p \<noteq> ERRORED"
    using assms by (simp_all add: loop_ok_def)
  have later: "r_state ?p \<notin> {ERRORED, EXPECT_END_OF_BODY, EXPECT_END_OF_MESSAGE}"
    using none request_next_early [of ?p ieq] by auto
  then have "r_idx (advance ?p) \<noteq> length (r_buf ?p)" "request_next ieq (advance ?p) = None"
    using none request_next_later [OF later, of ieq] by (simp_all split: if_splits)
  with request_next_result [OF request_advance_ready [OF ok later], of ieq] have front: "reads_in_front ?p"
    by (simp add: reads_in_front_advance)
  then have "order_of (r_state ?p) = In_header_value"
    by (auto simp: reads_in_front_def Let_def order_of_def)
  moreover from this have "END \<notin> fr_flags f"
    using assms by (auto simp: loop_ok_def)
  ultimately have "name_at (fr_field_name_begin f) (so_field_name_size s) (take (consumed ?p) (r_buf ?p))"
    using assms by (auto simp: loop_ok_def position_ok_def Let_def)
  then have "\<not> list_all is_ows (take (consumed ?p) (r_buf ?p))"
    by (rule name_at_front)
  with front request_advance_idx [OF ok st] show False
    by (simp add: reads_in_front_def Let_def)
qed


lemma loop_okD:
  assumes "loop_ok orig s f"
  shows "request_ok (so_parser s)" "r_state (so_parser s) \<noteq> ERRORED" "position_ok s"
    "fr_nparsed f = consumed (so_parser s)" "length (so_buf s) = length orig"
    "drop (fr_nparsed f) (so_buf s) = drop (fr_nparsed f) orig"
    "so_expecting_field s \<Longrightarrow> name_at (fr_field_name_begin f) (so_field_name_size s) (take (fr_nparsed f) (so_buf s))"
    "END \<notin> fr_flags f \<Longrightarrow> r_buf (so_parser s) = so_buf s"
    "END \<notin> fr_flags f \<Longrightarrow> fr_method f = None \<or> fr_path f = None \<Longrightarrow>
       phase (order_of (r_state (so_parser s))) \<noteq> Read_empty"
  using assms unfolding loop_ok_def by auto

lemma loop_token_facts:
  assumes "loop_ok orig s f" and "END \<notin> fr_flags f" and "request_next ieq (so_parser s) = Some p" and "is_token (r_code p)"
  shows "request_ok p" "r_state p \<noteq> ERRORED" "r_buf p = so_buf s" "r_idx p = fr_nparsed f"
    "consumed p = fr_nparsed f + r_tok p" "fr_nparsed f + r_tok p \<le> length (so_buf s)"
    "order_step (r_code p) (order_of (r_state (so_parser s))) = Some (order_of (r_state p))"
    "token_measure request_rank p < token_measure request_rank (so_parser s)"
proof -
  let ?r = "so_parser s"
  have ok: "request_ok ?r" and st: "r_state ?r \<noteq> ERRORED" and buf: "r_buf ?r = so_buf s" and c: "fr_nparsed f = consumed ?r"
    using loop_okD [OF assms(1)] assms(2) by simp_all
  show ok': "request_ok p" and b: "r_buf p = so_buf s"
    using request_next_some [OF ok assms(3)] buf by simp_all
  show i: "r_idx p = fr_nparsed f"
    using request_next_idx [OF ok assms(3) st] c by simp
  then show "consumed p = fr_nparsed f + r_tok p"
    using assms(4) by (simp add: consumed_def)
  show "fr_nparsed f + r_tok p \<le> length (so_buf s)"
    using ok' b i by (simp add: request_ok_def cursor_ok_def)
  show "r_state p \<noteq> ERRORED"
  proof
    assume "r_state p = ERRORED"
    with ok' assms(4) show False
      by (simp add: request_ok_def)
  qed
  show "order_step (r_code p) (order_of (r_state ?r)) = Some (order_of (r_state p))"
    by (rule request_next_order(1) [OF ok assms(3) st assms(4)])
  show "token_measure request_rank p < token_measure request_rank ?r"
    by (rule requests.next_measure [OF ok assms(3,4)])
qed

lemma request_ok_buf:
  "request_ok r \<Longrightarrow> length v = length (r_buf r) \<Longrightarrow> request_ok (r\<lparr>r_buf := v\<rparr>)"
  by (simp add: request_ok_def cursor_ok_def)

lemma request_ok_window:
  "request_ok r \<Longrightarrow> i + r_tok r \<le> length v \<Longrightarrow> request_ok (r\<lparr>r_buf := v, r_idx := i\<rparr>)"
  by (simp add: request_ok_def cursor_ok_def)

text \<open>A round that changes neither the array nor the parser.\<close>

lemma quiet_round:
  assumes "loop_ok orig s f" and "END \<notin> fr_flags f" and "request_next ieq (so_parser s) = Some p" and "is_token (r_code p)"
    and "so_parser s1 = p" "so_buf s1 = so_buf s" "so_field_name_size s1 = so_field_name_size s"
    and "position_ok s1"
    and "fr_nparsed f1 = fr_nparsed f" "fr_field_name_begin f1 = fr_field_name_begin f" "END \<notin> fr_flags f1"
    and "so_expecting_field s1 \<Longrightarrow> so_expecting_field s"
    and "fr_method f1 = None \<or> fr_path f1 = None \<Longrightarrow> phase (order_of (r_state p)) \<noteq> Read_empty"
  shows "loop_ok orig s1 (f1\<lparr>fr_nparsed := fr_nparsed f1 + r_tok (so_parser s1)\<rparr>)"
proof -
  note t = loop_token_facts [OF assms(1-4)]
  note orig = loop_okD(5,6) [OF assms(1)]
  have "drop (r_tok p) (drop (fr_nparsed f) (so_buf s)) = drop (r_tok p) (drop (fr_nparsed f) orig)"
    using orig by simp
  then have d: "drop (fr_nparsed f + r_tok p) (so_buf s) = drop (fr_nparsed f + r_tok p) orig"
    by (simp add: add.commute)
  have "name_at (fr_field_name_begin f) (so_field_name_size s) (take (fr_nparsed f + r_tok p) (so_buf s))"
    if "so_expecting_field s"
  proof -
    have n: "name_at (fr_field_name_begin f) (so_field_name_size s) (take (fr_nparsed f) (so_buf s))"
      by (rule loop_okD(7) [OF assms(1) that])
    have "take (so_field_name_size s) (drop (fr_field_name_begin f) (take k (so_buf s)))
        = take (so_field_name_size s) (drop (fr_field_name_begin f) (so_buf s))"
      if "fr_field_name_begin f + so_field_name_size s \<le> k" for k
      using that by (simp add: drop_take min_def)
    from this [of "fr_nparsed f"] this [of "fr_nparsed f + r_tok p"] n t(6) show ?thesis
      by (auto simp: name_at_def)
  qed
  with t assms orig d show ?thesis
    by (simp add: loop_ok_def)
qed

lemma on_field_name_round:
  assumes "loop_ok orig s f" and "END \<notin> fr_flags f" and "request_next ieq (so_parser s) = Some p" and "r_code p = Field_name"
    and "on_field_name (s\<lparr>so_parser := p\<rparr>, f) = (s1, f1)"
  shows "loop_ok orig s1 (f1\<lparr>fr_nparsed := fr_nparsed f1 + r_tok (so_parser s1)\<rparr>)"
    and "token_measure request_rank (so_parser s1) = token_measure request_rank p"
proof -
  have tok: "is_token (r_code p)"
    by (simp add: assms(4))
  note t = loop_token_facts [OF assms(1-3) tok]
  have ok: "request_ok (so_parser s)" and st: "r_state (so_parser s) \<noteq> ERRORED"
    and orig: "length (so_buf s) = length orig" "drop (fr_nparsed f) (so_buf s) = drop (fr_nparsed f) orig"
    and pos: "position_ok s"
    and ptr: "fr_method f = None \<or> fr_path f = None \<longrightarrow> phase (order_of (r_state (so_parser s))) \<noteq> Read_empty"
    using loop_okD [OF assms(1)] assms(2) by simp_all
  let ?i = "fr_nparsed f" and ?n = "r_tok p"
  define v where "v = lower_at ?i ?n (so_buf s)"
  have s1: "s1 = s\<lparr>so_parser := p\<lparr>r_buf := v\<rparr>, so_field_name_size := ?n, so_buf := v, so_expecting_field := True\<rparr>"
    and f1: "f1 = f\<lparr>fr_field_name_begin := ?i\<rparr>"
    using assms(5) t(3) by (auto simp: on_field_name_def Let_def v_def)
  have len: "length v = length (so_buf s)"
    using t(6) by (simp add: v_def)
  have name: "0 < ?n" "list_all is_tchar (take ?n (drop ?i (so_buf s)))"
    using request_next_field_name [OF ok assms(3) st assms(4)] t(3,4) by (simp_all add: token_view_def)
  have "take ?n (drop ?i (take (?i + ?n) v)) = map ascii_lower (take ?n (drop ?i (so_buf s)))"
    using t(6) by (simp add: v_def drop_take take_drop_lower_at)
  then have at: "name_at ?i ?n (take (?i + ?n) v)"
    using name t(6) len name_char_lower by (auto simp: name_at_def list_all_iff)
  have "drop (?i + ?n) v = drop ?n (drop ?i (so_buf s))"
    using t(6) by (simp add: v_def drop_lower_at add.commute)
  also have "\<dots> = drop (?i + ?n) orig"
    using orig(2) by (simp add: add.commute)
  finally have d: "drop (?i + ?n) v = drop (?i + ?n) orig" .
  have "request_ok (p\<lparr>r_buf := v\<rparr>)"
    using t(1,3) len by (intro request_ok_buf) simp_all
  moreover have "position_ok s1"
    using pos t(7) assms(4) by (rule_tac order_stepE [OF t(7)]) (auto simp: s1 position_ok_def Let_def phase_def)
  moreover have "phase (order_of (r_state p)) = phase (order_of (r_state (so_parser s)))"
    using assms(4) by (rule_tac order_stepE [OF t(7)]) (simp_all add: phase_def)
  ultimately show "loop_ok orig s1 (f1\<lparr>fr_nparsed := fr_nparsed f1 + r_tok (so_parser s1)\<rparr>)"
    using t at d len orig ptr assms(2,4) by (simp add: loop_ok_def s1 f1 consumed_def)
  show "token_measure request_rank (so_parser s1) = token_measure request_rank p"
    using t(3) len by (simp add: s1 token_measure_def consumed_def)
qed


lemma end_of_message_round:
  assumes "loop_ok orig s f" and "END \<notin> fr_flags f" and "request_next ieq (so_parser s) = Some p" and "r_code p = End_of_message"
    and s1: "s1 = set_window (fr_nparsed f) (fr_nparsed f + r_tok p) (s\<lparr>so_parser := p, so_istate := Read_empty\<rparr>)"
    and f1: "f1 = f\<lparr>fr_flags := insert END (fr_flags f)\<rparr>"
  shows "loop_ok orig s1 (f1\<lparr>fr_nparsed := fr_nparsed f1 + r_tok (so_parser s1)\<rparr>)"
    and "token_measure request_rank (so_parser s1) \<le> token_measure request_rank p"
proof -
  have tok: "is_token (r_code p)"
    by (simp add: assms(4))
  note t = loop_token_facts [OF assms(1-3) tok] and l = loop_okD [OF assms(1)]
  let ?k = "fr_nparsed f + r_tok p"
  have q: "order_of (r_state (so_parser s)) = In_trailers" "order_of (r_state p) = Want_method"
    using t(7) assms(4) by (auto elim: order_stepE)
  have pos: "position_ok s1"
    using l(3) q by (simp add: position_ok_def Let_def s1 set_window_def phase_def)
  have ok: "request_ok (so_parser s1)"
    using t(1,6) by (simp add: s1 set_window_def request_ok_window)
  have ex: "\<not> so_expecting_field s1"
    using l(3) q by (simp add: position_ok_def Let_def s1 set_window_def)
  have "drop (r_tok p) (drop (fr_nparsed f) (so_buf s)) = drop (r_tok p) (drop (fr_nparsed f) orig)"
    using l(6) by simp
  then have d: "drop ?k (so_buf s) = drop ?k orig"
    by (simp add: add.commute)
  have con: "consumed (so_parser s1) = ?k"
    using assms(4) by (simp add: s1 set_window_def consumed_def)
  show "loop_ok orig s1 (f1\<lparr>fr_nparsed := fr_nparsed f1 + r_tok (so_parser s1)\<rparr>)"
    using ok pos ex con t(2,6) l(5) d q assms(4) by (simp add: loop_ok_def s1 f1 set_window_def)
  show "token_measure request_rank (so_parser s1) \<le> token_measure request_rank p"
    using t(3,6) con by (simp add: token_measure_def s1 set_window_def)
qed

lemma visit_keep_alive: "k \<noteq> KEEP_ALIVE_UNKNOWN \<Longrightarrow> fst (visit (keep_alive_visit ieq) k es) \<noteq> KEEP_ALIVE_UNKNOWN"
  by (induction es arbitrary: k) (auto simp: keep_alive_visit_def split: prod.splits)

lemma read_connection_known: "k \<noteq> KEEP_ALIVE_UNKNOWN \<Longrightarrow> read_connection ieq v k \<noteq> KEEP_ALIVE_UNKNOWN"
  by (simp add: read_connection_def any_of_state_visit visit_keep_alive)

lemma on_field_value_result:
  assumes "field_value_of (so_parser s) = Some v"
  shows "\<exists>k m. on_field_value ieq (s, f) = Some (s\<lparr>so_keep_alive := k, so_expecting_field := False\<rparr>, f\<lparr>fr_message := m\<rparr>)
    \<and> (so_keep_alive s \<noteq> KEEP_ALIVE_UNKNOWN \<longrightarrow> k \<noteq> KEEP_ALIVE_UNKNOWN)"
proof -
  let ?name = "take (so_field_name_size s) (drop (fr_field_name_begin f) (so_buf s))"
  show ?thesis
  proof (cases "so_modern_http s \<or> ?name \<noteq> asc ''expect'' \<and> ?name \<noteq> asc ''upgrade''")
    case True
    let ?k = "if ?name = asc ''connection'' then read_connection ieq v (so_keep_alive s) else so_keep_alive s"
    let ?m = "if so_use_trailers s then (fr_message f)\<lparr>msg_trailers := multimap_emplace ?name v (msg_trailers (fr_message f))\<rparr>
      else (fr_message f)\<lparr>msg_headers := multimap_emplace ?name v (msg_headers (fr_message f))\<rparr>"
    have "on_field_value ieq (s, f) = Some (s\<lparr>so_keep_alive := ?k, so_expecting_field := False\<rparr>, f\<lparr>fr_message := ?m\<rparr>)"
      unfolding on_field_value_def Let_def prod.case assms option.case if_P [OF True] ..
    then show ?thesis
      using read_connection_known [of "so_keep_alive s" ieq v] by (intro exI [of _ ?k] exI [of _ ?m]) simp
  next
    case False
    have "on_field_value ieq (s, f) = Some (s\<lparr>so_expecting_field := False\<rparr>, f)"
      unfolding on_field_value_def Let_def prod.case assms option.case if_not_P [OF False] ..
    then show ?thesis
      by (intro exI [of _ "so_keep_alive s"] exI [of _ "fr_message f"]) simp
  qed
qed

text \<open>A token is handled without undefined behaviour, and the invariant is kept.\<close>

lemma on_token_round:
  assumes "loop_ok orig s f" and "END \<notin> fr_flags f" and "request_next ieq (so_parser s) = Some p" and "is_token (r_code p)"
  shows "\<exists>s1 f1. on_token ieq (s\<lparr>so_parser := p\<rparr>, f) = Some (s1, f1)
    \<and> loop_ok orig s1 (f1\<lparr>fr_nparsed := fr_nparsed f1 + r_tok (so_parser s1)\<rparr>)
    \<and> token_measure request_rank (so_parser s1) < token_measure request_rank (so_parser s)"
proof -
  note t = loop_token_facts [OF assms] and l = loop_okD [OF assms(1)]
  note pos = l(3) [unfolded position_ok_def Let_def]
  have ptr: "fr_method f = None \<or> fr_path f = None \<longrightarrow> phase (order_of (r_state (so_parser s))) \<noteq> Read_empty"
    using l(9) [OF assms(2)] by blast
  have quiet: "loop_ok orig s1 (f1\<lparr>fr_nparsed := fr_nparsed f1 + r_tok (so_parser s1)\<rparr>)
      \<and> token_measure request_rank (so_parser s1) < token_measure request_rank (so_parser s)"
    if "so_parser s1 = p" "so_buf s1 = so_buf s" "so_field_name_size s1 = so_field_name_size s" "position_ok s1"
      "fr_nparsed f1 = fr_nparsed f" "fr_field_name_begin f1 = fr_field_name_begin f" "END \<notin> fr_flags f1"
      "so_expecting_field s1 \<longrightarrow> so_expecting_field s"
      "fr_method f1 = None \<or> fr_path f1 = None \<longrightarrow> phase (order_of (r_state p)) \<noteq> Read_empty" for s1 f1
    using quiet_round [OF assms that(1-7)] that(8,9) t(8) that(1) by simp
  have valued: ?thesis if c: "r_code p = Field_value" and q: "so_expecting_field s"
      "(order_of (r_state (so_parser s)), order_of (r_state p)) \<in> {(In_header_value, In_headers), (In_trailer_value, In_trailers)}"
  proof -
    have "name_at (fr_field_name_begin f) (so_field_name_size s) (take (r_idx p) (r_buf p))"
      using l(7) [OF q(1)] t(3,4) by simp
    then obtain v where v: "field_value_of (so_parser (s\<lparr>so_parser := p\<rparr>)) = Some v"
      using value_after_name by force
    obtain k m where on: "on_field_value ieq (s\<lparr>so_parser := p\<rparr>, f) =
          Some (s\<lparr>so_parser := p, so_keep_alive := k, so_expecting_field := False\<rparr>, f\<lparr>fr_message := m\<rparr>)"
      and k: "so_keep_alive s \<noteq> KEEP_ALIVE_UNKNOWN \<longrightarrow> k \<noteq> KEEP_ALIVE_UNKNOWN"
      using on_field_value_result [OF v, of ieq f] by auto
    let ?s1 = "s\<lparr>so_parser := p, so_keep_alive := k, so_expecting_field := False\<rparr>"
    have "position_ok ?s1"
      using pos q(2) k by (auto simp: position_ok_def Let_def phase_def)
    then show ?thesis
      using quiet [of ?s1 "f\<lparr>fr_message := m\<rparr>"] on c assms(2) ptr q(2) by (auto simp: on_token_def phase_def)
  qed
  show ?thesis
  proof (rule order_stepE [OF t(7)], goal_cases)
    case 1
    then show ?case
      using quiet [of "s\<lparr>so_parser := p\<rparr>" f] l(3) ptr assms(2) by (auto simp: on_token_def position_ok_def)
  next
    case 2
    with ptr have "fr_method f \<noteq> None" "fr_path f \<noteq> None"
      by (auto simp: phase_def)
    with 2 show ?case
      using quiet [of "s\<lparr>so_parser := p, so_use_trailers := False, so_connect_request := (token_view p = asc ''CONNECT'')\<rparr>"
          "f\<lparr>fr_method := Some (token_view p)\<rparr>"] pos assms(2) by (auto simp: on_token_def position_ok_def phase_def)
  next
    case 3
    with ptr have "fr_method f \<noteq> None" "fr_path f \<noteq> None"
      by (auto simp: phase_def)
    with 3 show ?case
      using quiet [of "s\<lparr>so_parser := p\<rparr>" "f\<lparr>fr_path := Some (token_view p)\<rparr>"] pos assms(2)
      by (auto simp: on_token_def position_ok_def phase_def)
  next
    case 4
    with ptr have "fr_method f \<noteq> None" "fr_path f \<noteq> None"
      by (auto simp: phase_def)
    with 4 show ?case
      using quiet [of "s\<lparr>so_parser := p, so_modern_http := (0 < version_of p), so_keep_alive := KEEP_ALIVE_UNKNOWN\<rparr>" f]
        pos assms(2) by (auto simp: on_token_def position_ok_def phase_def)
  next
    case 5
    obtain s1 f1 where on: "on_field_name (s\<lparr>so_parser := p\<rparr>, f) = (s1, f1)"
      by fastforce
    show ?case
      using on_field_name_round [OF assms(1-3) 5(1) on] t(8) 5(1) on by (auto simp: on_token_def)
  next
    case 6
    then show ?case
      using valued pos by auto
  next
    case 7
    then show ?case
      using quiet [of "fst (on_end_of_headers (s\<lparr>so_parser := p\<rparr>, f))" "snd (on_end_of_headers (s\<lparr>so_parser := p\<rparr>, f))"]
        pos assms(2) by (auto simp: on_token_def on_end_of_headers_def Let_def position_ok_def phase_def)
  next
    case 8
    then show ?case
      using quiet [of "s\<lparr>so_parser := p\<rparr>" "f\<lparr>fr_message := (fr_message f)\<lparr>msg_body := msg_body (fr_message f) @ token_view p\<rparr>,
            fr_flags := insert DATA (fr_flags f)\<rparr>"] pos assms(2) ptr by (auto simp: on_token_def position_ok_def phase_def)
  next
    case 9
    then show ?case
      using quiet [of "s\<lparr>so_parser := p, so_istate := Body_ready, so_use_trailers := True\<rparr>" f] pos assms(2) ptr
      by (auto simp: on_token_def position_ok_def phase_def)
  next
    case 10
    obtain s1 f1 where on: "on_field_name (s\<lparr>so_parser := p\<rparr>, f) = (s1, f1)"
      by fastforce
    show ?case
      using on_field_name_round [OF assms(1-3) 10(1) on] t(8) 10(1) on by (auto simp: on_token_def)
  next
    case 11
    then show ?case
      using valued pos by auto
  next
    case 12
    define s1 where "s1 = set_window (fr_nparsed f) (fr_nparsed f + r_tok p) (s\<lparr>so_parser := p, so_istate := Read_empty\<rparr>)"
    define f1 where "f1 = f\<lparr>fr_flags := insert END (fr_flags f)\<rparr>"
    from end_of_message_round [OF assms(1-3) 12(1) s1_def f1_def] t(8) show ?case
      using 12(1) by (intro exI [of _ s1] exI [of _ f1]) (simp add: on_token_def Let_def s1_def f1_def)
  qed
qed


section \<open>The loop\<close>

text \<open>A request reader never asks for a method and never gives up the connection.\<close>

lemma request_handler_errors:
  assumes "request_handler ieq r = Ret r'" and "r_code r = Error_insufficient_data"
  shows "r_code r' \<noteq> Error_set_method \<and> r_code r' \<noteq> Error_use_another_connection"
proof (cases "r_state r")
  case EXPECT_FIELD_NAME
  with assms show ?thesis
    by (auto simp: request_handler_def request_field_name_def Let_def request_host_def request_transfer_encoding_def
        request_content_length_def split: if_splits request_version.splits request_body_type.splits)
next
  case EXPECT_FIELD_VALUE
  with assms show ?thesis
    by (auto simp: request_handler_def field_value_def Let_def read_content_length_def read_transfer_encoding_def
        split: if_splits option.splits prod.splits decode_result.splits transfer_encoding_result.splits)
next
  case EXPECT_CRLF_AFTER_HEADERS
  with assms show ?thesis
    by (auto simp: request_handler_def request_crlf_after_headers_def request_end_of_headers_def
        split: if_splits liberal_crlf_result.splits request_body_type.splits)
next
  case EXPECT_CHUNK_SIZE
  with assms show ?thesis
    by (auto simp: request_handler_def chunk_size_def Let_def split: if_splits prod.splits decode_result.splits)
qed (use assms in \<open>auto simp: request_handler_def Let_def scan_token_def single_def match_string_def request_version_case_def
  liberal_line_def strict_line_def colon_def ows_after_colon_def body_data_def chunk_ext_def crlf_after_chunk_ext_def
  trailer_name_def match_token_def end_of_trailers_def split: if_splits option.splits liberal_crlf_result.splits\<close>)

lemma request_next_errors:
  assumes "request_ok r" and "request_next ieq r = Some r'" and "r_state r \<noteq> ERRORED"
  shows "r_code r' \<noteq> Error_set_method \<and> r_code r' \<noteq> Error_use_another_connection"
proof -
  consider (body) "r_state r = EXPECT_END_OF_BODY" | (message) "r_state r = EXPECT_END_OF_MESSAGE" | (wait) "r' = advance r"
    | (step) a where "request_handler ieq a = Ret r'" "request_ready a"
    using request_next_case [OF assms(1,2)] assms(3) by auto
  then show ?thesis
  proof cases
    case body
    then show ?thesis
      using assms(2) request_next_early(2) [of r ieq] by auto
  next
    case message
    then show ?thesis
      using assms(2) request_next_early(3) [of r ieq] by auto
  next
    case (step a)
    then show ?thesis
      using request_handler_errors request_readyD [OF step(2)] by blast
  qed simp
qed

lemma on_token_frame:
  "on_token ieq (s, f) = Some (s1, f1) \<Longrightarrow> so_capacity s1 = so_capacity s
     \<and> (fr_method f1 = None \<longleftrightarrow> fr_method f = None) \<and> (fr_path f1 = None \<longleftrightarrow> fr_path f = None)"
  by (auto simp: on_token_def Let_def on_field_name_def on_field_value_def on_end_of_headers_def set_window_def
      split: token_code.splits if_splits option.splits)

text \<open>When the loop is left without an error.\<close>

definition loop_done_ok :: "bytes \<Rightarrow> http_socket \<Rightarrow> read_frame \<Rightarrow> bool" where
  "loop_done_ok orig s f \<longleftrightarrow>
     request_ok (so_parser s) \<and> r_code (so_parser s) = Error_insufficient_data \<and> r_state (so_parser s) \<noteq> ERRORED
   \<and> position_ok s
   \<and> length (so_buf s) = length orig \<and> drop (fr_nparsed f) (so_buf s) = drop (fr_nparsed f) orig
   \<and> fr_nparsed f + r_tok (so_parser s) \<le> length (so_buf s)
   \<and> (so_expecting_field s \<longrightarrow>
        name_at (fr_field_name_begin f) (so_field_name_size s) (take (fr_nparsed f) (so_buf s)))
   \<and> (END \<in> fr_flags f \<longrightarrow> order_of (r_state (so_parser s)) = Want_method \<and> r_tok (so_parser s) = 0)
   \<and> (END \<notin> fr_flags f \<longrightarrow> fr_method f = None \<or> fr_path f = None \<longrightarrow> so_istate s \<noteq> Read_empty)"

lemma loop_done:
  assumes "loop_ok orig s f" and "request_next ieq (so_parser s) = Some p" and "r_code p = Error_insufficient_data"
  shows "loop_done_ok orig (s\<lparr>so_parser := p\<rparr>) f"
proof (cases "END \<in> fr_flags f")
  case True
  note l = loop_okD [OF assms(1)]
  have d: "r_buf (so_parser s) = take (fr_nparsed f) (so_buf s)" "fr_nparsed f \<le> length (so_buf s)"
    "order_of (r_state (so_parser s)) = Want_method" "is_token (r_code (so_parser s))"
    using assms(1) True by (auto simp: loop_ok_def)
  have "r_state (so_parser s) = EXPECT_METHOD"
    using d(3) l(2) by (rule Want_method_state)
  moreover have "consumed (so_parser s) = length (r_buf (so_parser s))"
    using d(1,2) l(4) by simp
  ultimately have p: "p = advance (so_parser s)" "r_tok p = 0"
    using request_next_drained [OF l(1) d(4)] assms(2) by auto
  have "request_ok p"
    using request_next_some [OF l(1) assms(2)] by simp
  moreover have "position_ok (s\<lparr>so_parser := p\<rparr>)"
    using l(3) p(1) by (simp add: position_ok_def)
  ultimately show ?thesis
    using True l(2,5-7) d p assms(3) unfolding loop_done_ok_def by simp
next
  case False
  note l = loop_okD [OF assms(1)]
  have ok: "request_ok p" and buf: "r_buf p = so_buf s"
    using request_next_some [OF l(1) assms(2)] l(8) [OF False] by simp_all
  have o: "order_of (r_state p) = order_of (r_state (so_parser s))"
    by (rule request_next_order(2) [OF l(1) assms(2) l(2) assms(3)])
  have "r_idx p = fr_nparsed f"
    using request_next_idx [OF l(1) assms(2) l(2)] l(4) by simp
  then have "fr_nparsed f + r_tok p \<le> length (so_buf s)"
    using ok buf by (simp add: request_ok_def cursor_ok_def)
  moreover have "r_state p \<noteq> ERRORED"
  proof
    assume "r_state p = ERRORED"
    with ok assms(3) show False
      by (simp add: request_ok_def)
  qed
  moreover have "position_ok (s\<lparr>so_parser := p\<rparr>)"
    using l(3) o by (simp add: position_ok_def)
  moreover have "fr_method f = None \<or> fr_path f = None \<longrightarrow> so_istate s \<noteq> Read_empty"
    using l(3) l(9) [OF False] by (auto simp: position_ok_def Let_def)
  ultimately show ?thesis
    using ok l(5-7) assms(3) False unfolding loop_done_ok_def by simp
qed

lemma loop_token_not_end:
  assumes "loop_ok orig s f" and "request_next ieq (so_parser s) = Some p" and "is_token (r_code p)"
  shows "END \<notin> fr_flags f"
proof
  note l = loop_okD [OF assms(1)]
  assume e: "END \<in> fr_flags f"
  then have d: "r_buf (so_parser s) = take (fr_nparsed f) (so_buf s)" "fr_nparsed f \<le> length (so_buf s)"
    "order_of (r_state (so_parser s)) = Want_method" "is_token (r_code (so_parser s))"
    using assms(1) by (auto simp: loop_ok_def)
  then have "p = advance (so_parser s)"
    using request_next_drained(1) [OF l(1) d(4) Want_method_state [OF d(3) l(2)]] l(4) d assms(2) by simp
  with assms(3) show False by simp
qed

lemma read_loop_safe:
  assumes "loop_ok orig s f" and "token_measure request_rank (so_parser s) < n"
  shows "case read_loop ieq n s f of
      Loop_done s' f' \<Rightarrow> loop_done_ok orig s' f' \<and> so_capacity s' = so_capacity s
        \<and> (fr_method f' = None \<longleftrightarrow> fr_method f = None) \<and> (fr_path f' = None \<longleftrightarrow> fr_path f = None)
    | Loop_error s' f' \<Rightarrow> so_capacity s' = so_capacity s
    | _ \<Rightarrow> False"
  using assms
proof (induction n arbitrary: s f)
  case (Suc n)
  note l = loop_okD [OF Suc.prems(1)]
  obtain p where p: "request_next ieq (so_parser s) = Some p"
    using loop_no_undefined [OF Suc.prems(1), of ieq] by blast
  consider (more) "r_code p = Error_insufficient_data" | (token) "is_token (r_code p)"
    | (bad) "r_code p \<in> {Error_invalid_data, Error_no_host, Error_invalid_content_length,
        Error_content_length_overflow, Error_invalid_transfer_encoding, Error_chunk_size_overflow}"
    using request_next_errors [OF l(1) p l(2)] by (cases "r_code p") auto
  then show ?case
  proof cases
    case more
    then show ?thesis
      using loop_done [OF Suc.prems(1) p] p by simp
  next
    case token
    have "END \<notin> fr_flags f"
      by (rule loop_token_not_end [OF Suc.prems(1) p token])
    then obtain s1 f1 where on: "on_token ieq (s\<lparr>so_parser := p\<rparr>, f) = Some (s1, f1)"
      and ok1: "loop_ok orig s1 (f1\<lparr>fr_nparsed := fr_nparsed f1 + r_tok (so_parser s1)\<rparr>)"
      and m1: "token_measure request_rank (so_parser s1) < token_measure request_rank (so_parser s)"
      using on_token_round [OF Suc.prems(1) _ p token] by blast
    have "read_loop ieq (Suc n) s f = read_loop ieq n s1 (f1\<lparr>fr_nparsed := fr_nparsed f1 + r_tok (so_parser s1)\<rparr>)"
      using p on token by (auto simp: Let_def)
    moreover have "so_capacity s1 = so_capacity s"
      "(fr_method f1 = None \<longleftrightarrow> fr_method f = None) \<and> (fr_path f1 = None \<longleftrightarrow> fr_path f = None)"
      using on_token_frame [OF on] by simp_all
    ultimately show ?thesis
      using Suc.IH [OF ok1] m1 Suc.prems(2) by (simp split: loop_result.splits)
  next
    case bad
    then show ?thesis
      using p by auto
  qed
qed simp



end
