(* ===== verification/SocketProperties.thy ===== *)
theory SocketProperties
  imports SocketLoop
begin

text \<open>
  What an application can rely on when it reads and writes through a socket: the step relation of a
  connection and its safety, the bytes the socket keeps, the message it reads, the framing of the
  responses and the end of the connection.
\<close>

section \<open>A call of the completion handler\<close>

lemma compact_ok:
  assumes "loop_done_ok orig s f" and "0 < so_capacity s" and "length orig \<le> so_capacity s"
  shows "socket_ok (compact s f)"
    and "so_expecting_field s \<Longrightarrow> so_buf (compact s f) = take (so_field_name_size s) (so_buf (compact s f)) @ drop (fr_nparsed f) orig"
    and "\<not> so_expecting_field s \<Longrightarrow> so_buf (compact s f) = drop (fr_nparsed f) orig"
    and "so_capacity (compact s f) = so_capacity s" and "so_istate (compact s f) = so_istate s"
    and "so_expecting_field (compact s f) = so_expecting_field s"
    and "so_field_name_size (compact s f) = so_field_name_size s"
proof -
  let ?p = "so_parser s" and ?k = "fr_nparsed f" and ?v = "so_buf s"
  have d: "request_ok ?p" "r_code ?p = Error_insufficient_data" "r_state ?p \<noteq> ERRORED" "position_ok s"
    "length ?v = length orig" "drop ?k ?v = drop ?k orig" "?k + r_tok ?p \<le> length ?v"
    "so_expecting_field s \<longrightarrow> name_at (fr_field_name_begin f) (so_field_name_size s) (take ?k ?v)"
    using assms(1) unfolding loop_done_ok_def by simp_all
  have "socket_ok (compact s f)
    \<and> (so_expecting_field s \<longrightarrow> so_buf (compact s f) = take (so_field_name_size s) (so_buf (compact s f)) @ drop ?k orig)
    \<and> (\<not> so_expecting_field s \<longrightarrow> so_buf (compact s f) = drop ?k orig)"
  proof (cases "so_expecting_field s")
    case False
    then have c: "compact s f = s\<lparr>so_buf := drop ?k ?v\<rparr>"
      by (simp add: compact_def)
    have "request_ok (?p\<lparr>r_buf := drop ?k ?v, r_idx := 0\<rparr>)"
      using d(1,7) by (intro request_ok_window) simp_all
    then show ?thesis
      using False d assms(2,3) by (simp add: c socket_ok_def set_window_def window_start_def position_ok_def)
  next
    case True
    let ?i = "fr_field_name_begin f" and ?n = "so_field_name_size s"
    have at: "0 < ?n" "?i + ?n \<le> ?k" "list_all is_name_char (take ?n (drop ?i (take ?k ?v)))"
      using d(7,8) True by (auto simp: name_at_def)
    let ?name = "take ?n (drop ?i ?v)"
    have name: "length ?name = ?n" "list_all is_name_char ?name"
    proof -
      have "?n \<le> ?k - ?i"
        using at(2) by simp
      then have "take ?n (drop ?i (take ?k ?v)) = ?name"
        by (simp add: drop_take min_absorb1)
      then show "list_all is_name_char ?name"
        using at(3) by simp
    qed (use at(2) d(7) in simp)
    have c: "compact s f = s\<lparr>so_buf := ?name @ drop ?k ?v\<rparr>"
      using True at by (simp add: compact_def)
    have "request_ok (?p\<lparr>r_buf := ?name @ drop ?k ?v, r_idx := ?n\<rparr>)"
      using d(1,7) name(1) by (intro request_ok_window) simp_all
    moreover have "length (?name @ drop ?k ?v) \<le> so_capacity s"
      using name(1) at(2) d(5,7) assms(3) by simp
    moreover have "name_at 0 ?n (?name @ drop ?k ?v)"
      using name at(1) by (simp add: name_at_def)
    ultimately show ?thesis
      using True d name(1) assms(2) by (simp add: c socket_ok_def set_window_def window_start_def position_ok_def)
  qed
  then show "socket_ok (compact s f)"
    and "so_expecting_field s \<Longrightarrow> so_buf (compact s f) = take (so_field_name_size s) (so_buf (compact s f)) @ drop ?k orig"
    and "\<not> so_expecting_field s \<Longrightarrow> so_buf (compact s f) = drop ?k orig"
    by simp_all
qed (simp_all add: compact_def)

lemma clear_buffer_ok: "0 < so_capacity s \<Longrightarrow> socket_ok (clear_buffer s)"
  by (simp add: socket_ok_def clear_buffer_def position_ok_def Let_def order_of_def phase_def request_reset_def
      set_window_def window_start_def request_ok_def cursor_ok_def)

text \<open>The pointers a read operation was given, for as long as it lasts.\<close>

definition pointers_ok :: "target \<Rightarrow> http_socket \<Rightarrow> bytes option \<Rightarrow> bytes option \<Rightarrow> bool" where
  "pointers_ok t s method path \<longleftrightarrow>
     (t = READY \<longrightarrow> method \<noteq> None \<and> path \<noteq> None)
   \<and> (method = None \<or> path = None \<longrightarrow> so_istate s \<noteq> Read_empty)"

lemma begin_loop:
  assumes "socket_ok s" and "method = None \<or> path = None \<longrightarrow> so_istate s \<noteq> Read_empty"
    and "s0 = set_window (window_start s) (length (so_buf s @ input)) (s\<lparr>so_buf := so_buf s @ input\<rparr>)"
    and "f0 = \<lparr>fr_nparsed = window_start s, fr_field_name_begin = 0, fr_flags = {}, fr_method = method, fr_path = path,
           fr_message = m\<rparr>"
  shows "loop_ok (so_buf s @ input) s0 f0" and "token_measure request_rank (so_parser s0) < read_fuel s0"
proof -
  let ?w = "window_start s" and ?p = "so_parser s"
  have ok: "request_ok (so_parser (set_window ?w (length (so_buf s)) s))" and pos: "position_ok s"
    and code: "r_code ?p = Error_insufficient_data" and st: "r_state ?p \<noteq> ERRORED"
    and name: "so_expecting_field s \<longrightarrow> name_at 0 (so_field_name_size s) (so_buf s)"
    using assms(1) by (simp_all add: socket_ok_def)
  have "?w + r_tok ?p \<le> length (so_buf s)"
    using ok by (simp add: request_ok_def cursor_ok_def set_window_def)
  then have "request_ok ((so_parser (set_window ?w (length (so_buf s)) s))\<lparr>r_buf := so_buf s @ input, r_idx := ?w\<rparr>)"
    using ok by (intro request_ok_window) (simp_all add: set_window_def)
  then have ok0: "request_ok (so_parser s0)"
    by (simp add: assms(3) set_window_def)
  have "name_at 0 (so_field_name_size s) (take (so_field_name_size s) (so_buf s @ input))" if "so_expecting_field s"
    using name that by (auto simp: name_at_def)
  moreover have "phase (order_of (r_state ?p)) = so_istate s"
    using pos by (simp add: position_ok_def Let_def)
  ultimately show "loop_ok (so_buf s @ input) s0 f0"
    using ok0 pos code st assms(2)
    by (simp add: loop_ok_def assms(3,4) set_window_def position_ok_def consumed_def window_start_def)
  have "request_rank (r_state (so_parser s0)) \<le> 2"
    by (simp add: request_rank_def split: request_state.split)
  moreover have "length (r_buf (so_parser s0)) = length (so_buf s0)"
    by (simp add: assms(3) set_window_def)
  ultimately show "token_measure request_rank (so_parser s0) < read_fuel s0"
    by (simp add: token_measure_def read_fuel_def)
qed

lemma on_async_read_message_eq:
  assumes "s0 = set_window (window_start s) (length (so_buf s @ input)) (s\<lparr>so_buf := so_buf s @ input\<rparr>)"
    and "f0 = \<lparr>fr_nparsed = window_start s, fr_field_name_begin = 0, fr_flags = {}, fr_method = method, fr_path = path,
           fr_message = m\<rparr>"
  shows "on_async_read_message ieq t No_error input s method path m =
      (case read_loop ieq (read_fuel s0) s0 f0 of
             Loop_undefined \<Rightarrow> (s0, method, path, m, Undefined_behaviour)
           | Loop_out_of_fuel \<Rightarrow> (s0, method, path, m, No_fuel)
           | Loop_error s f \<Rightarrow> (clear_buffer s, fr_method f, fr_path f, fr_message f, Complete (Http_error Parsing_error))
           | Loop_done s f \<Rightarrow>
               let s = compact s f
               in (s, fr_method f, fr_path f, fr_message f,
                   if reached t (fr_flags f) then Complete No_error
                   else if length (so_buf s) = so_capacity s then Complete (Http_error Buffer_exhausted)
                   else Wait))"
  by (simp add: on_async_read_message_def Let_def assms window_start_def cong: loop_result.case_cong)

lemma on_async_read_message_cases:
  assumes "socket_ok s" and "length (so_buf s) + length input \<le> so_capacity s"
    and "method = None \<or> path = None \<longrightarrow> so_istate s \<noteq> Read_empty"
    and "on_async_read_message ieq t No_error input s method path m = (s', method', path', m', out)"
  obtains (bad) s1 where "s' = clear_buffer s1" "so_capacity s1 = so_capacity s" "out = Complete (Http_error Parsing_error)"
  | (fine) s1 f1 where "loop_done_ok (so_buf s @ input) s1 f1" "so_capacity s1 = so_capacity s" "s' = compact s1 f1"
      "method' = fr_method f1" "path' = fr_path f1" "m' = fr_message f1"
      "fr_method f1 = None \<longleftrightarrow> method = None" "fr_path f1 = None \<longleftrightarrow> path = None"
      "out = (if reached t (fr_flags f1) then Complete No_error
              else if length (so_buf s') = so_capacity s' then Complete (Http_error Buffer_exhausted) else Wait)"
proof -
  define s0 where "s0 = set_window (window_start s) (length (so_buf s @ input)) (s\<lparr>so_buf := so_buf s @ input\<rparr>)"
  define f0 where "f0 = \<lparr>fr_nparsed = window_start s, fr_field_name_begin = 0, fr_flags = {}, fr_method = method, fr_path = path,
           fr_message = m\<rparr>"
  note b = begin_loop [OF assms(1,3) s0_def f0_def]
  have cap: "so_capacity s0 = so_capacity s" "fr_method f0 = method" "fr_path f0 = path"
    by (simp_all add: s0_def f0_def set_window_def)
  note eq = on_async_read_message_eq [OF s0_def f0_def, of ieq t]
  show thesis
  proof (cases "read_loop ieq (read_fuel s0) s0 f0")
    case (Loop_done s1 f1)
    with read_loop_safe [OF b, of ieq] fine [of s1 f1] assms(4) show ?thesis
      by (auto simp: eq Let_def cap)
  next
    case (Loop_error s1 f1)
    with read_loop_safe [OF b, of ieq] bad [of s1] assms(4) show ?thesis
      by (auto simp: eq cap)
  qed (use read_loop_safe [OF b, of ieq] in simp_all)
qed


lemma on_async_read_message_ok:
  assumes "socket_ok s" and "length (so_buf s) + length input \<le> so_capacity s" and "pointers_ok t s method path"
    and "on_async_read_message ieq t ec input s method path m = (s', method', path', m', out)"
  shows "socket_ok s' \<and> so_capacity s' = so_capacity s \<and> out \<notin> {Undefined_behaviour, No_fuel}
    \<and> (out = Wait \<longrightarrow> length (so_buf s') < so_capacity s' \<and> pointers_ok t s' method' path')"
proof (cases "ec = No_error")
  case False
  with assms show ?thesis
    using clear_buffer_ok [of s] by (auto simp: on_async_read_message_def socket_ok_def clear_buffer_def)
next
  case True
  have ptr: "method = None \<or> path = None \<longrightarrow> so_istate s \<noteq> Read_empty"
    using assms(3) by (simp add: pointers_ok_def)
  have cap: "0 < so_capacity s"
    using assms(1) by (simp add: socket_ok_def)
  show ?thesis
  proof (rule on_async_read_message_cases [OF assms(1,2) ptr assms(4) [unfolded True]], goal_cases)
    case (1 s1)
    then show ?case
      using clear_buffer_ok [of s1] cap by (simp add: clear_buffer_def)
  next
    case (2 s1 f1)
    have len: "length (so_buf s @ input) \<le> so_capacity s1" "0 < so_capacity s1"
      using assms(2) cap 2(2) by simp_all
    note c = compact_ok [OF 2(1) len(2,1)]
    have "length (so_buf s') \<le> so_capacity s'" "so_capacity s' = so_capacity s"
      using c(1,4) 2(2,3) by (simp_all add: socket_ok_def)
    moreover have "pointers_ok t s' method' path'" if "\<not> reached t (fr_flags f1)"
    proof (cases "t = READY")
      case True
      then show ?thesis
        using assms(3) 2(4,5,7,8) by (auto simp: pointers_ok_def)
    next
      case False
      then have "END \<notin> fr_flags f1"
        using that by (cases t) (auto simp: reached_def)
      then have "fr_method f1 = None \<or> fr_path f1 = None \<longrightarrow> so_istate s1 \<noteq> Read_empty"
        using 2(1) unfolding loop_done_ok_def by simp
      then show ?thesis
        using False c(5) 2(3-5) by (simp add: pointers_ok_def)
    qed
    ultimately show ?case
      using c(1) 2(3,9) by (auto split: if_splits)
  qed
qed


section \<open>Write operations keep the reading side\<close>

lemmas write_call_defs = run_write_def async_write_response_def async_write_response_continue_def
  async_write_response_metadata_def async_write_def async_write_trailers_def async_write_end_of_message_def

lemma run_write_frame:
  assumes "run_write ieq c s = (s', out)"
  shows "so_capacity s' = so_capacity s \<and> so_buf s' = so_buf s \<and> so_parser s' = so_parser s \<and> so_istate s' = so_istate s
    \<and> so_expecting_field s' = so_expecting_field s \<and> so_field_name_size s' = so_field_name_size s
    \<and> so_use_trailers s' = so_use_trailers s \<and> so_modern_http s' = so_modern_http s
    \<and> (so_keep_alive s' = so_keep_alive s \<or> so_keep_alive s' = KEEP_ALIVE_CLOSE_READ)"
  using assms by (cases c) (auto simp: write_call_defs Let_def write_defs split: if_splits)

lemma socket_ok_cong:
  assumes "socket_ok s"
    and "so_capacity s' = so_capacity s" "so_buf s' = so_buf s" "so_parser s' = so_parser s" "so_istate s' = so_istate s"
      "so_expecting_field s' = so_expecting_field s" "so_field_name_size s' = so_field_name_size s"
      "so_use_trailers s' = so_use_trailers s" "so_keep_alive s' = so_keep_alive s \<or> so_keep_alive s' = KEEP_ALIVE_CLOSE_READ"
  shows "socket_ok s'"
proof -
  have "so_parser (set_window (window_start s') (length (so_buf s')) s') = so_parser (set_window (window_start s) (length (so_buf s)) s)"
    by (simp add: set_window_def window_start_def assms(3,4,6,7))
  moreover have "position_ok s'"
    using assms(1,4-6,8,9) unfolding socket_ok_def position_ok_def Let_def by (elim conjE disjE) simp_all
  ultimately show ?thesis
    using assms(1) unfolding socket_ok_def by (simp add: assms(2-4,6,7))
qed

lemma run_write_ok:
  assumes "socket_ok s" and "run_write ieq c s = (s', out)"
  shows "socket_ok s'"
  using run_write_frame [OF assms(2)] by (rule_tac socket_ok_cong [OF assms(1)]) simp_all


section \<open>The life of a socket\<close>

text \<open>A read operation that waits for the channel, with its arguments.\<close>

datatype pending = Idle | Reading target "bytes option" "bytes option" message

text \<open>
  A step is a read operation the application starts (one at a time), data or an error from the channel
  for the operation that waits, a write operation, or the completion of the write that ends a response;
  its label is the outcome of the read it starts or continues. The channel delivers at most what fits
  in the rest of the array.
\<close>

inductive socket_step ::
  "(bytes \<Rightarrow> bytes \<Rightarrow> bool) \<Rightarrow> http_socket \<times> pending \<Rightarrow> read_outcome \<Rightarrow> http_socket \<times> pending \<Rightarrow> bool" for ieq where
  request: "async_read_request ieq s method path m = (s', method', path', m', out) \<Longrightarrow>
    socket_step ieq (s, Idle) out (s', if out = Wait then Reading READY method' path' m' else Idle)"
| some: "async_read_some ieq s m = (s', method', path', m', out) \<Longrightarrow>
    socket_step ieq (s, Idle) out (s', if out = Wait then Reading DATA method' path' m' else Idle)"
| trailers: "async_read_trailers ieq s m = (s', method', path', m', out) \<Longrightarrow>
    socket_step ieq (s, Idle) out (s', if out = Wait then Reading END method' path' m' else Idle)"
| channel: "on_async_read_message ieq t ec input s method path m = (s', method', path', m', out) \<Longrightarrow>
    length (so_buf s) + length input \<le> so_capacity s \<Longrightarrow>
    socket_step ieq (s, Reading t method path m) out (s', if out = Wait then Reading t method' path' m' else Idle)"
| writing: "run_write ieq c s = (s', w) \<Longrightarrow> socket_step ieq (s, p) (Complete No_error) (s', p)"
| written: "socket_step ieq (s, p) (Complete No_error) (on_response_written s, p)"

inductive socket_reachable :: "(bytes \<Rightarrow> bytes \<Rightarrow> bool) \<Rightarrow> http_socket \<Rightarrow> http_socket \<times> pending \<Rightarrow> bool" for ieq s0 where
  start: "socket_reachable ieq s0 (s0, Idle)"
| step: "socket_reachable ieq s0 c \<Longrightarrow> socket_step ieq c out c' \<Longrightarrow> socket_reachable ieq s0 c'"

definition configuration_ok :: "http_socket \<times> pending \<Rightarrow> bool" where
  "configuration_ok c \<longleftrightarrow>
     socket_ok (fst c) \<and>
     (case snd c of Idle \<Rightarrow> True
      | Reading t method path _ \<Rightarrow> pointers_ok t (fst c) method path \<and> length (so_buf (fst c)) < so_capacity (fst c))"

lemma new_socket_ok: "new_socket n raw = Some s \<Longrightarrow> socket_ok s"
  by (auto simp: new_socket_def socket_ok_def position_ok_def Let_def order_of_def phase_def new_request_def
      set_window_def window_start_def request_ok_def cursor_ok_def split: if_splits)

lemma schedule_ok:
  assumes "socket_ok s" and "pointers_ok t s method path"
    and "schedule_on_async_read_message ieq t s method path m = (s', method', path', m', out)"
  shows "socket_ok s' \<and> out \<notin> {Undefined_behaviour, No_fuel}
    \<and> (out = Wait \<longrightarrow> length (so_buf s') < so_capacity s' \<and> pointers_ok t s' method' path')"
proof (cases "so_buf s = []")
  case True
  with assms show ?thesis
    by (auto simp: schedule_on_async_read_message_def socket_ok_def)
next
  case False
  with assms(3) have "on_async_read_message ieq t No_error [] s method path m = (s', method', path', m', out)"
    by (simp add: schedule_on_async_read_message_def)
  moreover have "length (so_buf s) + length [] \<le> so_capacity s"
    using assms(1) by (simp add: socket_ok_def)
  ultimately show ?thesis
    using on_async_read_message_ok [OF assms(1) _ assms(2)] by blast
qed

lemma writer_update_ok: "socket_ok s \<Longrightarrow> socket_ok (s\<lparr>so_writer := w\<rparr>)"
  by (erule socket_ok_cong) simp_all

text \<open>Whatever the outcome of a read, the operation waits with room for more, or is over.\<close>

lemma read_step_ok:
  assumes "socket_ok s' \<and> out \<notin> {Undefined_behaviour, No_fuel}
      \<and> (out = Wait \<longrightarrow> length (so_buf s') < so_capacity s' \<and> pointers_ok t s' method' path')"
  shows "configuration_ok (s', if out = Wait then Reading t method' path' m' else Idle) \<and> out \<notin> {Undefined_behaviour, No_fuel}"
  using assms by (simp add: configuration_ok_def)

lemma socket_step_ok:
  assumes "socket_step ieq c out c'" and "configuration_ok c"
  shows "configuration_ok c' \<and> out \<notin> {Undefined_behaviour, No_fuel}"
  using assms
proof (induction rule: socket_step.induct)
  case (request s mt pa m s' method' path' m' out)
  show ?case
  proof (cases "so_istate s = Read_empty")
    case True
    have "socket_ok (s\<lparr>so_writer := Finished\<rparr>)"
      using request(2) by (simp add: configuration_ok_def writer_update_ok)
    moreover have "pointers_ok READY (s\<lparr>so_writer := Finished\<rparr>) (Some []) (Some [])"
      by (simp add: pointers_ok_def)
    moreover have "schedule_on_async_read_message ieq READY (s\<lparr>so_writer := Finished\<rparr>) (Some []) (Some []) (clear_message m)
        = (s', method', path', m', out)"
      using request(1) True by (simp add: async_read_request_def)
    ultimately show ?thesis
      by (rule read_step_ok [OF schedule_ok])
  qed (use request in \<open>auto simp: async_read_request_def configuration_ok_def\<close>)
next
  case (some s m s' method' path' m' out)
  show ?case
  proof (cases "so_istate s = Message_ready")
    case True
    then have "pointers_ok DATA s None None"
      by (simp add: pointers_ok_def)
    with some True show ?thesis
      by (intro read_step_ok schedule_ok) (auto simp: async_read_some_def configuration_ok_def)
  qed (use some in \<open>auto simp: async_read_some_def configuration_ok_def\<close>)
next
  case (trailers s m s' method' path' m' out)
  show ?case
  proof (cases "so_istate s = Body_ready")
    case True
    then have "pointers_ok END s None None"
      by (simp add: pointers_ok_def)
    with trailers True show ?thesis
      by (intro read_step_ok schedule_ok) (auto simp: async_read_trailers_def configuration_ok_def)
  qed (use trailers in \<open>auto simp: async_read_trailers_def configuration_ok_def\<close>)
next
  case (channel t ec input s mt pa m s' method' path' m' out)
  then have "socket_ok s" "pointers_ok t s mt pa"
    by (simp_all add: configuration_ok_def)
  from on_async_read_message_ok [OF this(1) channel(2) this(2) channel(1)] show ?case
    by (intro read_step_ok) blast
next
  case (writing c s s' w p)
  have "socket_ok s'"
    using writing(2) by (intro run_write_ok [OF _ writing(1)]) (simp add: configuration_ok_def)
  moreover have "so_capacity s' = so_capacity s" "so_buf s' = so_buf s" "so_istate s' = so_istate s"
    using run_write_frame [OF writing(1)] by simp_all
  ultimately show ?case
    using writing(2) by (cases p) (simp_all add: configuration_ok_def pointers_ok_def)
next
  case (written s p)
  have "socket_ok (on_response_written s)"
    by (rule socket_ok_cong [of s]) (use written in \<open>simp_all add: configuration_ok_def on_response_written_def Let_def\<close>)
  with written show ?case
    by (cases p) (simp_all add: configuration_ok_def pointers_ok_def on_response_written_def Let_def)
qed

text \<open>
  C4: whatever bytes a client sends, in whatever pieces they arrive and whatever the application calls in
  between, a socket never does anything undefined: it never assigns through the null pointers of a
  body read, never reads in front of its array although the reader alone could, never reaches an
  \<open>UNREACHABLE\<close> case, and the loop over the tokens always ends; a read only waits when the array has room.
\<close>

theorem socket_never_undefined:
  assumes "new_socket n raw = Some s0" and "socket_reachable ieq s0 c" and "socket_step ieq c out c'"
  shows "out \<notin> {Undefined_behaviour, No_fuel} \<and> length (so_buf (fst c')) \<le> so_capacity (fst c')
    \<and> (snd c' \<noteq> Idle \<longrightarrow> length (so_buf (fst c')) < so_capacity (fst c'))"
proof -
  have "configuration_ok c"
    using assms(2)
  proof (induction rule: socket_reachable.induct)
    case start
    then show ?case
      using new_socket_ok [OF assms(1)] by (simp add: configuration_ok_def)
  qed (use socket_step_ok in blast)
  with socket_step_ok [OF assms(3)] show ?thesis
    by (auto simp: configuration_ok_def socket_ok_def split: pending.splits)
qed


section \<open>The message that is read\<close>

text \<open>
  The containers are in key order, every name is a non-empty token in lower case and every value
  consists of field-value characters.
\<close>

definition fields_ok :: "headers \<Rightarrow> bool" where
  "fields_ok h \<longleftrightarrow> multimap_ok h \<and>
     (\<forall>(name, v) \<in> set h. name \<noteq> [] \<and> list_all is_name_char name \<and> list_all is_field_value_char v)"

definition message_ok :: "message \<Rightarrow> bool" where
  "message_ok m \<longleftrightarrow> fields_ok (msg_headers m) \<and> fields_ok (msg_trailers m)"

lemma fields_ok_emplace:
  "fields_ok h \<Longrightarrow> name \<noteq> [] \<Longrightarrow> list_all is_name_char name \<Longrightarrow> list_all is_field_value_char v \<Longrightarrow>
   fields_ok (multimap_emplace name v h)"
  by (auto simp: fields_ok_def multimap_ok_emplace set_multimap_emplace)

lemma fields_ok_erase: "fields_ok h \<Longrightarrow> fields_ok (multimap_erase name h)"
  by (auto simp: fields_ok_def multimap_ok_erase) (auto simp: multimap_erase_def)

lemma request_next_field_value:
  assumes "request_ok r" and "request_next ieq r = Some r'" and "r_state r \<noteq> ERRORED" and "r_code r' = Field_value"
  shows "list_all is_field_value_char (token_view r')"
proof -
  consider (body) "r_state r = EXPECT_END_OF_BODY" | (message) "r_state r = EXPECT_END_OF_MESSAGE" | (wait) "r' = advance r"
    | (step) a where "request_handler ieq a = Ret r'" "request_ready a"
    using request_next_case [OF assms(1,2)] assms(3) by auto
  then show ?thesis
  proof cases
    case (step a)
    have "r_state a \<in> {EXPECT_FIELD_VALUE, EXPECT_TRAILER_VALUE}"
      using request_handler_codes [OF step(2,1)] assms(4)
      by (cases "r_state a") (auto simp: request_case_codes_def)
    then have "request_partial_ok a"
      by (auto simp: request_partial_ok_def)
    from request_handler_text [OF step(2) this step(1)] assms(4) show ?thesis
      by (auto simp: token_text_ok_def)
  qed (use assms(2,4) in \<open>auto simp: request_next_early\<close>)
qed

lemma field_value_of_prefix: "field_value_of p = Some v \<Longrightarrow> \<exists>n. v = take n (token_view p)"
  by (auto simp: field_value_of_def decode_field_value_def split: if_splits)

lemma on_token_fields:
  assumes "on_token ieq (s, f) = Some (s1, f1)" and "r_code (so_parser s) \<noteq> Field_value"
  shows "msg_trailers (fr_message f1) = msg_trailers (fr_message f)
    \<and> (msg_headers (fr_message f1) = msg_headers (fr_message f)
       \<or> msg_headers (fr_message f1) = multimap_erase (asc ''expect'') (msg_headers (fr_message f)))"
  using assms by (cases "r_code (so_parser s)")
    (auto simp: on_token_def Let_def on_field_name_def on_end_of_headers_def split: if_splits)

lemma on_token_message:
  assumes "loop_ok orig s f" and "END \<notin> fr_flags f" and "request_next ieq (so_parser s) = Some p" and "is_token (r_code p)"
    and "on_token ieq (s\<lparr>so_parser := p\<rparr>, f) = Some (s1, f1)" and "message_ok (fr_message f)"
  shows "message_ok (fr_message f1)"
proof (cases "r_code p = Field_value")
  case True
  note t = loop_token_facts [OF assms(1-4)] and l = loop_okD [OF assms(1)]
  let ?name = "take (so_field_name_size s) (drop (fr_field_name_begin f) (so_buf s))"
  obtain v where v: "field_value_of p = Some v"
    using assms(5) True by (auto simp: on_token_def on_field_value_def Let_def split: option.splits)
  have "so_expecting_field s"
    using t(7) True l(3) by (auto elim: order_stepE simp: position_ok_def Let_def)
  then have at: "name_at (fr_field_name_begin f) (so_field_name_size s) (take (fr_nparsed f) (so_buf s))"
    by (rule l(7))
  then have "so_field_name_size s \<le> fr_nparsed f - fr_field_name_begin f" "0 < so_field_name_size s"
    by (auto simp: name_at_def)
  then have e: "take (so_field_name_size s) (drop (fr_field_name_begin f) (take (fr_nparsed f) (so_buf s))) = ?name"
    by (simp add: drop_take min_absorb1)
  have name: "list_all is_name_char ?name" "?name \<noteq> []"
    using at e by (auto simp: name_at_def)
  have "list_all is_field_value_char (token_view p)"
    by (rule request_next_field_value [OF l(1) assms(3) l(2) True])
  then have value_ok: "list_all is_field_value_char v"
    using field_value_of_prefix [OF v] by (auto simp: list_all_iff dest: in_set_takeD)
  have "fr_message f1 = fr_message f
    \<or> fr_message f1 = (fr_message f)\<lparr>msg_trailers := multimap_emplace ?name v (msg_trailers (fr_message f))\<rparr>
    \<or> fr_message f1 = (fr_message f)\<lparr>msg_headers := multimap_emplace ?name v (msg_headers (fr_message f))\<rparr>"
    using assms(5) True v by (auto simp: on_token_def on_field_value_def Let_def split: if_splits)
  then show ?thesis
  proof (elim disjE)
    assume "fr_message f1 = (fr_message f)\<lparr>msg_trailers := multimap_emplace ?name v (msg_trailers (fr_message f))\<rparr>"
    then show ?thesis
      using assms(6) fields_ok_emplace [OF _ name(2,1) value_ok, of "msg_trailers (fr_message f)"]
      by (simp add: message_ok_def)
  next
    assume "fr_message f1 = (fr_message f)\<lparr>msg_headers := multimap_emplace ?name v (msg_headers (fr_message f))\<rparr>"
    then show ?thesis
      using assms(6) fields_ok_emplace [OF _ name(2,1) value_ok, of "msg_headers (fr_message f)"]
      by (simp add: message_ok_def)
  qed (use assms(6) in simp)
next
  case False
  with on_token_fields [OF assms(5)] assms(6) show ?thesis
    by (auto simp: message_ok_def fields_ok_erase)
qed

lemma read_loop_message:
  assumes "loop_ok orig s f" and "message_ok (fr_message f)"
  shows "case read_loop ieq n s f of
      Loop_done s' f' \<Rightarrow> message_ok (fr_message f') | Loop_error s' f' \<Rightarrow> message_ok (fr_message f') | _ \<Rightarrow> True"
  using assms
proof (induction n arbitrary: s f)
  case (Suc n)
  note l = loop_okD [OF Suc.prems(1)]
  obtain p where p: "request_next ieq (so_parser s) = Some p"
    using loop_no_undefined [OF Suc.prems(1), of ieq] by blast
  show ?case
  proof (cases "is_token (r_code p)")
    case False
    with p Suc.prems(2) request_next_errors [OF l(1) p l(2)] show ?thesis
      by (cases "r_code p") (auto simp: Let_def)
  next
    case True
    have e: "END \<notin> fr_flags f"
      by (rule loop_token_not_end [OF Suc.prems(1) p True])
    then obtain s1 f1 where on: "on_token ieq (s\<lparr>so_parser := p\<rparr>, f) = Some (s1, f1)"
      and ok1: "loop_ok orig s1 (f1\<lparr>fr_nparsed := fr_nparsed f1 + r_tok (so_parser s1)\<rparr>)"
      using on_token_round [OF Suc.prems(1) _ p True] by blast
    have "read_loop ieq (Suc n) s f = read_loop ieq n s1 (f1\<lparr>fr_nparsed := fr_nparsed f1 + r_tok (so_parser s1)\<rparr>)"
      using p on True by (auto simp: Let_def)
    moreover have "message_ok (fr_message f1)"
      by (rule on_token_message [OF Suc.prems(1) e p True on Suc.prems(2)])
    ultimately show ?thesis
      using Suc.IH [OF ok1] by simp
  qed
qed simp

text \<open>
  C35: the message a socket reads is well formed: its header and trailer containers are sorted by name,
  every name is a non-empty token in lower case (so that a lookup of a lower-case name finds it) and
  every value consists of field-value characters, also when a field arrives in many pieces.
\<close>

theorem socket_message_ok:
  assumes "socket_ok s" and "length (so_buf s) + length input \<le> so_capacity s" and "pointers_ok t s method path"
    and "on_async_read_message ieq t ec input s method path m = (s', method', path', m', out)" and "message_ok m"
  shows "message_ok m'"
proof (cases "ec = No_error")
  case False
  with assms(4,5) show ?thesis
    by (simp add: on_async_read_message_def)
next
  case True
  define s0 where "s0 = set_window (window_start s) (length (so_buf s @ input)) (s\<lparr>so_buf := so_buf s @ input\<rparr>)"
  define f0 where "f0 = \<lparr>fr_nparsed = window_start s, fr_field_name_begin = 0, fr_flags = {}, fr_method = method, fr_path = path,
           fr_message = m\<rparr>"
  have "method = None \<or> path = None \<longrightarrow> so_istate s \<noteq> Read_empty"
    using assms(3) by (simp add: pointers_ok_def)
  note b = begin_loop [OF assms(1) this s0_def f0_def]
  have "case read_loop ieq (read_fuel s0) s0 f0 of
      Loop_done s' f' \<Rightarrow> message_ok (fr_message f') | Loop_error s' f' \<Rightarrow> message_ok (fr_message f') | _ \<Rightarrow> True"
    by (rule read_loop_message [OF b(1)]) (simp add: f0_def assms(5))
  then show ?thesis
    using assms(4,5) unfolding True on_async_read_message_eq [OF s0_def f0_def]
    by (auto simp: Let_def split: loop_result.splits)
qed

section \<open>Responses\<close>

lemma response_bytes_head:
  "\<exists>tail. response_bytes modern connect close status reason m =
     start_line modern status reason @ connection_close_line close @ field_lines (msg_headers m) @ tail"
  by (simp add: response_bytes_def Let_def)



section \<open>Instances\<close>

lemma idle_socket_new: "new_socket 16 idle_socket = Some idle_socket"
  by (simp add: new_socket_def idle_socket_def new_request_def)

lemma idle_socket_ok: "socket_ok idle_socket"
  by (rule new_socket_ok [OF idle_socket_new])

lemma socket_never_undefined_witness:
  "\<exists>s'. socket_step ascii_iequals (idle_socket, Idle) Wait (s', Reading READY (Some []) (Some []) empty_message)
     \<and> length (so_buf s') < so_capacity s'"
proof -
  have "async_read_request ascii_iequals idle_socket [] [] empty_message
      = (idle_socket\<lparr>so_writer := Finished\<rparr>, Some [], Some [], empty_message, Wait)"
    by (simp add: async_read_request_def schedule_on_async_read_message_def idle_socket_def empty_message_def clear_message_def)
  from socket_step.request [OF this] have step: "socket_step ascii_iequals (idle_socket, Idle) Wait
      (idle_socket\<lparr>so_writer := Finished\<rparr>, Reading READY (Some []) (Some []) empty_message)"
    by simp
  from socket_never_undefined [OF idle_socket_new socket_reachable.start step] step show ?thesis
    by (intro exI [of _ "idle_socket\<lparr>so_writer := Finished\<rparr>"]) simp
qed

lemma idle_socket_call:
  assumes "length input \<le> 16"
  obtains s' method' path' m' out where
    "on_async_read_message ascii_iequals READY No_error input idle_socket (Some []) (Some []) empty_message = (s', method', path', m', out)"
    "length (so_buf idle_socket) + length input \<le> so_capacity idle_socket" "pointers_ok READY idle_socket (Some []) (Some [])"
proof -
  obtain s' method' path' m' out where
    "on_async_read_message ascii_iequals READY No_error input idle_socket (Some []) (Some []) empty_message = (s', method', path', m', out)"
    using prod_cases5 by blast
  with that assms show thesis
    by (simp add: idle_socket_def pointers_ok_def)
qed


lemma socket_message_ok_witness:
  "\<exists>m'. fst (snd (snd (snd (on_async_read_message ascii_iequals READY No_error (asc ''GET / HTTP/1.0'') idle_socket
      (Some []) (Some []) empty_message)))) = m' \<and> message_ok m'"
proof -
  obtain s' method' path' m' out where call: "on_async_read_message ascii_iequals READY No_error (asc ''GET / HTTP/1.0'') idle_socket
      (Some []) (Some []) empty_message = (s', method', path', m', out)"
    "length (so_buf idle_socket) + length (asc ''GET / HTTP/1.0'') \<le> so_capacity idle_socket"
    "pointers_ok READY idle_socket (Some []) (Some [])"
    by (rule idle_socket_call [of "asc ''GET / HTTP/1.0''"]) auto
  have "message_ok empty_message"
    by (simp add: empty_message_def message_ok_def fields_ok_def)
  from socket_message_ok [OF idle_socket_ok call(2,3,1) this] call(1) show ?thesis
    by simp
qed


end
