(* ===== verification/PropertyTree.thy ===== *)
theory PropertyTree
  imports StdMap
begin

text \<open>
  Requests and replies are trees of \<open>boost::property_tree::ptree\<close>, a library that is not
  part of the repository. Every definition of the service that builds or reads a tree takes
  the library's operations as its argument, one field of the record \<open>ptree_api\<close> per member
  function the code calls. What the properties rely on of that library is the predicate
  \<open>ptree_laws\<close>: the documented behaviour of those functions on paths without the
  separator \<open>'.'\<close>. \<open>tree_api\<close> is a concrete implementation that satisfies the laws.
\<close>

record 't ptree_api =
  pt_new :: 't                                          \<comment> \<open>\<open>ptree()\<close>\<close>
  pt_get :: "'t \<Rightarrow> string \<Rightarrow> string option"              \<comment> \<open>\<open>get<std::string>(path)\<close>, \<open>None\<close>: throws\<close>
  pt_get_child :: "'t \<Rightarrow> string \<Rightarrow> 't option"            \<comment> \<open>\<open>get_child(path, default)\<close>, \<open>None\<close>: the default\<close>
  pt_children :: "'t \<Rightarrow> (string \<times> 't) list"             \<comment> \<open>\<open>begin()\<close> to \<open>end()\<close>\<close>
  pt_get_value :: "'t \<Rightarrow> string"                         \<comment> \<open>\<open>get_value<std::string>()\<close>\<close>
  pt_put :: "'t \<Rightarrow> string \<Rightarrow> string \<Rightarrow> 't"                \<comment> \<open>\<open>put(path, value)\<close>\<close>
  pt_put_value :: "'t \<Rightarrow> string \<Rightarrow> 't"                   \<comment> \<open>\<open>put_value(value)\<close>\<close>
  pt_add_child :: "'t \<Rightarrow> string \<Rightarrow> 't \<Rightarrow> 't"              \<comment> \<open>\<open>add_child(path, tree)\<close>\<close>
  pt_push_back :: "'t \<Rightarrow> string \<times> 't \<Rightarrow> 't"              \<comment> \<open>\<open>push_back(make_pair(key, tree))\<close>\<close>
  pt_bad_path_what :: "string \<Rightarrow> string"                \<comment> \<open>\<open>ptree_bad_path::what()\<close>\<close>

definition simple_path :: "string \<Rightarrow> bool" where
  "simple_path p \<longleftrightarrow> p \<noteq> [] \<and> CHR ''.'' \<notin> set p"

definition ptree_laws :: "'t ptree_api \<Rightarrow> bool" where
  "ptree_laws A \<longleftrightarrow>
     pt_children A (pt_new A) = [] \<and>
     (\<forall>p. simple_path p \<longrightarrow> pt_get A (pt_new A) p = None) \<and>
     (\<forall>t p v. simple_path p \<longrightarrow> pt_get A (pt_put A t p v) p = Some v) \<and>
     (\<forall>t p q v. simple_path p \<and> simple_path q \<and> p \<noteq> q \<longrightarrow>
        pt_get A (pt_put A t p v) q = pt_get A t q) \<and>
     (\<forall>t k c. simple_path k \<longrightarrow> pt_children A (pt_add_child A t k c) = pt_children A t @ [(k, c)]) \<and>
     (\<forall>t k q c. simple_path k \<and> simple_path q \<and> k \<noteq> q \<longrightarrow>
        pt_get A (pt_add_child A t k c) q = pt_get A t q) \<and>
     (\<forall>t k c. simple_path k \<and> k \<notin> fst ` set (pt_children A t) \<longrightarrow>
        pt_get_child A (pt_add_child A t k c) k = Some c) \<and>
     (\<forall>t p v. simple_path p \<longrightarrow>
        fst ` set (pt_children A (pt_put A t p v)) = insert p (fst ` set (pt_children A t))) \<and>
     (\<forall>t c. pt_children A (pt_push_back A t c) = pt_children A t @ [c]) \<and>
     (\<forall>t v. pt_get_value A (pt_put_value A t v) = v)"

lemma ptree_children_new: "ptree_laws A \<Longrightarrow> pt_children A (pt_new A) = []"
  by (simp add: ptree_laws_def)

lemma ptree_get_new: "ptree_laws A \<Longrightarrow> simple_path p \<Longrightarrow> pt_get A (pt_new A) p = None"
  by (simp add: ptree_laws_def)

lemma ptree_get_put:
  "ptree_laws A \<Longrightarrow> simple_path p \<Longrightarrow> simple_path q \<Longrightarrow>
   pt_get A (pt_put A t p v) q = (if p = q then Some v else pt_get A t q)"
  by (simp add: ptree_laws_def)

lemma ptree_children_add_child:
  "ptree_laws A \<Longrightarrow> simple_path k \<Longrightarrow> pt_children A (pt_add_child A t k c) = pt_children A t @ [(k, c)]"
  by (simp add: ptree_laws_def)

lemma ptree_get_add_child:
  "ptree_laws A \<Longrightarrow> simple_path k \<Longrightarrow> simple_path q \<Longrightarrow> k \<noteq> q \<Longrightarrow>
   pt_get A (pt_add_child A t k c) q = pt_get A t q"
  by (simp add: ptree_laws_def)

lemma ptree_get_child_add_child:
  "ptree_laws A \<Longrightarrow> simple_path k \<Longrightarrow> k \<notin> fst ` set (pt_children A t) \<Longrightarrow>
   pt_get_child A (pt_add_child A t k c) k = Some c"
  by (simp add: ptree_laws_def)

lemma ptree_keys_put:
  "ptree_laws A \<Longrightarrow> simple_path p \<Longrightarrow>
   fst ` set (pt_children A (pt_put A t p v)) = insert p (fst ` set (pt_children A t))"
  by (simp add: ptree_laws_def)

lemma ptree_children_push_back:
  "ptree_laws A \<Longrightarrow> pt_children A (pt_push_back A t c) = pt_children A t @ [c]"
  by (cases c) (simp add: ptree_laws_def)

lemma ptree_get_value_put_value: "ptree_laws A \<Longrightarrow> pt_get_value A (pt_put_value A t v) = v"
  by (simp add: ptree_laws_def)

lemmas ptree_simps =
  ptree_children_new ptree_get_new ptree_get_put ptree_children_add_child
  ptree_get_add_child ptree_children_push_back ptree_get_value_put_value

lemma children_fold_add_child:
  assumes "ptree_laws A" and "\<forall>v \<in> set ws. simple_path (key v)"
  shows "pt_children A (foldl (\<lambda>t v. pt_add_child A t (key v) (val v)) t ws)
    = pt_children A t @ map (\<lambda>v. (key v, val v)) ws"
  using assms by (induction ws arbitrary: t) (auto simp: ptree_children_add_child)

section \<open>An implementation of the laws\<close>

datatype ptree = Node string "(string \<times> ptree) list"

fun node_data :: "ptree \<Rightarrow> string" where
  "node_data (Node d cs) = d"

fun node_children :: "ptree \<Rightarrow> (string \<times> ptree) list" where
  "node_children (Node d cs) = cs"

definition path_keys :: "string \<Rightarrow> string list" where
  "path_keys p = (if p = [] then [] else split_on CHR ''.'' p)"

fun node_at :: "ptree \<Rightarrow> string list \<Rightarrow> ptree option" where
  "node_at t [] = Some t"
| "node_at t (k # ks) =
     (case map_of (node_children t) k of None \<Rightarrow> None | Some c \<Rightarrow> node_at c ks)"

fun alter_first :: "string \<Rightarrow> (ptree \<Rightarrow> ptree) \<Rightarrow> (string \<times> ptree) list \<Rightarrow> (string \<times> ptree) list" where
  "alter_first k f [] = [(k, f (Node [] []))]"
| "alter_first k f ((l, c) # cs) = (if l = k then (l, f c) # cs else (l, c) # alter_first k f cs)"

fun node_put :: "ptree \<Rightarrow> string list \<Rightarrow> string \<Rightarrow> ptree" where
  "node_put t [] v = Node v (node_children t)"
| "node_put t (k # ks) v =
     Node (node_data t) (alter_first k (\<lambda>c. node_put c ks v) (node_children t))"

fun node_add :: "ptree \<Rightarrow> string list \<Rightarrow> ptree \<Rightarrow> ptree" where
  "node_add t [] c = c"
| "node_add t [k] c = Node (node_data t) (node_children t @ [(k, c)])"
| "node_add t (k # ks) c =
     Node (node_data t) (alter_first k (\<lambda>d. node_add d ks c) (node_children t))"

definition tree_api :: "ptree ptree_api" where
  "tree_api =
     \<lparr>pt_new = Node [] [],
      pt_get = (\<lambda>t p. map_option node_data (node_at t (path_keys p))),
      pt_get_child = (\<lambda>t p. node_at t (path_keys p)),
      pt_children = node_children,
      pt_get_value = node_data,
      pt_put = (\<lambda>t p v. node_put t (path_keys p) v),
      pt_put_value = (\<lambda>t v. Node v (node_children t)),
      pt_add_child = (\<lambda>t p c. node_add t (path_keys p) c),
      pt_push_back = (\<lambda>t c. Node (node_data t) (node_children t @ [c])),
      pt_bad_path_what = (\<lambda>p. ''No such node ('' @ p @ '')'')\<rparr>"

lemma path_keys_simple: "simple_path p \<Longrightarrow> path_keys p = [p]"
  by (simp add: simple_path_def path_keys_def split_on_no_sep)

lemma map_of_alter_first:
  "map_of (alter_first k f cs) q =
   (if q = k then Some (f (case map_of cs k of None \<Rightarrow> Node [] [] | Some c \<Rightarrow> c)) else map_of cs q)"
  by (induction cs) auto

lemma keys_alter_first: "fst ` set (alter_first k f cs) = insert k (fst ` set cs)"
proof (induction cs)
  case (Cons e cs)
  then show ?case by (cases e) (simp add: insert_commute)
qed simp

lemma tree_api_laws: "ptree_laws tree_api"
  by (auto simp: ptree_laws_def tree_api_def path_keys_simple map_of_alter_first keys_alter_first
        map_add_def split: option.splits dest: map_of_SomeD)
     (force dest: map_of_SomeD)

end
