(* ===== verification/WorkerProcess.thy ===== *)
theory WorkerProcess
  imports PropertyTree
begin

text \<open>
  A worker of the streaming service and the process that runs it: \<open>src/worker.h\<close>,
  \<open>src/process.C\<close> and its five subclasses (\<open>application_process.C\<close>,
  \<open>executable_process.C\<close>, \<open>python_process.C\<close>, \<open>lambda_process.C\<close>, \<open>lua_process.C\<close>).
  A worker object is the record \<open>worker\<close>; its dynamic type is the field \<open>p_kind\<close>, which
  selects the override of \<open>run_process\<close>. The operating system's table of child processes is
  the map \<open>children\<close>: a child is running, a zombie that was not waited for, or gone.
  Log output on \<open>std::cerr\<close> is left out.
\<close>

section \<open>Outcomes and errors\<close>

datatype wye_error =
    Invalid_request string      \<comment> \<open>\<open>std::invalid_request\<close> of \<open>invalid_request.h\<close>\<close>
  | Runtime_error string        \<comment> \<open>\<open>std::runtime_error\<close>\<close>
  | System_error string         \<comment> \<open>\<open>boost::system::system_error\<close>\<close>
  | Bad_path string             \<comment> \<open>\<open>ptree_bad_path\<close>, with the path that was not found\<close>

definition error_what :: "'t ptree_api \<Rightarrow> wye_error \<Rightarrow> string" where
  "error_what A e =
     (case e of Invalid_request m \<Rightarrow> m | Runtime_error m \<Rightarrow> m | System_error m \<Rightarrow> m
      | Bad_path p \<Rightarrow> pt_bad_path_what A p)"

text \<open>
  What a call can do: return, throw, block for ever, or end the whole program (an exception
  that leaves a destructor or a thread calls \<open>std::terminate\<close>).
\<close>

datatype ('e, 'a) outcome = Done 'a | Throws 'e | Hangs | Aborts

section \<open>Children of the service, as the operating system keeps them\<close>

datatype child_status = Running bool \<comment> \<open>does it ignore \<open>SIGTERM\<close>?\<close> | Zombie int \<comment> \<open>wait status\<close>

type_synonym children = "nat \<rightharpoonup> child_status"

text \<open>\<open>waitpid(pid, &s, WNOHANG)\<close>: the return value and the table afterwards.\<close>

definition waitpid_nohang :: "children \<Rightarrow> nat \<Rightarrow> int \<times> children" where
  "waitpid_nohang os pid =
     (case os pid of None \<Rightarrow> (-1, os)
      | Some (Running _) \<Rightarrow> (0, os)
      | Some (Zombie _) \<Rightarrow> (int pid, os(pid := None)))"

text \<open>The signal a child is sent by \<open>kill(pid, SIGTERM)\<close>; \<open>None\<close>: the call returned -1.\<close>

definition kill_term :: "children \<Rightarrow> nat \<Rightarrow> children option" where
  "kill_term os pid =
     (case os pid of None \<Rightarrow> None
      | Some (Running ignores) \<Rightarrow> Some (if ignores then os else os(pid \<mapsto> Zombie 15))
      | Some (Zombie _) \<Rightarrow> Some os)"

text \<open>A child that ends by itself.\<close>

definition child_exits :: "nat \<Rightarrow> int \<Rightarrow> children \<Rightarrow> children" where
  "child_exits pid status os =
     (case os pid of Some (Running _) \<Rightarrow> os(pid \<mapsto> Zombie status) | _ \<Rightarrow> os)"

text \<open>
  \<open>boost::process::process::terminate(force = false)\<close> and \<open>boost::process::child::wait()\<close>; what
  \<open>errno\<close> adds to the message of the exception is left out.
\<close>

definition child_terminate :: "children \<Rightarrow> nat \<Rightarrow> (wye_error, children) outcome" where
  "child_terminate os pid =
     (case kill_term os pid of
        None \<Rightarrow> Throws (System_error ''boost::process::process::terminate: kill(2) failed'')
      | Some os' \<Rightarrow> Done os')"

definition child_wait :: "children \<Rightarrow> nat \<Rightarrow> (wye_error, int \<times> children) outcome" where
  "child_wait os pid =
     (case os pid of
        None \<Rightarrow> Throws (System_error ''boost::process::child::wait: waitpid(2) failed'')
      | Some (Running _) \<Rightarrow> Hangs
      | Some (Zombie s) \<Rightarrow> Done (s, os(pid := None)))"

text \<open>
  \<open>wait_nohang\<close>: the variable that takes the status has no initial value, and \<open>waitpid\<close> does not write to it
  while the child is running; \<open>garbage\<close> is what it holds.
\<close>

definition child_wait_nohang :: "int \<Rightarrow> children \<Rightarrow> nat \<Rightarrow> (wye_error, int \<times> children) outcome" where
  "child_wait_nohang garbage os pid =
     (let (r, os') = waitpid_nohang os pid
      in if r = -1 then Throws (System_error ''boost::process::child::wait: waitpid(2) failed'')
         else Done (case os pid of Some (Zombie s) \<Rightarrow> s | _ \<Rightarrow> garbage, os'))"

lemma child_wait_nohang_running: "os pid = Some (Running i) \<Longrightarrow> child_wait_nohang garbage os pid = Done (garbage, os)"
  by (simp add: child_wait_nohang_def waitpid_nohang_def)

lemma child_wait_nohang_ended: "os pid = Some (Zombie s) \<Longrightarrow> child_wait_nohang garbage os pid = child_wait os pid"
  by (simp add: child_wait_nohang_def waitpid_nohang_def child_wait_def)

section \<open>The worker object\<close>

datatype worker_state = RUNNING | STOPPED

datatype process_kind = Application | Executable | Python | Lambda | Lua

type_synonym address_list = "string list list"

record worker =
  w_id :: string
  w_name :: string
  w_job_id :: string
  w_state :: worker_state
  w_outputs :: "(string, address_list) std_map"
  w_inputs :: "(string, string) std_map"
  p_kind :: process_kind
  p_exec :: string
  p_args :: "string list"
  p_proc :: "nat option"

text \<open>\<open>worker::worker()\<close> with \<open>process::process()\<close>; \<open>uuid\<close> is what the generator returned.\<close>

definition new_worker :: "string \<Rightarrow> process_kind \<Rightarrow> worker" where
  "new_worker uuid kind =
     \<lparr>w_id = uuid, w_name = [], w_job_id = [], w_state = RUNNING, w_outputs = [], w_inputs = [],
      p_kind = kind, p_exec = [], p_args = [], p_proc = None\<rparr>"

section \<open>Reading the request: \<open>init_process\<close>\<close>

text \<open>The loop over \<open>outputs\<close>, the same in every subclass.\<close>

definition read_address :: "'t ptree_api \<Rightarrow> 't \<Rightarrow> string list" where
  "read_address A j = map (\<lambda>k. pt_get_value A (snd k)) (pt_children A j)"

definition read_address_list :: "'t ptree_api \<Rightarrow> 't \<Rightarrow> address_list" where
  "read_address_list A wal = map (\<lambda>j. read_address A (snd j)) (pt_children A wal)"

definition read_outputs :: "'t ptree_api \<Rightarrow> 't \<Rightarrow> (string, address_list) std_map" where
  "read_outputs A p =
     (case pt_get_child A p ''outputs'' of
        None \<Rightarrow> []
      | Some outs \<Rightarrow> foldl (\<lambda>m i. map_assign (fst i) (read_address_list A (snd i)) m) [] (pt_children A outs))"

text \<open>\<open>"name:addr,addr,..."\<close>, one command-line argument per address list.\<close>

definition output_arg :: "string \<Rightarrow> string list \<Rightarrow> string" where
  "output_arg name addresses = name @ '':'' @ join_with '','' addresses"

definition output_args :: "(string, address_list) std_map \<Rightarrow> string list" where
  "output_args outs = concat (map (\<lambda>(name, al). map (output_arg name) al) outs)"

text \<open>\<open>job_id\<close> is compulsory, \<open>name\<close> is not; then the outputs.\<close>

definition read_common :: "'t ptree_api \<Rightarrow> 't \<Rightarrow> worker \<Rightarrow> wye_error + worker" where
  "read_common A p w =
     (case pt_get A p ''job_id'' of
        None \<Rightarrow> Inl (Bad_path ''job_id'')
      | Some j \<Rightarrow>
          Inr (w\<lparr>w_job_id := j,
                 w_name := (case pt_get A p ''name'' of None \<Rightarrow> w_name w | Some n \<Rightarrow> n),
                 w_outputs := read_outputs A p,
                 p_args := p_args w @ output_args (read_outputs A p)\<rparr>))"

definition application_init :: "'t ptree_api \<Rightarrow> 't \<Rightarrow> worker \<Rightarrow> wye_error + worker" where
  "application_init A p w =
     (case pt_get A p ''exe'' of
        None \<Rightarrow> Inl (Bad_path ''exe'')
      | Some exe \<Rightarrow>
          if take 1 exe \<noteq> ''/''
          then Inl (Runtime_error (''Absolute path not specifed for application: '' @ exe))
          else read_common A p (w\<lparr>p_exec := exe, p_args := [exe, '''']\<rparr>))"

definition executable_init :: "'t ptree_api \<Rightarrow> 't \<Rightarrow> worker \<Rightarrow> wye_error + worker" where
  "executable_init A p w =
     (case pt_get A p ''exe'' of
        None \<Rightarrow> Inl (Bad_path ''exe'')
      | Some exe \<Rightarrow> read_common A p (w\<lparr>p_exec := exe, p_args := [exe, '''']\<rparr>))"

definition python_init :: "'t ptree_api \<Rightarrow> 't \<Rightarrow> worker \<Rightarrow> wye_error + worker" where
  "python_init A p w =
     (case pt_get A p ''file'' of
        None \<Rightarrow> Inl (Bad_path ''file'')
      | Some file \<Rightarrow>
          read_common A p (w\<lparr>p_exec := ''/usr/bin/python'', p_args := [''python'', file]\<rparr>))"

definition lua_init :: "'t ptree_api \<Rightarrow> 't \<Rightarrow> worker \<Rightarrow> wye_error + worker" where
  "lua_init A p w =
     (case pt_get A p ''file'' of
        None \<Rightarrow> Inl (Bad_path ''file'')
      | Some file \<Rightarrow>
          read_common A p (w\<lparr>p_exec := ''/usr/bin/lua'', p_args := [''lua'', file]\<rparr>))"

text \<open>
  A lambda worker has the interpreter run a program text the request is pasted into:
  \<open>import wye.func; wye.func.CALL('LAMBDA', ['name:addr,...',...])\<close>.
\<close>

definition quote_char :: char where
  "quote_char = CHR 0x27"

definition lambda_program :: "string \<Rightarrow> string \<Rightarrow> (string, address_list) std_map \<Rightarrow> string" where
  "lambda_program call lam outs =
     ''import wye.func; wye.func.'' @ call @ ''('' @ [quote_char] @ lam @ [quote_char] @ '', [''
     @ join_with '','' (map (\<lambda>arg. [quote_char] @ arg @ [quote_char]) (output_args outs)) @ ''])''"

definition lambda_init :: "'t ptree_api \<Rightarrow> 't \<Rightarrow> worker \<Rightarrow> wye_error + worker" where
  "lambda_init A p w =
     (case pt_get A p ''lambda'' of
        None \<Rightarrow> Inl (Bad_path ''lambda'')
      | Some lam \<Rightarrow>
     (case pt_get A p ''job_id'' of
        None \<Rightarrow> Inl (Bad_path ''job_id'')
      | Some j \<Rightarrow>
     (case pt_get A p ''call'' of
        None \<Rightarrow> Inl (Bad_path ''call'')
      | Some call \<Rightarrow>
          Inr (w\<lparr>w_job_id := j,
                 w_name := (case pt_get A p ''name'' of None \<Rightarrow> w_name w | Some n \<Rightarrow> n),
                 w_outputs := read_outputs A p,
                 p_exec := ''/usr/bin/python'',
                 p_args := [''python'', ''-c'', lambda_program call lam (read_outputs A p)]\<rparr>))))"

definition init_process :: "'t ptree_api \<Rightarrow> 't \<Rightarrow> worker \<Rightarrow> wye_error + worker" where
  "init_process A p w =
     (case p_kind w of
        Application \<Rightarrow> application_init A p w
      | Executable \<Rightarrow> executable_init A p w
      | Python \<Rightarrow> python_init A p w
      | Lambda \<Rightarrow> lambda_init A p w
      | Lua \<Rightarrow> lua_init A p w)"

section \<open>Starting the child and reading its hand-shake\<close>

text \<open>
  What the operating system answers to the launch: it fails (the message of the
  \<open>system_error\<close>), or there is a new child with the bytes it writes to descriptor 3 and
  whether it closes that descriptor afterwards.
\<close>

datatype launch = Launch_fails string | Launched nat bool string bool

definition process_run :: "launch \<Rightarrow> children \<Rightarrow> worker \<Rightarrow> (wye_error, children \<times> worker \<times> string \<times> bool) outcome" where
  "process_run l os w =
     (case l of
        Launch_fails m \<Rightarrow> Throws (System_error m)
      | Launched pid ignores written closed \<Rightarrow>
          Done (os(pid \<mapsto> Running ignores), w\<lparr>p_proc := Some pid\<rparr>, written, closed))"

text \<open>
  \<open>std::getline\<close> on the pipe: a line, the rest of the data and whether the end of the data was
  hit while the line was read; no line at the end of the data; or it waits for the writer.
\<close>

datatype getline_result = Line string string bool | No_line | Would_block

definition getline :: "string \<Rightarrow> bool \<Rightarrow> getline_result" where
  "getline s closed =
     (let n = match_while (\<lambda>c. c \<noteq> CHR 0x0A) s
      in if n < length s then Line (take n s) (drop (Suc n) s) False
         else if \<not> closed then Would_block
         else if s = [] then No_line
         else Line s [] True)"

datatype line_action = Keep_reading "(string, string) std_map" | Fail_start wye_error | Started

text \<open>The body of the loop in \<open>process::run_process\<close>, for one line.\<close>

definition handshake_line :: "string \<Rightarrow> (string, string) std_map \<Rightarrow> line_action" where
  "handshake_line line ins =
     (if line = ''INIT'' then Keep_reading ins
      else if take 6 line = ''INPUT:'' then
        (let l = drop 6 line; pos = match_while (\<lambda>c. c \<noteq> CHR '':'') l
         in if pos = length l
            then Fail_start (Runtime_error (''Did not interpret process output INPUT:'' @ l))
            else Keep_reading (map_assign (take pos l) (drop (pos + 1) l) ins))
      else if take 6 line = ''ERROR:''
        then Fail_start (Runtime_error (''Process failed to start: '' @ drop 6 line))
      else if take 7 line = ''NOTICE:'' then Keep_reading ins
      else if line = ''RUNNING'' then Started
      else Fail_start (Runtime_error (''Bad return string: '' @ line)))"

datatype handshake_end = Loop_left bool \<comment> \<open>is \<open>eofbit\<close> set?\<close> | Loop_throws wye_error | Loop_blocks

lemma getline_shorter: "getline s closed = Line l rest e \<Longrightarrow> length rest < length s"
  by (auto simp: getline_def Let_def split: if_splits)

function handshake :: "string \<Rightarrow> bool \<Rightarrow> (string, string) std_map \<Rightarrow> (string, string) std_map \<times> handshake_end" where
  "handshake s closed ins =
     (case getline s closed of
        Would_block \<Rightarrow> (ins, Loop_blocks)
      | No_line \<Rightarrow> (ins, Loop_left True)
      | Line line rest eof \<Rightarrow>
          (case handshake_line line ins of
             Keep_reading ins' \<Rightarrow> handshake rest closed ins'
           | Fail_start e \<Rightarrow> (ins, Loop_throws e)
           | Started \<Rightarrow> (ins, Loop_left eof)))"
  by pat_completeness auto
termination
  by (relation "measure (\<lambda>(s, closed, ins). length s)") (auto dest: getline_shorter)

declare handshake.simps [simp del]

definition inputs_tree :: "'t ptree_api \<Rightarrow> (string, string) std_map \<Rightarrow> 't" where
  "inputs_tree A ins = foldl (\<lambda>t i. pt_put A t (fst i) (snd i)) (pt_new A) ins"

definition started_reply :: "'t ptree_api \<Rightarrow> worker \<Rightarrow> 't" where
  "started_reply A w =
     (let r = pt_put A (pt_new A) ''id'' (w_id w)
      in if w_inputs w \<noteq> [] then pt_add_child A r ''inputs'' (inputs_tree A (w_inputs w)) else r)"

text \<open>
  \<open>process::run_process\<close>. The worker is shared with the manager's map, so what the call wrote
  to it before it threw stays written: the result carries the table of children and the worker
  beside the outcome. \<open>out.bad()\<close> never holds: \<open>systembuf::underflow\<close> reports a read error
  as the end of the data; its branch throws the same error as the next one.
\<close>

definition process_run_process ::
  "'t ptree_api \<Rightarrow> launch \<Rightarrow> children \<Rightarrow> worker \<Rightarrow> children \<times> worker \<times> (wye_error, 't) outcome" where
  "process_run_process A l os w =
     (case process_run l os w of
        Done (os', w', written, closed) \<Rightarrow>
          (let (ins, e) = handshake written closed (w_inputs w'); w'' = w'\<lparr>w_inputs := ins\<rparr>
           in (case e of
                 Loop_blocks \<Rightarrow> (os', w'', Hangs)
               | Loop_throws err \<Rightarrow> (os', w'', Throws err)
               | Loop_left eof \<Rightarrow>
                   if eof then (os', w'', Throws (Runtime_error ''Process didn't send RUNNING''))
                   else (os', w'', Done (started_reply A w''))))
      | Throws e \<Rightarrow> (os, w, Throws e)
      | Hangs \<Rightarrow> (os, w, Hangs)
      | Aborts \<Rightarrow> (os, w, Aborts))"

definition application_run_process ::
  "'t ptree_api \<Rightarrow> launch \<Rightarrow> children \<Rightarrow> worker \<Rightarrow> children \<times> worker \<times> (wye_error, 't) outcome" where
  "application_run_process A l os w =
     (case process_run l os w of
        Done (os', w', written, closed) \<Rightarrow> (os', w', Done (started_reply A w'))
      | Throws e \<Rightarrow> (os, w, Throws e)
      | Hangs \<Rightarrow> (os, w, Hangs)
      | Aborts \<Rightarrow> (os, w, Aborts))"

definition run_process ::
  "'t ptree_api \<Rightarrow> launch \<Rightarrow> children \<Rightarrow> worker \<Rightarrow> children \<times> worker \<times> (wye_error, 't) outcome" where
  "run_process A l os w =
     (if p_kind w = Application then application_run_process A l os w
      else process_run_process A l os w)"

section \<open>Describing, checking and destroying a worker\<close>

definition sequence_tree :: "'t ptree_api \<Rightarrow> 't list \<Rightarrow> 't" where
  "sequence_tree A ts = foldl (\<lambda>t e. pt_push_back A t ('''', e)) (pt_new A) ts"

definition strings_tree :: "'t ptree_api \<Rightarrow> string list \<Rightarrow> 't" where
  "strings_tree A xs = sequence_tree A (map (pt_put_value A (pt_new A)) xs)"

definition outputs_tree :: "'t ptree_api \<Rightarrow> (string, address_list) std_map \<Rightarrow> 't" where
  "outputs_tree A outs =
     foldl (\<lambda>t i. pt_add_child A t (fst i) (sequence_tree A (map (strings_tree A) (snd i)))) (pt_new A) outs"

definition describe :: "'t ptree_api \<Rightarrow> worker \<Rightarrow> 't \<Rightarrow> 't" where
  "describe A w p =
     (let p = pt_put A p ''id'' (w_id w);
          p = (if w_name w \<noteq> '''' then pt_put A p ''name'' (w_name w) else p);
          p = pt_put A p ''job_id'' (w_job_id w);
          p = pt_put A p ''exec'' (p_exec w);
          p = pt_put A p ''state'' (if w_state w = RUNNING then ''RUNNING'' else ''STOPPED'');
          p = (if p_args w \<noteq> [] then pt_add_child A p ''args'' (strings_tree A (p_args w)) else p);
          p = (if w_inputs w \<noteq> [] then pt_add_child A p ''inputs'' (inputs_tree A (w_inputs w)) else p)
      in if w_outputs w \<noteq> [] then pt_add_child A p ''outputs'' (outputs_tree A (w_outputs w)) else p)"

definition is_running :: "children \<Rightarrow> worker \<Rightarrow> (wye_error, children \<times> worker \<times> bool) outcome" where
  "is_running os w =
     (if w_state w \<noteq> RUNNING then Done (os, w, False)
      else case p_proc w of
        None \<Rightarrow> Throws (Runtime_error ''Process null pointer!'')
      | Some pid \<Rightarrow>
          (let (r, os') = waitpid_nohang os pid
           in if r = -1 then Done (os', w\<lparr>w_state := STOPPED, p_proc := None\<rparr>, False)
              else Done (os', w, True)))"

text \<open>\<open>process::~process()\<close>: an exception that leaves it ends the program.\<close>

definition destroy_process :: "children \<Rightarrow> worker \<Rightarrow> (wye_error, children) outcome" where
  "destroy_process os w =
     (case p_proc w of
        None \<Rightarrow> Done os
      | Some pid \<Rightarrow>
          (case child_terminate os pid of
             Done os' \<Rightarrow>
               (case child_wait os' pid of
                  Done (s, os'') \<Rightarrow> Done os''
                | Throws e \<Rightarrow> Aborts | Hangs \<Rightarrow> Hangs | Aborts \<Rightarrow> Aborts)
           | Throws e \<Rightarrow> Aborts | Hangs \<Rightarrow> Hangs | Aborts \<Rightarrow> Aborts))"

text \<open>\<open>process::terminate()\<close>, the explicit form of the same steps.\<close>

definition process_terminate :: "children \<Rightarrow> worker \<Rightarrow> (wye_error, children \<times> worker) outcome" where
  "process_terminate os w =
     (case p_proc w of
        None \<Rightarrow> Aborts
      | Some pid \<Rightarrow>
          (case child_terminate os pid of
             Done os' \<Rightarrow>
               (case child_wait os' pid of
                  Done (s, os'') \<Rightarrow> Done (os'', w\<lparr>p_proc := None\<rparr>)
                | Throws e \<Rightarrow> Throws e | Hangs \<Rightarrow> Hangs | Aborts \<Rightarrow> Aborts)
           | Throws e \<Rightarrow> Throws e | Hangs \<Rightarrow> Hangs | Aborts \<Rightarrow> Aborts))"


section \<open>The hand-shake, seen as a sequence of lines\<close>

abbreviation newline :: char where
  "newline \<equiv> CHR 0x0A"

text \<open>What one accepted line does to the inputs; \<open>None\<close>: the line is not accepted.\<close>

definition accept_line :: "string \<Rightarrow> (string, string) std_map \<Rightarrow> (string, string) std_map option" where
  "accept_line l ins = (case handshake_line l ins of Keep_reading ins' \<Rightarrow> Some ins' | _ \<Rightarrow> None)"

fun accept_lines :: "string list \<Rightarrow> (string, string) std_map \<Rightarrow> (string, string) std_map option" where
  "accept_lines [] ins = Some ins"
| "accept_lines (l # ls) ins =
     (case accept_line l ins of None \<Rightarrow> None | Some ins' \<Rightarrow> accept_lines ls ins')"

definition unlines :: "string list \<Rightarrow> string" where
  "unlines ls = concat (map (\<lambda>l. l @ [newline]) ls)"

lemma unlines_simps [simp]: "unlines [] = []" "unlines (l # ls) = l @ newline # unlines ls"
  by (simp_all add: unlines_def)

lemma match_while_unterminated: "newline \<notin> set l \<Longrightarrow> match_while (\<lambda>c. c \<noteq> newline) (l @ newline # rest) = length l"
  by (induction l) auto

lemma getline_line: "newline \<notin> set l \<Longrightarrow> getline (l @ newline # rest) closed = Line l rest False"
  by (simp add: getline_def match_while_unterminated)

lemma getline_LineD:
  "getline s closed = Line l rest False \<Longrightarrow> s = l @ newline # rest \<and> newline \<notin> set l"
proof -
  assume *: "getline s closed = Line l rest False"
  let ?n = "match_while (\<lambda>c. c \<noteq> newline) s"
  from * have n: "?n < length s" "l = take ?n s" "rest = drop (Suc ?n) s"
    by (auto simp: getline_def Let_def split: if_splits)
  moreover have "s ! ?n = newline"
    using match_while_stop n(1) by blast
  ultimately show ?thesis
    by (metis id_take_nth_drop take_match_while set_takeWhileD)
qed

lemma getline_LineTrueD:
  "getline s closed = Line l rest True \<Longrightarrow> closed \<and> rest = [] \<and> s = l \<and> newline \<notin> set s"
  by (auto simp: getline_def Let_def match_while_eq_length split: if_splits)
     (metis (mono_tags, lifting) match_while_eq_length match_while_le nat_less_le)

lemma handshake_line_started: "handshake_line l ins = Started \<longleftrightarrow> l = ''RUNNING''"
  by (auto simp: handshake_line_def Let_def)

lemma accept_line_not_running [simp]: "accept_line ''RUNNING'' ins = None"
  by (simp add: accept_line_def handshake_line_def)

lemma handshake_accepts:
  assumes "accept_lines ls ins = Some ins'" and "\<forall>l \<in> set ls. newline \<notin> set l"
  shows "handshake (unlines ls @ s) closed ins = handshake s closed ins'"
  using assms
proof (induction ls arbitrary: ins)
  case (Cons l ls)
  then obtain ins1 where 1: "handshake_line l ins = Keep_reading ins1" "accept_lines ls ins1 = Some ins'"
    by (auto simp: accept_line_def split: option.splits line_action.splits)
  have "handshake (unlines (l # ls) @ s) closed ins = handshake (unlines ls @ s) closed ins1"
    using Cons.prems 1 by (subst handshake.simps) (simp add: getline_line)
  with Cons 1 show ?case
    by simp
qed simp

lemma handshake_running:
  "handshake (''RUNNING'' @ newline # rest) closed ins = (ins, Loop_left False)"
proof -
  have g: "getline (''RUNNING'' @ newline # rest) closed = Line ''RUNNING'' rest False"
    by (rule getline_line) simp
  have h: "handshake_line ''RUNNING'' ins = Started"
    by (simp only: handshake_line_started)
  show ?thesis
    by (subst handshake.simps, unfold g) (simp add: h del: append_Cons)
qed

lemma handshake_succeedsD:
  assumes "handshake s closed ins = (ins', Loop_left False)"
  shows "\<exists>ls rest. s = unlines ls @ ''RUNNING'' @ newline # rest \<and> list_all (\<lambda>l. newline \<notin> set l) ls
    \<and> accept_lines ls ins = Some ins'"
  using assms
proof (induction s closed ins rule: handshake.induct)
  case (1 s closed ins)
  from "1.prems" obtain l rest eof where g: "getline s closed = Line l rest eof"
    by (subst (asm) handshake.simps) (auto split: getline_result.splits)
  show ?case
  proof (cases "handshake_line l ins")
    case (Keep_reading ins1)
    have h: "handshake rest closed ins1 = (ins', Loop_left False)"
      using "1.prems" g Keep_reading by (subst (asm) handshake.simps) simp
    from "1.IH" [OF g Keep_reading this] obtain ls r where
      IH: "rest = unlines ls @ ''RUNNING'' @ newline # r" "list_all (\<lambda>l. newline \<notin> set l) ls"
        "accept_lines ls ins1 = Some ins'" by blast
    then have "\<not> eof"
      using g by (auto dest!: getline_LineTrueD)
    with g have "s = unlines (l # ls) @ ''RUNNING'' @ newline # r" "newline \<notin> set l"
      using getline_LineD [of s closed l rest] IH(1) by simp_all
    moreover have "accept_lines (l # ls) ins = Some ins'"
      using Keep_reading IH by (simp add: accept_line_def)
    ultimately show ?thesis
      using IH(2) by (intro exI [of _ "l # ls"] exI [of _ r]) simp
  next
    case (Fail_start e)
    then show ?thesis
      using "1.prems" g by (subst (asm) handshake.simps) simp
  next
    case Started
    with "1.prems" g have "\<not> eof" "ins' = ins"
      by (subst (asm) handshake.simps, simp)+
    with Started g have "s = unlines [] @ ''RUNNING'' @ newline # rest"
      using getline_LineD [of s closed l rest] by (simp add: handshake_line_started)
    then show ?thesis
      using \<open>ins' = ins\<close> by (intro exI [of _ "[]"] exI [of _ rest]) simp
  qed
qed


text \<open>
  A worker that closes descriptor 3 cannot block the service: with the writing end closed the
  hand-shake loop is left or throws.
\<close>

lemma handshake_closed_returns: "snd (handshake s True ins) \<noteq> Loop_blocks"
  by (induction s True ins rule: handshake.induct, subst handshake.simps)
     (auto simp: getline_def Let_def split: getline_result.splits line_action.splits if_splits)


section \<open>The life of the child\<close>

lemma waitpid_nohang_simps [simp]:
  "os pid = None \<Longrightarrow> waitpid_nohang os pid = (-1, os)"
  "os pid = Some (Running i) \<Longrightarrow> waitpid_nohang os pid = (0, os)"
  "os pid = Some (Zombie s) \<Longrightarrow> waitpid_nohang os pid = (int pid, os(pid := None))"
  by (simp_all add: waitpid_nohang_def)

lemma destroy_process_no_child [simp]: "p_proc w = None \<Longrightarrow> destroy_process os w = Done os"
  by (simp add: destroy_process_def)

lemma destroy_process_simps:
  assumes "p_proc w = Some pid"
  shows "os pid = None \<Longrightarrow> destroy_process os w = Aborts"
    and "os pid = Some (Running True) \<Longrightarrow> destroy_process os w = Hangs"
    and "os pid = Some (Running False) \<Longrightarrow> destroy_process os w = Done (os(pid := None))"
    and "os pid = Some (Zombie s) \<Longrightarrow> destroy_process os w = Done (os(pid := None))"
  using assms by (simp_all add: destroy_process_def child_terminate_def child_wait_def kill_term_def)

lemma destroy_process_Done:
  "destroy_process os w = Done os' \<Longrightarrow> os' = (case p_proc w of None \<Rightarrow> os | Some pid \<Rightarrow> os(pid := None))"
  by (auto simp: destroy_process_def child_terminate_def child_wait_def kill_term_def
      split: option.splits outcome.splits child_status.splits if_splits)

lemma destroy_process_not_Throws [simp]: "destroy_process os w \<noteq> Throws e"
  by (auto simp: destroy_process_def child_terminate_def child_wait_def kill_term_def
      split: option.splits outcome.splits child_status.splits if_splits)

definition killable :: "children \<Rightarrow> worker \<Rightarrow> bool" where
  "killable os w =
     (case p_proc w of None \<Rightarrow> True
      | Some pid \<Rightarrow> os pid \<noteq> None \<and> os pid \<noteq> Some (Running True))"

lemma destroy_process_killable: "killable os w \<longleftrightarrow> (\<exists>os'. destroy_process os w = Done os')"
proof (cases "p_proc w")
  case (Some pid)
  show ?thesis
  proof (cases "os pid")
    case st: (Some st)
    then show ?thesis
      using Some destroy_process_simps [OF Some] by (cases st) (auto simp: killable_def)
  qed (use Some destroy_process_simps [OF Some] in \<open>auto simp: killable_def\<close>)
qed (simp add: killable_def)

text \<open>
  \<open>process::~process\<close> kills and waits for the child when the child is still in the process
  table and does not ignore \<open>SIGTERM\<close>; it ends the whole program when the child was already
  waited for (for example by \<open>is_running\<close>), and blocks for ever when the child ignores the signal.
\<close>

theorem destroy_process_outcome:
  "destroy_process os w =
     (case p_proc w of None \<Rightarrow> Done os
      | Some pid \<Rightarrow>
          if os pid = None then Aborts
          else if os pid = Some (Running True) then Hangs
          else Done (os(pid := None)))"
proof (cases "p_proc w")
  case (Some pid)
  then show ?thesis
    using destroy_process_simps [OF Some, of os] by (auto split: child_status.splits) (metis child_status.exhaust)
qed simp

lemma is_running_reaps:
  "w_state w = RUNNING \<Longrightarrow> p_proc w = Some pid \<Longrightarrow> os pid = Some (Zombie st) \<Longrightarrow>
   is_running os w = Done (os(pid := None), w, True)"
  by (simp add: is_running_def)

text \<open>
  A child that has exited is still reported as running by the first poll, which reaps it;
  only the poll after that notices that the process is gone and marks the worker \<open>STOPPED\<close>.
\<close>

theorem exit_noticed_by_second_poll:
  assumes "w_state w = RUNNING" and "p_proc w = Some pid" and "os pid = Some (Zombie st)"
  shows "is_running os w = Done (os(pid := None), w, True)
    \<and> is_running (os(pid := None)) w = Done (os(pid := None), w\<lparr>w_state := STOPPED, p_proc := None\<rparr>, False)"
  using assms by (simp add: is_running_def)

lemma exit_noticed_by_second_poll_witness:
  "is_running [7 \<mapsto> Zombie 0] (new_worker ''u'' Lua \<lparr>p_proc := Some 7\<rparr>)
     = Done (Map.empty, new_worker ''u'' Lua \<lparr>p_proc := Some 7\<rparr>, True)"
  using exit_noticed_by_second_poll [of "new_worker ''u'' Lua \<lparr>p_proc := Some 7\<rparr>" 7 "[7 \<mapsto> Zombie 0]" 0]
  by (simp add: new_worker_def)

lemma is_running_Done:
  assumes "is_running os w = Done (os', w', b)"
  shows "w' = w \<or> w' = w\<lparr>w_state := STOPPED, p_proc := None\<rparr>"
  using assms by (auto simp: is_running_def Let_def split: if_splits option.splits prod.splits)

lemma is_running_Throws: "(\<exists>e. is_running os w = Throws e) \<longleftrightarrow> w_state w = RUNNING \<and> p_proc w = None"
  by (auto simp: is_running_def Let_def split: option.splits prod.splits)

lemma is_running_not_lost [simp]: "is_running os w \<noteq> Hangs" "is_running os w \<noteq> Aborts"
  by (auto simp: is_running_def Let_def split: option.splits prod.splits)

section \<open>What a description says of the outputs\<close>

lemma sequence_tree_children:
  "ptree_laws A \<Longrightarrow> pt_children A (sequence_tree A ts) = map (Pair '''') ts"
proof -
  assume l: "ptree_laws A"
  have "pt_children A (foldl (\<lambda>t e. pt_push_back A t ('''', e)) t ts) = pt_children A t @ map (Pair '''') ts" for t
    by (induction ts arbitrary: t) (simp_all add: ptree_children_push_back [OF l])
  then show ?thesis
    by (simp add: sequence_tree_def ptree_children_new [OF l])
qed

lemma read_address_list_written:
  "ptree_laws A \<Longrightarrow> read_address_list A (sequence_tree A (map (strings_tree A) al)) = al"
  by (simp add: read_address_list_def read_address_def strings_tree_def sequence_tree_children
      comp_def ptree_get_value_put_value)

lemma keys_add_child:
  "ptree_laws A \<Longrightarrow> simple_path k \<Longrightarrow>
   fst ` set (pt_children A (pt_add_child A t k c)) = insert k (fst ` set (pt_children A t))"
  by (simp add: ptree_children_add_child)

text \<open>
  Reading the outputs of a worker's description, as \<open>init_process\<close> reads them of a request,
  gives the worker's outputs back: the tree that \<open>describe\<close> builds loses nothing and keeps the
  order of the outputs, of each one's address lists and of the addresses in them.
\<close>

theorem describe_outputs_roundtrip:
  assumes "ptree_laws A" and "map_ok (w_outputs w)" and "w_outputs w \<noteq> []"
    and "\<forall>o' \<in> set (w_outputs w). simple_path (fst o')"
  shows "read_outputs A (describe A w (pt_new A)) = w_outputs w"
proof -
  let ?outs = "outputs_tree A (w_outputs w)"
  have "pt_get_child A (describe A w (pt_new A)) ''outputs'' = Some ?outs"
    using assms(1,3)
    by (simp add: describe_def Let_def ptree_get_child_add_child keys_add_child ptree_keys_put
        ptree_children_new simple_path_def)
  moreover have "pt_children A ?outs = map (\<lambda>i. (fst i, sequence_tree A (map (strings_tree A) (snd i)))) (w_outputs w)"
    using assms(1,4) by (simp add: outputs_tree_def children_fold_add_child ptree_children_new)
  ultimately show ?thesis
    using assms(1,2) foldl_map_assign [of "[]" "w_outputs w"]
    by (simp add: read_outputs_def foldl_map read_address_list_written)
qed

lemma describe_outputs_roundtrip_witness:
  "read_outputs tree_api (describe tree_api (new_worker ''u'' Lua\<lparr>w_outputs := [(''out'', [[''a'', ''b''], [''c'']])]\<rparr>)
     (pt_new tree_api)) = [(''out'', [[''a'', ''b''], [''c'']])]"
  using describe_outputs_roundtrip [OF tree_api_laws, of "new_worker ''u'' Lua\<lparr>w_outputs := [(''out'', [[''a'', ''b''], [''c'']])]\<rparr>"]
  by (simp add: simple_path_def map_ok_def)

end
