(* ===== verification/Manager.thy ===== *)
theory Manager
  imports WorkerProcess
begin

text \<open>
  The streaming service's registry of workers and jobs, \<open>src/manager.C\<close> with \<open>src/job.C\<close>. The
  record \<open>service\<close> holds the two maps and the table of the service's child processes. Each
  member function is a definition of the same name; all of them run with the mutexes held, so
  a request is one step. A handler's result is the state it leaves and its outcome; after
  \<open>Hangs\<close> (a call that never returns while it holds the mutex) and \<open>Aborts\<close> (the program is
  gone) the state is the one before the call, and nothing more can be observed of it.
\<close>

section \<open>The state\<close>

record job =
  j_id :: string
  j_name :: string
  j_description :: string

definition new_job :: "string \<Rightarrow> job" where
  "new_job uuid = \<lparr>j_id = uuid, j_name = [], j_description = []\<rparr>"

record service =
  workers :: "(string, worker) std_map"
  jobs :: "(string, job) std_map"
  os_children :: children

text \<open>What a request meets: the identifier the generator draws and the system's answer to a launch.\<close>

record environment =
  env_uuid :: string
  env_launch :: launch

type_synonym 't reply = "service \<times> (wye_error, 't) outcome"

section \<open>Removing entries\<close>

text \<open>\<open>workers.erase(id)\<close>: the last reference goes, so the destructor runs.\<close>

definition erase_worker :: "string \<Rightarrow> service \<Rightarrow> (wye_error, service) outcome" where
  "erase_worker i s =
     (case map_find (workers s) i of
        None \<Rightarrow> Done s
      | Some w \<Rightarrow>
          (case destroy_process (os_children s) w of
             Done os' \<Rightarrow> Done (s\<lparr>workers := map_erase i (workers s), os_children := os'\<rparr>)
           | Throws e \<Rightarrow> Throws e | Hangs \<Rightarrow> Hangs | Aborts \<Rightarrow> Aborts))"

text \<open>
  The loop of \<open>delete_job\<close>: look for the first worker of the job, erase it, start again until a
  whole pass changes nothing.
\<close>

function erase_job_workers :: "string \<Rightarrow> service \<Rightarrow> (wye_error, service) outcome" where
  "erase_job_workers i s =
     (case List.find (\<lambda>v. w_job_id (snd v) = i) (workers s) of
        None \<Rightarrow> Done s
      | Some v \<Rightarrow>
          (case erase_worker (fst v) s of
             Done s' \<Rightarrow> erase_job_workers i s'
           | Throws e \<Rightarrow> Throws e | Hangs \<Rightarrow> Hangs | Aborts \<Rightarrow> Aborts))"
  by pat_completeness auto

lemma erase_worker_shorter:
  assumes "List.find P (workers s) = Some v" and "erase_worker (fst v) s = Done s'"
  shows "length (workers s') < length (workers s)"
proof -
  from assms(1) have "v \<in> set (workers s)"
    by (metis find_Some_iff nth_mem)
  then have "map_find (workers s) (fst v) \<noteq> None"
    by (auto simp: map_find_None)
  with assms(2) show ?thesis
    by (auto simp: erase_worker_def length_map_erase split: outcome.splits)
qed

termination erase_job_workers
  by (relation "measure (\<lambda>(i, s). length (workers s))") (auto dest: erase_worker_shorter)

declare erase_job_workers.simps [simp del]

section \<open>The operations on workers\<close>

definition quoted :: "string \<Rightarrow> string" where
  "quoted s = [quote_char] @ s @ [quote_char]"

definition model_kind :: "string \<Rightarrow> process_kind option" where
  "model_kind m =
     (if m = ''application'' then Some Application
      else if m = ''executable'' then Some Executable
      else if m = ''python'' then Some Python
      else if m = ''lambda'' then Some Lambda
      else if m = ''lua'' then Some Lua
      else None)"

text \<open>\<open>workers[proc->id] = proc\<close>: a worker that was there under the same key is destroyed.\<close>

definition register_worker :: "worker \<Rightarrow> service \<Rightarrow> (wye_error, service) outcome" where
  "register_worker w s =
     (case map_find (workers s) (w_id w) of
        None \<Rightarrow> Done (s\<lparr>workers := map_assign (w_id w) w (workers s)\<rparr>)
      | Some old \<Rightarrow>
          (case destroy_process (os_children s) old of
             Done os' \<Rightarrow>
               Done (s\<lparr>workers := map_assign (w_id w) w (workers s), os_children := os'\<rparr>)
           | Throws e \<Rightarrow> Throws e | Hangs \<Rightarrow> Hangs | Aborts \<Rightarrow> Aborts))"

text \<open>
  The worker is in the map before \<open>run_process\<close> is called, and the map shares the object: what
  \<open>run_process\<close> wrote to it, thrown or not, is in the map.
\<close>

definition create_worker :: "'t ptree_api \<Rightarrow> environment \<Rightarrow> 't \<Rightarrow> service \<Rightarrow> 't reply" where
  "create_worker A env p s =
     (case pt_get A p ''model'' of
        None \<Rightarrow> (s, Throws (Invalid_request (''Must supply a '' @ quoted ''model'' @ '' value'')))
      | Some model \<Rightarrow>
     (case model_kind model of
        None \<Rightarrow> (s, Throws (Invalid_request (''Worker model '' @ quoted model @ '' not known'')))
      | Some kind \<Rightarrow>
     (case init_process A p (new_worker (env_uuid env) kind) of
        Inl e \<Rightarrow> (s, Throws e)
      | Inr w \<Rightarrow>
     (case register_worker w s of
        Done s1 \<Rightarrow>
          (let (os', w', r) = run_process A (env_launch env) (os_children s1) w;
               s2 = s1\<lparr>workers := map_assign (w_id w) w' (workers s1), os_children := os'\<rparr>
           in (case r of
                 Done t \<Rightarrow> (s2, Done t)
               | Throws e \<Rightarrow> (s2, Throws (Runtime_error (error_what A e)))
               | Hangs \<Rightarrow> (s, Hangs)
               | Aborts \<Rightarrow> (s, Aborts)))
      | Throws e \<Rightarrow> (s, Throws (Runtime_error (error_what A e)))
      | Hangs \<Rightarrow> (s, Hangs)
      | Aborts \<Rightarrow> (s, Aborts)))))"

definition worker_tree :: "'t ptree_api \<Rightarrow> (string \<times> worker) list \<Rightarrow> 't" where
  "worker_tree A ws =
     foldl (\<lambda>t v. pt_add_child A t (fst v) (describe A (snd v) (pt_new A))) (pt_new A) ws"

definition get_workers :: "'t ptree_api \<Rightarrow> 't \<Rightarrow> service \<Rightarrow> 't reply" where
  "get_workers A p s = (s, Done (worker_tree A (workers s)))"

definition delete_worker :: "'t ptree_api \<Rightarrow> 't \<Rightarrow> service \<Rightarrow> 't reply" where
  "delete_worker A p s =
     (case pt_get A p ''id'' of
        None \<Rightarrow> (s, Throws (Invalid_request (''Must supply an '' @ quoted ''id'' @ '' value'')))
      | Some i \<Rightarrow>
          if map_find (workers s) i = None
          then (s, Throws (Invalid_request (''Worker '' @ quoted i @ '' not known.'')))
          else (case erase_worker i s of
                  Done s' \<Rightarrow> (s', Done (pt_new A))
                | Throws e \<Rightarrow> (s, Throws e) | Hangs \<Rightarrow> (s, Hangs) | Aborts \<Rightarrow> (s, Aborts)))"

section \<open>The operations on jobs\<close>

definition create_job :: "'t ptree_api \<Rightarrow> environment \<Rightarrow> 't \<Rightarrow> service \<Rightarrow> 't reply" where
  "create_job A env p s =
     (case pt_get A p ''name'' of
        None \<Rightarrow> (s, Throws (Invalid_request (''Must supply a '' @ quoted ''name'' @ ''.'')))
      | Some name \<Rightarrow>
     (case pt_get A p ''description'' of
        None \<Rightarrow> (s, Throws (Invalid_request (''Must supply a '' @ quoted ''description'' @ ''.'')))
      | Some description \<Rightarrow>
          (let j = new_job (env_uuid env) \<lparr>j_name := name, j_description := description\<rparr>
           in (s\<lparr>jobs := map_assign (j_id j) j (jobs s)\<rparr>,
               Done (pt_put A (pt_new A) ''id'' (j_id j))))))"

definition delete_job :: "'t ptree_api \<Rightarrow> 't \<Rightarrow> service \<Rightarrow> 't reply" where
  "delete_job A p s =
     (case pt_get A p ''id'' of
        None \<Rightarrow> (s, Throws (Invalid_request (''Must supply an '' @ quoted ''id'' @ '' value'')))
      | Some i \<Rightarrow>
          if map_find (jobs s) i = None
          then (s, Throws (Invalid_request (''Job '' @ quoted i @ '' not known.'')))
          else (case erase_job_workers i s of
                  Done s' \<Rightarrow> (s'\<lparr>jobs := map_erase i (jobs s')\<rparr>, Done (pt_new A))
                | Throws e \<Rightarrow> (s, Throws e) | Hangs \<Rightarrow> (s, Hangs) | Aborts \<Rightarrow> (s, Aborts)))"

definition describe_job :: "'t ptree_api \<Rightarrow> job \<Rightarrow> 't" where
  "describe_job A j =
     (let e = pt_new A;
          e = (if j_name j \<noteq> '''' then pt_put A e ''name'' (j_name j) else e)
      in if j_description j \<noteq> '''' then pt_put A e ''description'' (j_description j) else e)"

definition get_jobs :: "'t ptree_api \<Rightarrow> 't \<Rightarrow> service \<Rightarrow> 't reply" where
  "get_jobs A p s =
     (s, Done (foldl (\<lambda>t v. pt_add_child A t (fst v) (describe_job A (snd v))) (pt_new A) (jobs s)))"

definition get_job :: "'t ptree_api \<Rightarrow> 't \<Rightarrow> service \<Rightarrow> 't reply" where
  "get_job A p s =
     (case pt_get A p ''id'' of
        None \<Rightarrow> (s, Throws (Invalid_request (''Must supply an '' @ quoted ''id'' @ '' value'')))
      | Some i \<Rightarrow>
     (case map_find (jobs s) i of
        None \<Rightarrow> (s, Throws (Invalid_request (''Job '' @ quoted i @ '' not known.'')))
      | Some j \<Rightarrow>
          (let w = worker_tree A (filter (\<lambda>v. w_job_id (snd v) = i) (workers s))
           in (s, Done (pt_add_child A (describe_job A j) ''workers'' w)))))"

section \<open>Dispatch, the background thread and shutting down\<close>

definition handle :: "'t ptree_api \<Rightarrow> environment \<Rightarrow> 't \<Rightarrow> service \<Rightarrow> 't reply" where
  "handle A env p s =
     (case pt_get A p ''operation'' of
        None \<Rightarrow> (s, Throws (Invalid_request (''Must supply an '' @ quoted ''operation'' @ '' value'')))
      | Some op \<Rightarrow>
          if op = ''create-worker'' then create_worker A env p s
          else if op = ''get-workers'' then get_workers A p s
          else if op = ''delete-worker'' then delete_worker A p s
          else if op = ''create-job'' then create_job A env p s
          else if op = ''get-job'' then get_job A p s
          else if op = ''get-jobs'' then get_jobs A p s
          else if op = ''delete-job'' then delete_job A p s
          else (s, Throws (Invalid_request (''Operation '' @ quoted op @ '' not recognised.''))))"

text \<open>One pass of \<open>body\<close> in \<open>manager::run\<close>.\<close>

fun poll_workers :: "children \<Rightarrow> (string, worker) std_map \<Rightarrow> (wye_error, children \<times> (string, worker) std_map) outcome" where
  "poll_workers os [] = Done (os, [])"
| "poll_workers os ((k, w) # m) =
     (case is_running os w of
        Done (os', w', _) \<Rightarrow>
          (case poll_workers os' m of
             Done (os'', m') \<Rightarrow> Done (os'', (k, w') # m')
           | Throws e \<Rightarrow> Throws e | Hangs \<Rightarrow> Hangs | Aborts \<Rightarrow> Aborts)
      | Throws e \<Rightarrow> Throws e | Hangs \<Rightarrow> Hangs | Aborts \<Rightarrow> Aborts)"

text \<open>Nothing in the thread catches an exception, so one ends the program.\<close>

definition background_poll :: "service \<Rightarrow> (wye_error, service) outcome" where
  "background_poll s =
     (case poll_workers (os_children s) (workers s) of
        Done (os', m) \<Rightarrow> Done (s\<lparr>workers := m, os_children := os'\<rparr>)
      | Throws e \<Rightarrow> Aborts | Hangs \<Rightarrow> Hangs | Aborts \<Rightarrow> Aborts)"

text \<open>\<open>workers.clear()\<close>: the destructors run one after the other.\<close>

fun release_all :: "('s \<Rightarrow> 'w \<Rightarrow> ('e, 's) outcome) \<Rightarrow> 's \<Rightarrow> 'w list \<Rightarrow> ('e, 's) outcome" where
  "release_all release s [] = Done s"
| "release_all release s (w # ws) =
     (case release s w of
        Done s' \<Rightarrow> release_all release s' ws
      | Throws e \<Rightarrow> Throws e | Hangs \<Rightarrow> Hangs | Aborts \<Rightarrow> Aborts)"

definition stop :: "service \<Rightarrow> (wye_error, service) outcome" where
  "stop s =
     (case release_all destroy_process (os_children s) (map snd (workers s)) of
        Done os' \<Rightarrow> Done (s\<lparr>workers := [], os_children := os'\<rparr>)
      | Throws e \<Rightarrow> Throws e | Hangs \<Rightarrow> Hangs | Aborts \<Rightarrow> Aborts)"

definition initial_service :: "children \<Rightarrow> service" where
  "initial_service os = \<lparr>workers = [], jobs = [], os_children = os\<rparr>"


section \<open>The registry invariant\<close>

definition worker_ok :: "string \<Rightarrow> worker \<Rightarrow> bool" where
  "worker_ok k w \<longleftrightarrow> w_id w = k \<and> (w_state w = STOPPED \<longrightarrow> p_proc w = None)"

definition service_ok :: "service \<Rightarrow> bool" where
  "service_ok s \<longleftrightarrow> map_ok (workers s) \<and> map_ok (jobs s) \<and>
     (\<forall>k w. map_find (workers s) k = Some w \<longrightarrow> worker_ok k w) \<and>
     (\<forall>k j. map_find (jobs s) k = Some j \<longrightarrow> j_id j = k)"

lemma service_ok_update [simp]:
  "service_ok (s\<lparr>os_children := os\<rparr>) \<longleftrightarrow> service_ok s"
  by (simp add: service_ok_def)

lemma service_ok_assign_worker [keeps_registry]:
  "service_ok s \<Longrightarrow> worker_ok k w \<Longrightarrow> service_ok (s\<lparr>workers := map_assign k w (workers s)\<rparr>)"
  by (auto simp: service_ok_def map_find_assign map_ok_assign)

lemma service_ok_erase_worker [keeps_registry]:
  "service_ok s \<Longrightarrow> service_ok (s\<lparr>workers := map_erase k (workers s)\<rparr>)"
  by (auto simp: service_ok_def map_find_erase map_ok_erase split: if_splits)

lemma service_ok_assign_job [keeps_registry]:
  "service_ok s \<Longrightarrow> service_ok (s\<lparr>jobs := map_assign (j_id j) j (jobs s)\<rparr>)"
  by (auto simp: service_ok_def map_find_assign map_ok_assign)

lemma service_ok_erase_job [keeps_registry]:
  "service_ok s \<Longrightarrow> service_ok (s\<lparr>jobs := map_erase k (jobs s)\<rparr>)"
  by (auto simp: service_ok_def map_find_erase map_ok_erase split: if_splits)

lemma service_ok_initial [keeps_registry]: "service_ok (initial_service os)"
  by (simp add: service_ok_def initial_service_def)

lemma erase_worker_Done:
  "erase_worker i s = Done s' \<Longrightarrow> \<exists>os'. s' = s\<lparr>workers := map_erase i (workers s), os_children := os'\<rparr> \<or> s' = s"
  by (auto simp: erase_worker_def split: option.splits outcome.splits)

lemma erase_worker_keeps [keeps_registry]: "service_ok s \<Longrightarrow> erase_worker i s = Done s' \<Longrightarrow> service_ok s'"
  by (auto dest!: erase_worker_Done intro: keeps_registry)

lemma erase_job_workers_keeps [keeps_registry]:
  "service_ok s \<Longrightarrow> erase_job_workers i s = Done s' \<Longrightarrow> service_ok s'"
  by (induction i s rule: erase_job_workers.induct, subst (asm) (2) erase_job_workers.simps)
     (auto split: option.splits outcome.splits dest: erase_worker_keeps)

text \<open>What reading the request and starting the child change of the worker.\<close>

lemma read_common_frame:
  "read_common A p w = Inr w' \<Longrightarrow> w_id w' = w_id w \<and> w_state w' = w_state w \<and> p_kind w' = p_kind w
     \<and> p_proc w' = p_proc w \<and> pt_get A p ''job_id'' = Some (w_job_id w') \<and> w_inputs w' = w_inputs w"
  by (auto simp: read_common_def split: option.splits)

lemma init_process_frame:
  assumes "init_process A p w = Inr w'"
  shows "w_id w' = w_id w \<and> w_state w' = w_state w \<and> p_kind w' = p_kind w \<and> p_proc w' = p_proc w
    \<and> pt_get A p ''job_id'' = Some (w_job_id w') \<and> w_inputs w' = w_inputs w"
  using assms
  by (auto simp: init_process_def application_init_def executable_init_def python_init_def
      lambda_init_def lua_init_def split: process_kind.splits option.splits if_splits
      dest!: read_common_frame)

lemma run_process_frame:
  assumes "run_process A l os w = (os', w', r)"
  shows "w_id w' = w_id w \<and> w_state w' = w_state w \<and> w_job_id w' = w_job_id w"
  using assms
  by (auto simp: run_process_def process_run_process_def application_run_process_def process_run_def
        Let_def split: if_splits launch.splits handshake_end.splits prod.splits)

lemma register_worker_Done:
  "register_worker w s = Done s' \<Longrightarrow> \<exists>os'. s' = s\<lparr>workers := map_assign (w_id w) w (workers s), os_children := os'\<rparr>"
  by (auto simp: register_worker_def split: option.splits outcome.splits)
     (metis service.surjective service.update_convs(3))

lemma map_assign_twice: "map_ok m \<Longrightarrow> map_assign k v (map_assign k w m) = map_assign k v m"
  by (induction k w m rule: map_assign.induct) (auto dest: map_ok_ConsD)

lemma create_worker_keeps [keeps_registry]:
  assumes "service_ok s" shows "service_ok (fst (create_worker A env p s))"
proof -
  have "service_ok (s1\<lparr>workers := map_assign (w_id w) w' (workers s1), os_children := os'\<rparr>)"
    if "init_process A p (new_worker u kind) = Inr w" "register_worker w s = Done s1"
      "run_process A l (os_children s1) w = (os', w', r)" for u kind w s1 l os' w' r
  proof -
    have w: "w_state w = RUNNING"
      using init_process_frame [OF that(1)] by (simp add: new_worker_def)
    then have 1: "service_ok s1"
      using register_worker_Done [OF that(2)] service_ok_assign_worker [OF assms, of "w_id w" w]
      by (auto simp: worker_ok_def simp flip: service.update_convs(3))
    show ?thesis
      using service_ok_assign_worker [OF 1, of "w_id w" w'] run_process_frame [OF that(3)] w
      by (simp add: worker_ok_def)
  qed
  with assms show ?thesis
    by (auto simp: create_worker_def Let_def split: option.splits sum.splits outcome.splits prod.splits)
qed

lemma handle_keeps [keeps_registry]: "service_ok s \<Longrightarrow> service_ok (fst (handle A env p s))"
proof -
  assume ok: "service_ok s"
  have "service_ok (fst (delete_worker A p s))" "service_ok (fst (delete_job A p s))"
    "service_ok (fst (create_job A env p s))"
    using ok service_ok_assign_job [OF ok, of "new_job (env_uuid env) \<lparr>j_name := n, j_description := d\<rparr>" for n d]
    by (auto simp: delete_worker_def delete_job_def create_job_def Let_def
        split: option.splits outcome.splits intro: keeps_registry)
  moreover have "fst (get_job A p s) = s" "fst (get_jobs A p s) = s" "fst (get_workers A p s) = s"
    by (auto simp: get_job_def get_jobs_def get_workers_def Let_def split: option.splits)
  ultimately show ?thesis
    using ok create_worker_keeps [OF ok, of A env p] by (simp add: handle_def split: option.splits)
qed

lemma poll_workers_find:
  assumes "poll_workers os m = Done (os', m')"
  shows "map fst m' = map fst m \<and>
    (\<forall>k w'. map_find m' k = Some w' \<longrightarrow>
       (\<exists>w. map_find m k = Some w \<and> (w' = w \<or> w' = w\<lparr>w_state := STOPPED, p_proc := None\<rparr>)))"
  using assms
proof (induction os m arbitrary: os' m' rule: poll_workers.induct)
  case (2 os k w m)
  then obtain os1 w1 b m1 where 1: "is_running os w = Done (os1, w1, b)"
    "poll_workers os1 m = Done (os', m1)" "m' = (k, w1) # m1"
    by (auto split: outcome.splits)
  have IH: "map fst m1 = map fst m \<and>
    (\<forall>k w'. map_find m1 k = Some w' \<longrightarrow>
       (\<exists>w. map_find m k = Some w \<and> (w' = w \<or> w' = w\<lparr>w_state := STOPPED, p_proc := None\<rparr>)))"
    by (rule "2.IH" [OF 1(1) _ _ 1(2)]) simp_all
  then show ?case
    using is_running_Done [OF 1(1)] 1(3) by simp
qed simp

lemma background_poll_keeps [keeps_registry]:
  assumes "service_ok s" and "background_poll s = Done s'" shows "service_ok s'"
proof -
  from assms(2) obtain os' m where m: "poll_workers (os_children s) (workers s) = Done (os', m)"
    "s' = s\<lparr>workers := m, os_children := os'\<rparr>"
    by (auto simp: background_poll_def split: outcome.splits)
  have "worker_ok k w'" if found: "map_find m k = Some w'" for k w'
  proof -
    obtain w where "map_find (workers s) k = Some w" "w' = w \<or> w' = w\<lparr>w_state := STOPPED, p_proc := None\<rparr>"
      using poll_workers_find [OF m(1)] found by blast
    then show ?thesis
      using assms(1) by (auto simp: service_ok_def worker_ok_def)
  qed
  then show ?thesis
    using assms(1) poll_workers_find [OF m(1)] by (simp add: m(2) service_ok_def map_ok_def)
qed

lemma stop_keeps [keeps_registry]: "service_ok s \<Longrightarrow> stop s = Done s' \<Longrightarrow> service_ok s'"
  by (auto simp: stop_def service_ok_def split: outcome.splits)

section \<open>The service as a step relation\<close>

text \<open>
  Everything that can happen to a running service: a request answered or refused, a pass of the
  background thread, the end of a child, the shutdown. A step exists only where the call returns.
\<close>

inductive service_step :: "'t ptree_api \<Rightarrow> service \<Rightarrow> service \<Rightarrow> bool" for A where
  Answered: "handle A env p s = (s', Done t) \<Longrightarrow> service_step A s s'"
| Refused: "handle A env p s = (s', Throws e) \<Longrightarrow> service_step A s s'"
| Polled: "background_poll s = Done s' \<Longrightarrow> service_step A s s'"
| Child_ended: "service_step A s (s\<lparr>os_children := child_exits pid st (os_children s)\<rparr>)"
| Shut_down: "stop s = Done s' \<Longrightarrow> service_step A s s'"

inductive service_reachable :: "'t ptree_api \<Rightarrow> service \<Rightarrow> bool" for A where
  Start: "service_reachable A (initial_service os)"
| Step: "service_reachable A s \<Longrightarrow> service_step A s s' \<Longrightarrow> service_reachable A s'"

inductive_cases service_stepE: "service_step A s s'"

lemma service_step_keeps: "service_step A s s' \<Longrightarrow> service_ok s \<Longrightarrow> service_ok s'"
  by (erule service_stepE) (auto dest: background_poll_keeps stop_keeps, (metis fst_conv handle_keeps)+)

text \<open>
  In every state the service can reach, from any sequence of requests, background passes and
  ends of children, the two maps are ordered without duplicate keys, every worker and job is
  filed under its own identifier, and a worker marked \<open>STOPPED\<close> holds no child process.
\<close>

theorem service_reachable_ok: "service_reachable A s \<Longrightarrow> service_ok s"
  by (induction rule: service_reachable.induct) (blast intro: service_ok_initial service_step_keeps)+

lemma service_reachable_ok_witness:
  "service_ok (initial_service [7 \<mapsto> Zombie 0]\<lparr>jobs := [(''u'', \<lparr>j_id = ''u'', j_name = ''n'', j_description = ''d''\<rparr>)]\<rparr>)"
proof -
  let ?p = "pt_put tree_api (pt_put tree_api (pt_put tree_api (pt_new tree_api)
              ''operation'' ''create-job'') ''name'' ''n'') ''description'' ''d''"
  let ?env = "\<lparr>env_uuid = ''u'', env_launch = Launch_fails ''''\<rparr>"
  have "handle tree_api ?env ?p (initial_service [7 \<mapsto> Zombie 0]) =
     (initial_service [7 \<mapsto> Zombie 0]\<lparr>jobs := [(''u'', \<lparr>j_id = ''u'', j_name = ''n'', j_description = ''d''\<rparr>)]\<rparr>,
      Done (pt_put tree_api (pt_new tree_api) ''id'' ''u''))"
    by (simp add: handle_def create_job_def ptree_simps tree_api_laws simple_path_def new_job_def initial_service_def)
  then show ?thesis
    by (intro service_reachable_ok [of tree_api]) (rule Step, rule Start, rule Answered)
qed

section \<open>Refused requests\<close>

lemma refused_unchanged: "handle A env p s = (s', Throws (Invalid_request m)) \<Longrightarrow> s' = s"
  by (auto simp: handle_def create_worker_def get_workers_def delete_worker_def create_job_def
      get_job_def get_jobs_def delete_job_def Let_def
      split: option.splits if_splits sum.splits outcome.splits prod.splits)

text \<open>
  A request that is answered as invalid (\<open>std::invalid_request\<close>, HTTP status 400) has not
  changed the service: no worker, no job and no child process is touched.
\<close>

theorem invalid_request_unchanged:
  assumes "handle A env p s = (s', Throws (Invalid_request m))"
  shows "s' = s"
  by (rule refused_unchanged [OF assms])

lemma invalid_request_unchanged_witness:
  "fst (handle tree_api \<lparr>env_uuid = ''u'', env_launch = Launch_fails ''''\<rparr> (pt_new tree_api) (initial_service Map.empty))
   = initial_service Map.empty"
  using invalid_request_unchanged [of tree_api "\<lparr>env_uuid = ''u'', env_launch = Launch_fails ''''\<rparr>"
      "pt_new tree_api" "initial_service Map.empty" "initial_service Map.empty"]
  by (simp add: handle_def ptree_simps tree_api_laws simple_path_def)

section \<open>Deleting\<close>

lemma find_filter_split:
  "List.find P xs = Some x \<Longrightarrow> \<exists>pre post. xs = pre @ x # post \<and> filter P pre = [] \<and> P x"
proof (induction xs)
  case (Cons y xs)
  show ?case
  proof (cases "P y")
    case True
    then show ?thesis
      using Cons.prems by (intro exI [of _ "[]"] exI [of _ xs]) simp
  next
    case False
    then obtain pre post where "xs = pre @ x # post" "filter P pre = []" "P x"
      using Cons by auto
    with False show ?thesis
      by (intro exI [of _ "y # pre"] exI [of _ post]) simp
  qed
qed simp

lemma find_None_filter: "List.find P xs = None \<longleftrightarrow> filter P xs = []"
  by (induction xs) auto

lemma map_erase_middle: "map_ok (pre @ v # post) \<Longrightarrow> map_erase (fst v) (pre @ v # post) = pre @ post"
  by (subst map_erase_filter)
     (force simp: map_ok_def sorted_wrt_append filter_id_conv intro: arg_cong2 [where f = "(@)"])+

lemma map_find_middle: "map_ok (pre @ v # post) \<Longrightarrow> map_find (pre @ v # post) (fst v) = Some (snd v)"
  by (simp add: map_find_mem)

text \<open>
  The loop of \<open>delete_job\<close>, which starts again from the beginning after every erasure,
  does what one pass over the job's workers does: their destructors run in key order, every other
  worker stays; it blocks or ends the program exactly when one of those destructors does.
\<close>

lemma erase_job_workers_one_pass:
  assumes "map_ok (workers s)"
  shows "erase_job_workers i s =
    (case release_all destroy_process (os_children s)
            (map snd (filter (\<lambda>v. w_job_id (snd v) = i) (workers s))) of
       Done os' \<Rightarrow> Done (s\<lparr>workers := filter (\<lambda>v. w_job_id (snd v) \<noteq> i) (workers s), os_children := os'\<rparr>)
     | Throws e \<Rightarrow> Throws e | Hangs \<Rightarrow> Hangs | Aborts \<Rightarrow> Aborts)"
  using assms
proof (induction i s rule: erase_job_workers.induct)
  case (1 i s)
  let ?P = "\<lambda>v. w_job_id (snd v) = i"
  show ?case
  proof (cases "List.find ?P (workers s)")
    case None
    then have "filter ?P (workers s) = []" and "filter (\<lambda>v. \<not> ?P v) (workers s) = workers s"
      by (auto simp: find_None_filter filter_empty_conv filter_id_conv)
    with None show ?thesis
      by (subst erase_job_workers.simps) simp
  next
    case (Some v)
    from find_filter_split [OF this] obtain pre post where
      w: "workers s = pre @ v # post" "filter ?P pre = []" "?P v" by blast
    then have pre: "filter (\<lambda>v. \<not> ?P v) pre = pre"
      by (auto simp: filter_empty_conv filter_id_conv)
    have e: "erase_worker (fst v) s =
      (case destroy_process (os_children s) (snd v) of
         Done os' \<Rightarrow> Done (s\<lparr>workers := pre @ post, os_children := os'\<rparr>)
       | Throws e \<Rightarrow> Throws e | Hangs \<Rightarrow> Hangs | Aborts \<Rightarrow> Aborts)"
      using "1.prems" map_erase_middle [of pre v post] map_find_middle [of pre v post] w(1)
      by (auto simp: erase_worker_def split: outcome.splits)
    show ?thesis
    proof (cases "destroy_process (os_children s) (snd v)")
      case (Done os')
      let ?s = "s\<lparr>workers := pre @ post, os_children := os'\<rparr>"
      have ok: "map_ok (workers ?s)"
        using "1.prems" by (auto simp: w(1) map_ok_def sorted_wrt_append)
      have "erase_job_workers i s = erase_job_workers i ?s"
        using Some e Done by (subst erase_job_workers.simps) simp
      with "1.IH" [OF Some _ ok] e Done show ?thesis
        by (simp add: w pre cong: outcome.case_cong)
    qed (use Some e w pre in \<open>subst erase_job_workers.simps, simp\<close>)+
  qed
qed


section \<open>The interface of objects that own a child process\<close>

text \<open>
  What a container of owning objects relies on when it releases them one after the other: the
  release of an object that can be released returns, it takes exactly the object's own resource
  away, and it does not spoil the release of an object that owns another one.
\<close>

locale releasable =
  fixes release :: "'s \<Rightarrow> 'w \<Rightarrow> ('e, 's) outcome"
    and owned :: "'w \<Rightarrow> 'p option"
    and live :: "'s \<Rightarrow> 'p set"
    and can :: "'s \<Rightarrow> 'w \<Rightarrow> bool"
  assumes release_can: "can s w \<Longrightarrow> \<exists>s'. release s w = Done s'"
    and release_live: "release s w = Done s' \<Longrightarrow> live s' = live s - set_option (owned w)"
    and can_frame: "can s w \<Longrightarrow> release s v = Done s' \<Longrightarrow> owned v = None \<or> owned v \<noteq> owned w \<Longrightarrow> can s' w"
begin

lemma releases_all:
  assumes "\<forall>w \<in> set ws. can s w" and "distinct (List.map_filter owned ws)"
  shows "\<exists>s'. release_all release s ws = Done s' \<and> live s' = live s - set (List.map_filter owned ws)"
  using assms
proof (induction ws arbitrary: s)
  case (Cons w ws)
  from Cons.prems obtain s1 where s1: "release s w = Done s1"
    using release_can [of s w] by auto
  have "can s1 v" if v: "v \<in> set ws" for v
  proof -
    have "owned w \<noteq> owned v" if "owned w = Some p" for p
      using Cons.prems(2) v that
      by (auto simp: List.map_filter_def image_iff) (metis option.distinct(1) option.sel)
    then have "owned w = None \<or> owned w \<noteq> owned v"
      by (cases "owned w") auto
    moreover have "can s v"
      using Cons.prems(1) v by simp
    ultimately show ?thesis
      using can_frame [OF _ s1] by blast
  qed
  moreover have "distinct (List.map_filter owned ws)"
    using Cons.prems(2) by (auto simp: List.map_filter_simps split: option.splits)
  ultimately obtain s' where "release_all release s1 ws = Done s'"
    "live s' = live s1 - set (List.map_filter owned ws)"
    using Cons.IH [of s1] by blast
  with s1 release_live [OF s1] show ?case
    by (auto simp: List.map_filter_simps split: option.splits)
qed (simp add: List.map_filter_simps)

end

interpretation destructor: releasable destroy_process p_proc dom killable
proof
  show "\<exists>s'. destroy_process s w = Done s'" if "killable s w" for s w
    using that by (simp add: destroy_process_killable)
  show "dom s' = dom s - set_option (p_proc w)" if "destroy_process s w = Done s'" for s w s'
    using destroy_process_Done [OF that] by (auto split: option.splits if_splits)
  show "killable s' w" if "killable s w" "destroy_process s v = Done s'"
    "p_proc v = None \<or> p_proc v \<noteq> p_proc w" for s w v s'
    using that destroy_process_Done [OF that(2)] by (auto simp: killable_def split: option.splits)
qed

text \<open>
  C37: when every worker of a job can be killed (its child is in the process table and does not
  ignore \<open>SIGTERM\<close>) and no two share a process, \<open>delete_job\<close> succeeds: afterwards the job and
  exactly its workers are gone, every other worker and job is as before, and of the children
  exactly those of the deleted workers have left the process table.
\<close>

theorem delete_job_succeeds:
  assumes "service_ok s" and "pt_get A p ''id'' = Some i" and "map_find (jobs s) i = Some j"
    and "\<forall>v \<in> set (workers s). w_job_id (snd v) = i \<longrightarrow> killable (os_children s) (snd v)"
    and "distinct (List.map_filter (p_proc \<circ> snd) (filter (\<lambda>v. w_job_id (snd v) = i) (workers s)))"
  shows "\<exists>s'. delete_job A p s = (s', Done (pt_new A))
    \<and> workers s' = filter (\<lambda>v. w_job_id (snd v) \<noteq> i) (workers s)
    \<and> map_find (jobs s') = (map_find (jobs s))(i := None)
    \<and> dom (os_children s') = dom (os_children s)
        - set (List.map_filter (p_proc \<circ> snd) (filter (\<lambda>v. w_job_id (snd v) = i) (workers s)))"
proof -
  let ?ws = "filter (\<lambda>v. w_job_id (snd v) = i) (workers s)"
  have ok: "map_ok (workers s)" "map_ok (jobs s)"
    using assms(1) by (simp_all add: service_ok_def)
  have owned: "List.map_filter p_proc (map snd ?ws) = List.map_filter (p_proc \<circ> snd) ?ws"
    by (simp add: List.map_filter_def filter_map comp_def)
  have "\<exists>os'. release_all destroy_process (os_children s) (map snd ?ws) = Done os' \<and>
      dom os' = dom (os_children s) - set (List.map_filter p_proc (map snd ?ws))"
    using assms(4,5) by (intro destructor.releases_all) (auto simp: owned)
  then show ?thesis
    using assms(2,3) ok
    by (auto simp: delete_job_def erase_job_workers_one_pass owned registry.find_erase)
qed

section \<open>Jobs and what is filed under them\<close>

text \<open>
  A job that was created is found again: \<open>create-job\<close> answers the new identifier and
  \<open>get-job\<close> with that identifier answers the name, the description and one entry for each worker
  of that job, in the order of the identifiers.
\<close>

theorem create_job_get_job:
  assumes "ptree_laws A" and "service_ok s"
    and "pt_get A p ''name'' = Some n" and "pt_get A p ''description'' = Some d"
    and "n \<noteq> ''''" and "d \<noteq> ''''"
    and "create_job A env p s = (s', Done r)"
    and "pt_get A q ''id'' = pt_get A r ''id''"
    and "get_job A q s' = (s'', Done t)"
  shows "pt_get A r ''id'' = Some (env_uuid env)
    \<and> s'' = s' \<and> pt_get A t ''name'' = Some n \<and> pt_get A t ''description'' = Some d
    \<and> pt_get_child A t ''workers''
        = Some (worker_tree A (filter (\<lambda>v. w_job_id (snd v) = env_uuid env) (workers s)))"
proof -
  let ?j = "\<lparr>j_id = env_uuid env, j_name = n, j_description = d\<rparr>"
  have c: "s' = s\<lparr>jobs := map_assign (env_uuid env) ?j (jobs s)\<rparr>" "r = pt_put A (pt_new A) ''id'' (env_uuid env)"
    using assms(3,4,7) by (auto simp: create_job_def new_job_def Let_def)
  have "map_find (jobs s') (env_uuid env) = Some ?j"
    using assms(2) by (simp add: c(1) registry.find_assign service_ok_def)
  moreover have r: "pt_get A r ''id'' = Some (env_uuid env)"
    using assms(1) by (simp add: c(2) ptree_simps simple_path_def)
  moreover have "''workers'' \<notin> fst ` set (pt_children A (describe_job A ?j))"
    using assms(1) by (simp add: describe_job_def ptree_keys_put ptree_children_new simple_path_def Let_def)
  ultimately show ?thesis
    using assms(1,5,6,8,9) c(1)
    by (auto simp: get_job_def Let_def describe_job_def ptree_simps ptree_get_child_add_child simple_path_def)
qed

lemma create_job_get_job_witness:
  "pt_get tree_api (pt_put tree_api (pt_new tree_api) ''id'' ''u1'') ''id'' = Some ''u1''"
proof -
  let ?A = tree_api
  let ?env = "\<lparr>env_uuid = ''u1'', env_launch = Launch_fails ''''\<rparr>"
  let ?p = "pt_put ?A (pt_put ?A (pt_new ?A) ''name'' ''n'') ''description'' ''d''"
  let ?r = "pt_put ?A (pt_new ?A) ''id'' ''u1''"
  let ?s = "initial_service Map.empty"
  let ?s' = "?s\<lparr>jobs := [(''u1'', \<lparr>j_id = ''u1'', j_name = ''n'', j_description = ''d''\<rparr>)]\<rparr>"
  have "create_job ?A ?env ?p ?s = (?s', Done ?r)"
    by (simp add: create_job_def ptree_simps tree_api_laws simple_path_def new_job_def initial_service_def)
  moreover have "\<exists>t. get_job ?A ?r ?s' = (?s', Done t)"
    by (simp add: get_job_def ptree_simps tree_api_laws simple_path_def)
  ultimately show ?thesis
    using create_job_get_job [of ?A ?s ?p "''n''" "''d''" ?env ?s' ?r ?r ?s'] service_ok_initial
    by (auto simp: tree_api_laws ptree_simps simple_path_def)
qed

lemma delete_job_succeeds_witness:
  "\<exists>s'. delete_job tree_api (pt_put tree_api (pt_new tree_api) ''id'' ''j'')
      \<lparr>workers = [(''a'', new_worker ''a'' Lua\<lparr>w_job_id := ''j'', p_proc := Some 7\<rparr>), (''b'', new_worker ''b'' Lua)],
       jobs = [(''j'', new_job ''j'')], os_children = [7 \<mapsto> Running False]\<rparr> = (s', Done (pt_new tree_api))
    \<and> workers s' = [(''b'', new_worker ''b'' Lua)]"
proof -
  let ?a = "new_worker ''a'' Lua\<lparr>w_job_id := ''j'', p_proc := Some 7\<rparr>"
  let ?b = "new_worker ''b'' Lua"
  let ?s = "\<lparr>workers = [(''a'', ?a), (''b'', ?b)], jobs = [(''j'', new_job ''j'')],
             os_children = [7 \<mapsto> Running False]\<rparr>"
  have f: "filter (\<lambda>v. w_job_id (snd v) = ''j'') (workers ?s) = [(''a'', ?a)]"
    "filter (\<lambda>v. w_job_id (snd v) \<noteq> ''j'') (workers ?s) = [(''b'', ?b)]"
    by (simp_all add: new_worker_def)
  have 1: "service_ok ?s"
    by (simp add: service_ok_def map_ok_def worker_ok_def new_worker_def new_job_def)
  have 2: "pt_get tree_api (pt_put tree_api (pt_new tree_api) ''id'' ''j'') ''id'' = Some ''j''"
    by (simp add: ptree_simps tree_api_laws simple_path_def)
  have 3: "map_find (jobs ?s) ''j'' = Some (new_job ''j'')"
    by simp
  have 4: "\<forall>v \<in> set (workers ?s). w_job_id (snd v) = ''j'' \<longrightarrow> killable (os_children ?s) (snd v)"
    by (simp add: killable_def new_worker_def)
  have 5: "distinct (List.map_filter (p_proc \<circ> snd) (filter (\<lambda>v. w_job_id (snd v) = ''j'') (workers ?s)))"
    unfolding f by (simp add: List.map_filter_simps)
  show ?thesis
    using delete_job_succeeds [OF 1 2 3 4 5] unfolding f by blast
qed

text \<open>
  \<open>get-workers\<close> answers one entry for each registered worker, in the order of the
  identifiers, each the worker's own description, and changes nothing.
\<close>

theorem get_workers_lists:
  assumes "ptree_laws A" and "\<forall>v \<in> set (workers s). simple_path (fst v)"
  shows "\<exists>t. get_workers A p s = (s, Done t)
    \<and> pt_children A t = map (\<lambda>v. (fst v, describe A (snd v) (pt_new A))) (workers s)"
  using assms by (simp add: get_workers_def worker_tree_def children_fold_add_child ptree_children_new)

lemma get_workers_lists_witness:
  "\<exists>t. get_workers tree_api (pt_new tree_api) \<lparr>workers = [(''a'', new_worker ''a'' Lua)], jobs = [], os_children = Map.empty\<rparr>
      = (\<lparr>workers = [(''a'', new_worker ''a'' Lua)], jobs = [], os_children = Map.empty\<rparr>, Done t)
    \<and> pt_children tree_api t = [(''a'', describe tree_api (new_worker ''a'' Lua) (pt_new tree_api))]"
  using get_workers_lists [of tree_api "\<lparr>workers = [(''a'', new_worker ''a'' Lua)], jobs = [], os_children = Map.empty\<rparr>"]
  by (auto simp: tree_api_laws simple_path_def)

section \<open>Starting a worker, and what is left when it fails\<close>

lemma map_ok_find_assign: "map_ok m \<Longrightarrow> map_find (map_assign k v m) k = Some v"
  by (simp add: registry.find_assign)

lemma started_reply_id:
  assumes "ptree_laws A" shows "pt_get A (started_reply A w) ''id'' = Some (w_id w)"
  using assms by (simp add: started_reply_def Let_def ptree_simps simple_path_def)

lemma run_process_Done:
  assumes "run_process A l os w = (os', w', Done t)"
  shows "\<exists>pid ignores written closed. l = Launched pid ignores written closed
    \<and> os' = os(pid \<mapsto> Running ignores) \<and> p_proc w' = Some pid \<and> t = started_reply A w'
    \<and> (p_kind w = Application \<or> handshake written closed (w_inputs w) = (w_inputs w', Loop_left False))"
  using assms
  by (auto simp: run_process_def process_run_process_def application_run_process_def process_run_def
        Let_def split: if_splits launch.splits handshake_end.splits prod.splits)



text \<open>Every poll of a registry that contains a \<open>RUNNING\<close> worker without a process throws.\<close>

lemma poll_workers_lost:
  assumes "(k, w) \<in> set m" and "w_state w = RUNNING" and "p_proc w = None"
  shows "\<exists>e. poll_workers os m = Throws e"
  using assms(1)
proof (induction os m rule: poll_workers.induct)
  case (2 os l v m)
  show ?case
  proof (cases "is_running os v")
    case (Done x)
    then have "v \<noteq> w"
      using assms(2,3) is_running_Throws [of os w] by auto
    with "2.prems" have "(k, w) \<in> set m"
      by auto
    moreover obtain os1 v1 b where x: "x = (os1, v1, b)"
      by (cases x) auto
    ultimately obtain e where "poll_workers os1 m = Throws e"
      using "2.IH" Done by blast
    with Done x show ?thesis
      by simp
  qed auto
qed simp



text \<open>
  A worker whose hand-shake fails (it wrote \<open>ERROR:...\<close>, an unknown line, or closed descriptor 3
  before \<open>RUNNING\<close>) is answered with an error, yet it stays in the registry as \<open>RUNNING\<close>, and its
  child goes on running.
\<close>

theorem failed_handshake_keeps_child:
  assumes "service_ok s" and "pt_get A p ''operation'' = Some ''create-worker''"
    and "pt_get A p ''model'' = Some m" and "model_kind m = Some kind" and "kind \<noteq> Application"
    and "init_process A p (new_worker (env_uuid env) kind) = Inr w"
    and "map_find (workers s) (env_uuid env) = None"
    and "env_launch env = Launched pid ignores written closed"
    and "handshake written closed [] = (ins, e)" and "e = Loop_left True \<or> e = Loop_throws err"
  shows "\<exists>s' msg. handle A env p s = (s', Throws (Runtime_error msg))
    \<and> map_find (workers s') (env_uuid env) = Some (w\<lparr>p_proc := Some pid, w_inputs := ins\<rparr>)
    \<and> w_state w = RUNNING \<and> os_children s' pid = Some (Running ignores)"
proof -
  have w: "w_id w = env_uuid env" "w_state w = RUNNING" "w_inputs w = []" "p_kind w \<noteq> Application"
    using init_process_frame [OF assms(6)] assms(5) by (simp_all add: new_worker_def)
  have ok: "map_ok (workers s)"
    using assms(1) by (simp add: service_ok_def)
  let ?w' = "w\<lparr>p_proc := Some pid, w_inputs := ins\<rparr>"
  let ?os = "(os_children s)(pid \<mapsto> Running ignores)"
  have "\<exists>err'. run_process A (env_launch env) (os_children s) w = (?os, ?w', Throws err')"
    using assms(8,9,10) w(3,4) by (auto simp: run_process_def process_run_process_def process_run_def Let_def)
  then obtain err' where run: "run_process A (env_launch env) (os_children s) w = (?os, ?w', Throws err')" ..
  have "handle A env p s = (s\<lparr>workers := map_assign (env_uuid env) ?w' (workers s), os_children := ?os\<rparr>,
      Throws (Runtime_error (error_what A err')))"
    using assms(2,3,4,6,7) ok w(1) run
    by (simp add: handle_def create_worker_def register_worker_def map_assign_twice)
  then show ?thesis
    using ok w(2) by (simp add: map_ok_find_assign)
qed

text \<open>The background pass, seen from one worker that shares its child with no other.\<close>

lemma is_running_other:
  "is_running os w = Done (os', w', b) \<Longrightarrow> p_proc w \<noteq> Some pid \<Longrightarrow> os' pid = os pid"
  by (auto simp: is_running_def waitpid_nohang_def Let_def
      split: option.splits if_splits child_status.splits)

lemma poll_workers_other:
  assumes "poll_workers os m = Done (os', m')" and "\<forall>v \<in> set m. p_proc (snd v) \<noteq> Some pid"
  shows "os' pid = os pid"
  using assms
proof (induction os m arbitrary: os' m' rule: poll_workers.induct)
  case (2 os k w m)
  from "2.prems" obtain os1 w1 b m1 where 1: "is_running os w = Done (os1, w1, b)"
    "poll_workers os1 m = Done (os', m1)"
    by (auto split: outcome.splits)
  moreover have "os' pid = os1 pid"
    using 1 "2.prems"(2) by (intro "2.IH") auto
  ultimately show ?case
    using is_running_other "2.prems"(2) by auto
qed simp

lemma poll_workers_reaps:
  assumes "poll_workers os m = Done (os', m')"
    and "map_find m i = Some w" and "w_state w = RUNNING" and "p_proc w = Some pid"
    and "os pid = Some (Zombie st)" and "\<forall>v \<in> set m. p_proc (snd v) = Some pid \<longrightarrow> fst v = i" and "map_ok m"
  shows "os' pid = None \<and> map_find m' i = Some w"
  using assms
proof (induction os m arbitrary: os' m' rule: poll_workers.induct)
  case (2 os k v m)
  from "2.prems"(1) obtain os1 v1 b m1 where 1: "is_running os v = Done (os1, v1, b)"
    "poll_workers os1 m = Done (os', m1)" "m' = (k, v1) # m1"
    by (auto split: outcome.splits)
  show ?case
  proof (cases "k = i")
    case True
    then have v: "v = w"
      using "2.prems"(2) by simp
    then have 2: "os1 = os(pid := None)" "v1 = w"
      using is_running_reaps [OF "2.prems"(3,4)] "2.prems"(5) 1(1) by simp_all
    have "\<forall>u \<in> set m. p_proc (snd u) \<noteq> Some pid"
      using map_ok_ConsD [OF "2.prems"(7)] "2.prems"(6) True by force
    from poll_workers_other [OF 1(2) this] 2 1(3) True show ?thesis
      by simp
  next
    case False
    then have "p_proc v \<noteq> Some pid"
      using "2.prems"(6) by auto
    then have "os1 pid = Some (Zombie st)"
      using is_running_other [OF 1(1)] "2.prems"(5) by simp
    then have "os' pid = None \<and> map_find m1 i = Some w"
      using False "2.prems" map_ok_ConsD [OF "2.prems"(7)] by (intro "2.IH" [OF 1(1) _ _ 1(2)]) auto
    with False 1(3) show ?thesis
      by simp
  qed
qed simp

text \<open>
  Between the pass of the background thread that reaps an exited child and the pass that notices
  it, a \<open>delete-worker\<close> request for that worker ends the whole service: the destructor signals a
  process that is gone, and its exception leaves the destructor.
\<close>

theorem delete_after_reap_aborts:
  assumes "service_ok s" and "map_find (workers s) i = Some w"
    and "w_state w = RUNNING" and "p_proc w = Some pid" and "os_children s pid = Some (Zombie st)"
    and "\<forall>v \<in> set (workers s). p_proc (snd v) = Some pid \<longrightarrow> fst v = i"
    and "background_poll s = Done s'" and "pt_get A p ''id'' = Some i"
  shows "snd (delete_worker A p s') = Aborts"
proof -
  from assms(7) obtain os' m where "poll_workers (os_children s) (workers s) = Done (os', m)"
    "s' = s\<lparr>workers := m, os_children := os'\<rparr>"
    by (auto simp: background_poll_def split: outcome.splits)
  moreover have "map_ok (workers s)"
    using assms(1) by (simp add: service_ok_def)
  ultimately have "os' pid = None \<and> map_find m i = Some w" and "s' = s\<lparr>workers := m, os_children := os'\<rparr>"
    using poll_workers_reaps [of "os_children s" "workers s" _ _ i w pid st] assms(2-6) by blast+
  then show ?thesis
    using assms(4,8) by (simp add: delete_worker_def erase_worker_def destroy_process_simps)
qed

lemma delete_after_reap_aborts_witness:
  "\<exists>s'. background_poll \<lparr>workers = [(''a'', new_worker ''a'' Lua\<lparr>p_proc := Some 7\<rparr>)], jobs = [],
       os_children = [7 \<mapsto> Zombie 0]\<rparr> = Done s'
    \<and> snd (delete_worker tree_api (pt_put tree_api (pt_new tree_api) ''id'' ''a'') s') = Aborts"
proof -
  let ?w = "new_worker ''a'' Lua\<lparr>p_proc := Some 7\<rparr>"
  let ?s = "\<lparr>workers = [(''a'', ?w)], jobs = [], os_children = [7 \<mapsto> Zombie 0]\<rparr>"
  have 1: "service_ok ?s"
    by (simp add: service_ok_def map_ok_def worker_ok_def new_worker_def)
  obtain s' where 2: "background_poll ?s = Done s'"
    by (simp add: background_poll_def is_running_def new_worker_def)
  have "snd (delete_worker tree_api (pt_put tree_api (pt_new tree_api) ''id'' ''a'') s') = Aborts"
    by (rule delete_after_reap_aborts [OF 1 _ _ _ _ _ 2, of "''a''" ?w 7 0])
       (simp_all add: new_worker_def ptree_simps tree_api_laws simple_path_def)
  with 2 show ?thesis
    by blast
qed

lemma failed_handshake_keeps_child_witness:
  "\<exists>s' w. os_children (s' :: service) 9 = Some (Running False) \<and> map_find (workers s') ''u1'' = Some w
     \<and> p_proc w = Some 9"
proof -
  let ?A = tree_api
  let ?env = "\<lparr>env_uuid = ''u1'', env_launch = Launched 9 False ''oops'' True\<rparr>"
  let ?p = "pt_put ?A (pt_put ?A (pt_put ?A (pt_put ?A (pt_new ?A) ''operation'' ''create-worker'')
             ''model'' ''lua'') ''file'' ''f'') ''job_id'' ''j''"
  have g: "pt_get ?A ?p ''operation'' = Some ''create-worker''" "pt_get ?A ?p ''model'' = Some ''lua''"
    "pt_get ?A ?p ''file'' = Some ''f''" "pt_get ?A ?p ''job_id'' = Some ''j''"
    by (simp_all add: ptree_simps tree_api_laws simple_path_def)
  then obtain w where w: "init_process ?A ?p (new_worker (env_uuid ?env) Lua) = Inr w"
    by (simp add: init_process_def new_worker_def lua_init_def read_common_def)
  have h: "handshake ''oops'' True [] = ([], Loop_throws (Runtime_error ''Bad return string: oops''))"
    by (subst handshake.simps) (simp add: getline_def handshake_line_def)
  have m: "model_kind ''lua'' = Some Lua" and n: "map_find (workers (initial_service Map.empty)) (env_uuid ?env) = None"
    by (simp_all add: model_kind_def initial_service_def)
  have e: "env_launch ?env = Launched 9 False ''oops'' True"
    by simp
  from failed_handshake_keeps_child [OF service_ok_initial g(1,2) m _ w n e h] show ?thesis
    by auto
qed

end
