(* ===== verification/Connection.thy ===== *)
theory Connection
  imports SocketProperties Manager
begin

text \<open>
  The coroutine that serves one connection, \<open>src/connection.C\<close>: it reads a request through the socket, hands the
  JSON of its body to the manager and writes the reply. The channel is a list of what its reads return, one
  after the other: an error code and bytes. The JSON parser and printer of Boost, which are not part of the
  repository, are parameters, and so are the code of \<open>asio::error::eof\<close> and the results of the two writes.
\<close>

section \<open>The coroutine\<close>

type_synonym arrivals = "(error_code \<times> bytes) list"

record 't connection_env =
  ce_iequals :: "bytes \<Rightarrow> bytes \<Rightarrow> bool"
  ce_eof :: nat
  ce_continued :: error_code
  ce_replied :: error_code
  ce_read_json :: "bytes \<Rightarrow> 't option"
  ce_write_json :: "'t \<Rightarrow> bytes option"
  ce_api :: "'t ptree_api"
  ce_manager :: environment

text \<open>
  How the coroutine ends: with a response, silently because the client closed the connection, with the error
  code or another exception that leaves it, because the socket was not open, or not at all (the channel has
  nothing more, the manager blocks); the last three are the program's end, undefined behaviour, and a loop that
  does not end.
\<close>

datatype connection_end =
    Responded nat | Client_left | Throws_code error_code | Throws_exception | Not_open
  | Waiting | Blocked | Program_aborts | Undefined_here | Spinning

record connection_result =
  cr_end :: connection_end
  cr_sent :: "bytes list"
  cr_socket :: http_socket
  cr_service :: service

text \<open>\<open>catch (system::system_error &)\<close>\<close>

definition failed :: "'t connection_env \<Rightarrow> error_code \<Rightarrow> connection_end" where
  "failed E ec = (if ec = Channel_error (ce_eof E) then Client_left else Throws_code ec)"

text \<open>A read that waits goes on with what the next read of the channel returns, cut to the room in the array.\<close>

type_synonym read_state_of = "http_socket \<times> bytes option \<times> bytes option \<times> message \<times> read_outcome"

fun await_read :: "(bytes \<Rightarrow> bytes \<Rightarrow> bool) \<Rightarrow> target \<Rightarrow> read_state_of \<Rightarrow> arrivals \<Rightarrow> read_state_of \<times> arrivals" where
  "await_read ieq t (s, method, path, m, out) [] = ((s, method, path, m, out), [])"
| "await_read ieq t (s, method, path, m, out) ((ec, input) # es) =
     (if out = Wait then
        await_read ieq t (on_async_read_message ieq t ec (take (so_capacity s - length (so_buf s)) input) s method path m) es
      else ((s, method, path, m, out), (ec, input) # es))"

text \<open>What an outcome means to the coroutine; \<open>None\<close>: it goes on.\<close>

definition read_ends :: "'t connection_env \<Rightarrow> read_outcome \<Rightarrow> connection_end option" where
  "read_ends E out =
     (case out of
        Complete ec \<Rightarrow> (if ec = No_error then None else Some (failed E ec))
      | Wait \<Rightarrow> Some Waiting
      | Undefined_behaviour \<Rightarrow> Some Undefined_here
      | No_fuel \<Rightarrow> Some Spinning)"

text \<open>The \<open>while\<close> loop over the state of the socket.\<close>

fun body_loop ::
  "'t connection_env \<Rightarrow> nat \<Rightarrow> http_socket \<Rightarrow> message \<Rightarrow> arrivals \<Rightarrow> connection_end option \<times> http_socket \<times> message" where
  "body_loop E 0 s m es = (Some Spinning, s, m)"
| "body_loop E (Suc n) s m es =
     (if so_istate s = Read_empty then (None, s, m)
      else if so_istate s = Message_ready then
        (case await_read (ce_iequals E) DATA (async_read_some (ce_iequals E) s m) es of
           ((s, _, _, m, out), es) \<Rightarrow>
             (case read_ends E out of None \<Rightarrow> body_loop E n s m es | Some e \<Rightarrow> (Some e, s, m)))
      else if so_istate s = Body_ready then
        (case await_read (ce_iequals E) END (async_read_trailers (ce_iequals E) s m) es of
           ((s, _, _, m, out), es) \<Rightarrow>
             (case read_ends E out of None \<Rightarrow> body_loop E n s m es | Some e \<Rightarrow> (Some e, s, m)))
      else body_loop E n s m es)"

definition arriving :: "arrivals \<Rightarrow> nat" where
  "arriving es = sum_list (map (length \<circ> snd) es)"

definition body_fuel :: "http_socket \<Rightarrow> arrivals \<Rightarrow> nat" where
  "body_fuel s es = length (so_buf s) + arriving es + 2"

text \<open>A reply is written, and the coroutine returns.\<close>

definition reply_with ::
  "'t connection_env \<Rightarrow> nat \<Rightarrow> string \<Rightarrow> bytes \<Rightarrow> http_socket \<Rightarrow> service \<Rightarrow> connection_result" where
  "reply_with E status reason body s svc =
     (case async_write_response (ce_iequals E) status (asc reason) (empty_message\<lparr>msg_body := body\<rparr>) s of
        (s, Posted ec) \<Rightarrow>
          \<lparr>cr_end = (if ec = No_error then Responded status else failed E ec), cr_sent = [], cr_socket = s, cr_service = svc\<rparr>
      | (s, Sent b) \<Rightarrow>
          \<lparr>cr_end = (if ce_replied E = No_error then Responded status else failed E (ce_replied E)), cr_sent = [b],
           cr_socket = on_response_written s, cr_service = svc\<rparr>)"

text \<open>The request is complete: \<open>read_json\<close>, \<open>manager::handle\<close>, \<open>write_json\<close>.\<close>

definition answer :: "'t connection_env \<Rightarrow> message \<Rightarrow> http_socket \<Rightarrow> service \<Rightarrow> connection_result" where
  "answer E m s svc =
     (let stuck = (\<lambda>e svc. \<lparr>cr_end = e, cr_sent = [], cr_socket = s, cr_service = svc\<rparr>)
      in case ce_read_json E (msg_body m) of
           None \<Rightarrow> reply_with E 400 ''Bad Request'' (asc ''Your client sent a message this server could not interpret.'') s svc
         | Some pt \<Rightarrow>
             (case handle (ce_api E) (ce_manager E) pt svc of
                (svc, Done t) \<Rightarrow>
                  (case ce_write_json E t of
                     None \<Rightarrow> stuck Throws_exception svc
                   | Some repbody \<Rightarrow> reply_with E 200 ''OK'' repbody s svc)
              | (svc, Throws (Invalid_request what)) \<Rightarrow> reply_with E 400 ''Bad Request'' (asc what) s svc
              | (svc, Throws e) \<Rightarrow> reply_with E 500 ''Internal Server Error'' (asc (error_what (ce_api E) e)) s svc
              | (svc, Hangs) \<Rightarrow> stuck Blocked svc
              | (svc, Aborts) \<Rightarrow> stuck Program_aborts svc))"

definition prepend_sent :: "bytes list \<Rightarrow> connection_result \<Rightarrow> connection_result" where
  "prepend_sent bs r = r\<lparr>cr_sent := bs @ cr_sent r\<rparr>"

text \<open>\<open>100 Continue\<close>, when the request asks for it: the error of the write or \<open>None\<close>, and what was sent.\<close>

definition continue_if_required :: "'t connection_env \<Rightarrow> message \<Rightarrow> http_socket \<Rightarrow> http_socket \<times> error_code \<times> bytes list" where
  "continue_if_required E m s =
     (if request_continue_required (ce_iequals E) (msg_headers m) then
        (case async_write_response_continue s of
           (s, Posted ec) \<Rightarrow> (s, ec, [])
         | (s, Sent b) \<Rightarrow> (s, ce_continued E, [b]))
      else (s, No_error, []))"

text \<open>The reading of one request with its body and trailers, and what was sent on the way.\<close>

definition read_message ::
  "'t connection_env \<Rightarrow> http_socket \<Rightarrow> bytes \<Rightarrow> bytes \<Rightarrow> message \<Rightarrow> arrivals \<Rightarrow>
     connection_end option \<times> bytes list \<times> http_socket \<times> message" where
  "read_message E s method path m es =
     (case await_read (ce_iequals E) READY (async_read_request (ce_iequals E) s method path m) es of
        ((s, _, _, m, out), es) \<Rightarrow>
          (case read_ends E out of
             Some e \<Rightarrow> (Some e, [], s, m)
           | None \<Rightarrow>
               (case continue_if_required E m s of
                  (s, ec, sent) \<Rightarrow>
                    if ec \<noteq> No_error then (Some (failed E ec), sent, s, m)
                    else case body_loop E (body_fuel s es) s m es of (e, s, m) \<Rightarrow> (e, sent, s, m))))"

text \<open>
  \<open>operator()\<close>. Every path through the body of its outer loop returns or throws, so the body is run at most once.
\<close>

definition serve ::
  "'t connection_env \<Rightarrow> http_socket \<Rightarrow> bytes \<Rightarrow> bytes \<Rightarrow> message \<Rightarrow> arrivals \<Rightarrow> service \<Rightarrow> connection_result" where
  "serve E s method path m es svc =
     (if \<not> is_open s then \<lparr>cr_end = Not_open, cr_sent = [], cr_socket = s, cr_service = svc\<rparr>
      else case read_message E s method path m es of
        (Some e, sent, s, m) \<Rightarrow> \<lparr>cr_end = e, cr_sent = sent, cr_socket = s, cr_service = svc\<rparr>
      | (None, sent, s, m) \<Rightarrow> prepend_sent sent (answer E m s svc))"

end
