(* ===== verification/ConnectionProperties.thy ===== *)
theory ConnectionProperties
  imports Connection
begin

text \<open>
  What holds of a connection: reading a request never spins or does anything undefined, the client gets the
  status of what the manager did, and the error paths that leave the coroutine.
\<close>

section \<open>Progress of the reading loop\<close>

lemma request_next_body_chunk:
  assumes "request_ok r" and "request_next ieq r = Some r'" and "r_state r \<noteq> ERRORED" and "r_code r' = Body_chunk"
  shows "0 < r_tok r'"
proof -
  consider (body) "r_state r = EXPECT_END_OF_BODY" | (message) "r_state r = EXPECT_END_OF_MESSAGE" | (wait) "r' = advance r"
    | (step) a where "request_handler ieq a = Ret r'" "request_ready a"
    using request_next_case [OF assms(1,2)] assms(3) by auto
  then show ?thesis
  proof cases
    case (step a)
    have "r_state a \<in> {EXPECT_BODY, EXPECT_CHUNK_DATA}"
      using request_handler_codes [OF step(2,1)] assms(4)
      by (cases "r_state a") (auto simp: request_case_codes_def)
    moreover from this have "r_body_size a \<noteq> 0" "r_idx a < length (r_buf a)"
      using step(2) by (auto simp: request_ready_def request_ok_def)
    ultimately show ?thesis
      using step(1) body_data_simps(5) [of a] by (auto simp: request_handler_def)
  qed (use assms(2,4) in \<open>auto simp: request_next_early\<close>)
qed

lemma on_token_progress:
  "on_token ieq (s, f) = Some (s1, f1) \<Longrightarrow> fr_nparsed f1 = fr_nparsed f \<and> r_tok (so_parser s1) = r_tok (so_parser s)
     \<and> (DATA \<in> fr_flags f1 \<longrightarrow> DATA \<in> fr_flags f \<or> r_code (so_parser s) = Body_chunk)"
  by (auto simp: on_token_def Let_def on_field_name_def on_field_value_def on_end_of_headers_def set_window_def
      split: token_code.splits if_splits option.splits)

text \<open>The loop goes forward, and by at least one byte when it delivers a piece of the body.\<close>

definition advances :: "read_frame \<Rightarrow> read_frame \<Rightarrow> bool" where
  "advances f f' \<longleftrightarrow> fr_nparsed f \<le> fr_nparsed f' \<and> (DATA \<in> fr_flags f' \<longrightarrow> DATA \<in> fr_flags f \<or> fr_nparsed f < fr_nparsed f')"

lemma read_loop_advances:
  assumes "loop_ok orig s f" and "read_loop ieq n s f = Loop_done s' f'"
  shows "advances f f'"
  using assms
proof (induction n arbitrary: s f)
  case (Suc n)
  note l = loop_okD [OF Suc.prems(1)]
  obtain p where p: "request_next ieq (so_parser s) = Some p"
    using loop_no_undefined [OF Suc.prems(1), of ieq] by blast
  consider (more) "r_code p = Error_insufficient_data" | (token) "is_token (r_code p)"
    | (bad) "r_code p \<in> {Error_invalid_data, Error_no_host, Error_invalid_content_length,
        Error_content_length_overflow, Error_invalid_transfer_encoding, Error_chunk_size_overflow}"
    using request_next_errors [OF l(1) p l(2)] by (cases "r_code p") auto
  then show ?case
  proof cases
    case more
    then show ?thesis
      using Suc.prems(2) p by (simp add: advances_def)
  next
    case token
    have "END \<notin> fr_flags f"
      by (rule loop_token_not_end [OF Suc.prems(1) p token])
    then obtain s1 f1 where on: "on_token ieq (s\<lparr>so_parser := p\<rparr>, f) = Some (s1, f1)"
      and ok1: "loop_ok orig s1 (f1\<lparr>fr_nparsed := fr_nparsed f1 + r_tok (so_parser s1)\<rparr>)"
      using on_token_round [OF Suc.prems(1) _ p token] by blast
    have "read_loop ieq (Suc n) s f = read_loop ieq n s1 (f1\<lparr>fr_nparsed := fr_nparsed f1 + r_tok (so_parser s1)\<rparr>)"
      using p on token by (auto simp: Let_def)
    with Suc.prems(2) have "advances (f1\<lparr>fr_nparsed := fr_nparsed f1 + r_tok (so_parser s1)\<rparr>) f'"
      by (intro Suc.IH [OF ok1]) simp
    then show ?thesis
      using on_token_progress [OF on] request_next_body_chunk [OF l(1) p l(2)] by (auto simp: advances_def)
  next
    case bad
    then show ?thesis
      using p Suc.prems(2) by auto
  qed
qed simp

text \<open>What is in the array and not parsed.\<close>

definition unparsed :: "http_socket \<Rightarrow> nat" where
  "unparsed s = length (so_buf s) - window_start s"

lemma unparsed_compact:
  assumes "loop_done_ok orig s f" and "0 < so_capacity s" and "length orig \<le> so_capacity s"
  shows "unparsed (compact s f) = length orig - fr_nparsed f"
proof (cases "so_expecting_field s")
  case True
  note c = compact_ok [OF assms]
  have "so_field_name_size s \<le> length (so_buf (compact s f))"
    using c(1,6,7) True by (auto simp: socket_ok_def name_at_def)
  then have "length (so_buf (compact s f)) = so_field_name_size s + (length orig - fr_nparsed f)"
    by (subst c(2) [OF True]) simp
  then show ?thesis
    using c(6,7) True by (simp add: unparsed_def window_start_def)
qed (use compact_ok(3,6) [OF assms] in \<open>simp add: unparsed_def window_start_def\<close>)

text \<open>
  \<open>goes_on t s n s'\<close>: a read operation that had \<open>n\<close> bytes to parse has succeeded with the socket \<open>s'\<close>. One that
  waits for a piece of the body got one, or the end of the message; one that waits for the end got it.
\<close>

definition goes_on :: "target \<Rightarrow> nat \<Rightarrow> http_socket \<Rightarrow> bool" where
  "goes_on t n s' \<longleftrightarrow> unparsed s' \<le> n
     \<and> (t = DATA \<longrightarrow> so_istate s' = Read_empty \<or> unparsed s' < n) \<and> (t = END \<longrightarrow> so_istate s' = Read_empty)"

lemma on_async_read_message_progress:
  assumes "socket_ok s" and "length (so_buf s) + length input \<le> so_capacity s"
    and "mth = None \<or> path = None \<longrightarrow> so_istate s \<noteq> Read_empty"
    and "on_async_read_message ieq t No_error input s mth path m = (s', mth', path', m', out)"
  shows "(out = Wait \<longrightarrow> unparsed s' \<le> unparsed s + length input)
    \<and> (out = Complete No_error \<longrightarrow> goes_on t (unparsed s + length input) s')"
proof -
  define s0 where "s0 = set_window (window_start s) (length (so_buf s @ input)) (s\<lparr>so_buf := so_buf s @ input\<rparr>)"
  define f0 where "f0 = \<lparr>fr_nparsed = window_start s, fr_field_name_begin = 0, fr_flags = {}, fr_method = mth, fr_path = path,
           fr_message = m\<rparr>"
  note b = begin_loop [OF assms(1,3) s0_def f0_def]
  note eq = on_async_read_message_eq [OF s0_def f0_def, of ieq t]
  have cap: "so_capacity s0 = so_capacity s" "0 < so_capacity s"
    using assms(1) by (simp_all add: s0_def set_window_def socket_ok_def)
  show ?thesis
  proof (cases "read_loop ieq (read_fuel s0) s0 f0")
    case (Loop_done s1 f1)
    have ok: "loop_done_ok (so_buf s @ input) s1 f1" "so_capacity s1 = so_capacity s"
      using read_loop_safe [OF b, of ieq] cap by (simp_all add: Loop_done)
    have adv: "window_start s \<le> fr_nparsed f1" "DATA \<in> fr_flags f1 \<Longrightarrow> window_start s < fr_nparsed f1"
      using read_loop_advances [OF b(1) Loop_done] by (auto simp: advances_def f0_def)
    have "window_start s \<le> length (so_buf s)"
      using assms(1) by (auto simp: socket_ok_def window_start_def name_at_def)
    then have u: "unparsed (compact s1 f1) = length (so_buf s) + length input - fr_nparsed f1"
      "unparsed s + length input = length (so_buf s) + length input - window_start s"
      using unparsed_compact [OF ok(1)] ok(2) cap(2) assms(2) by (simp_all add: unparsed_def)
    have "fr_nparsed f1 \<le> length (so_buf s) + length input"
      using ok(1) by (simp add: loop_done_ok_def)
    moreover have "so_istate (compact s1 f1) = Read_empty" if "END \<in> fr_flags f1"
      using ok(1) that compact_ok(5) [OF ok(1)] ok(2) cap(2) assms(2)
      by (simp add: loop_done_ok_def position_ok_def Let_def phase_def)
    moreover have "s' = compact s1 f1" "out = Complete No_error \<Longrightarrow> reached t (fr_flags f1)"
      using assms(4) by (auto simp: eq Loop_done Let_def split: if_splits)
    ultimately show ?thesis
      using adv u by (cases t) (auto simp: goes_on_def reached_def)
  qed (use assms(4) in \<open>auto simp: eq\<close>)
qed

text \<open>An operation under way on a socket that had \<open>n\<close> bytes to parse: it waits as it should, or it is over.\<close>

definition under_way :: "target \<Rightarrow> nat \<Rightarrow> read_state_of \<Rightarrow> bool" where
  "under_way t n c =
     (case c of (s, mth, path, m, out) \<Rightarrow>
        socket_ok s \<and> out \<notin> {Undefined_behaviour, No_fuel}
        \<and> (out = Wait \<longrightarrow> length (so_buf s) < so_capacity s \<and> pointers_ok t s mth path \<and> unparsed s \<le> n)
        \<and> (out = Complete No_error \<longrightarrow> goes_on t n s))"

lemma on_async_read_message_under_way:
  assumes "socket_ok s" and "length (so_buf s) + length input \<le> so_capacity s" and "pointers_ok t s mth path"
    and "unparsed s + length input \<le> n"
  shows "under_way t n (on_async_read_message ieq t ec input s mth path m)"
proof -
  obtain s' mth' path' m' out where r: "on_async_read_message ieq t ec input s mth path m = (s', mth', path', m', out)"
    by (metis prod_cases5)
  have ptr: "mth = None \<or> path = None \<longrightarrow> so_istate s \<noteq> Read_empty"
    using assms(3) by (simp add: pointers_ok_def)
  note ok = on_async_read_message_ok [OF assms(1-3) r]
  show ?thesis
  proof (cases "ec = No_error")
    case True
    with on_async_read_message_progress [OF assms(1,2) ptr] r ok assms(4) show ?thesis
      by (fastforce simp: under_way_def goes_on_def)
  next
    case False
    with ok r show ?thesis
      by (auto simp: under_way_def on_async_read_message_def)
  qed
qed

lemma schedule_under_way:
  assumes "socket_ok s" and "pointers_ok t s mth path"
  shows "under_way t (unparsed s) (schedule_on_async_read_message ieq t s mth path m)"
proof (cases "so_buf s = []")
  case True
  with assms show ?thesis
    by (simp add: schedule_on_async_read_message_def under_way_def socket_ok_def)
next
  case False
  then show ?thesis
    using on_async_read_message_under_way [of s "[]"] assms by (simp add: schedule_on_async_read_message_def socket_ok_def)
qed

lemma async_read_under_way:
  assumes "socket_ok s"
  shows "under_way READY (unparsed s) (async_read_request ieq s mth path m)"
    and "so_istate s = Message_ready \<Longrightarrow> under_way DATA (unparsed s) (async_read_some ieq s m)"
    and "so_istate s = Body_ready \<Longrightarrow> under_way END (unparsed s) (async_read_trailers ieq s m)"
proof -
  have "unparsed (s\<lparr>so_writer := Finished\<rparr>) = unparsed s"
    by (simp add: unparsed_def window_start_def)
  moreover have "pointers_ok READY (s\<lparr>so_writer := Finished\<rparr>) (Some []) (Some [])"
    by (simp add: pointers_ok_def)
  ultimately show "under_way READY (unparsed s) (async_read_request ieq s mth path m)"
    using schedule_under_way [OF writer_update_ok [OF assms, of Finished]] assms
    by (auto simp: async_read_request_def under_way_def)
qed (use schedule_under_way [OF assms] in \<open>simp_all add: async_read_some_def async_read_trailers_def pointers_ok_def\<close>)

text \<open>However the channel cuts and ends the bytes, the operation ends well or waits when nothing more comes.\<close>

lemma await_read_under_way:
  assumes "under_way t n c" and "await_read ieq t c es = (c', es')"
  shows "\<exists>k. under_way t k c' \<and> k + arriving es' \<le> n + arriving es"
  using assms
proof (induction ieq t c es arbitrary: n rule: await_read.induct)
  case (2 ieq t s mth path m out ec input es)
  show ?case
  proof (cases "out = Wait")
    case True
    let ?input = "take (so_capacity s - length (so_buf s)) input"
    have w: "socket_ok s" "length (so_buf s) < so_capacity s" "pointers_ok t s mth path" "unparsed s \<le> n"
      using 2(2) True by (simp_all add: under_way_def)
    have "length (so_buf s) + length ?input \<le> so_capacity s" "unparsed s + length ?input \<le> n + length input"
      using w(2,4) by simp_all
    from on_async_read_message_under_way [OF w(1) this(1) w(3) this(2)] 2(1) [OF True] 2(3) True show ?thesis
      by (fastforce simp: arriving_def)
  qed (use 2(2,3) in auto)
qed auto

lemma body_loop_ends:
  assumes "socket_ok s" and "so_istate s = Read_empty \<and> 0 < n \<or> unparsed s + arriving es + 2 \<le> n"
  shows "case body_loop E n s m es of (e, s', m') \<Rightarrow>
      e \<notin> {Some Spinning, Some Undefined_here} \<and> (e = None \<longrightarrow> socket_ok s' \<and> so_istate s' = Read_empty)"
  using assms
proof (induction n arbitrary: s m es)
  case (Suc n)
  have step: ?case
    if start: "under_way t (unparsed s) (op (ce_iequals E) s m)" and t: "t = DATA \<or> t = END"
      and loop: "body_loop E (Suc n) s m es =
        (case await_read (ce_iequals E) t (op (ce_iequals E) s m) es of
           ((s, _, _, m, out), es) \<Rightarrow>
             (case read_ends E out of None \<Rightarrow> body_loop E n s m es | Some e \<Rightarrow> (Some e, s, m)))"
      and busy: "so_istate s \<noteq> Read_empty" for t op
  proof -
    obtain s' me pa m' out es' where r: "await_read (ce_iequals E) t (op (ce_iequals E) s m) es = ((s', me, pa, m', out), es')"
      by (metis prod_cases5 surj_pair)
    obtain k where k: "under_way t k (s', me, pa, m', out)" "k + arriving es' \<le> unparsed s + arriving es"
      using await_read_under_way [OF start r] by blast
    show ?thesis
    proof (cases "out = Complete No_error")
      case True
      then have g: "socket_ok s'" "goes_on t k s'"
        using k(1) by (simp_all add: under_way_def)
      then have "so_istate s' = Read_empty \<and> 0 < n \<or> unparsed s' + arriving es' + 2 \<le> n"
        using k(2) Suc.prems(2) busy t by (auto simp: goes_on_def)
      from Suc.IH [OF g(1) this, of m'] show ?thesis
        unfolding loop by (simp add: r True read_ends_def)
    next
      case False
      then show ?thesis
        using k(1) unfolding loop by (auto simp: r read_ends_def under_way_def failed_def split: read_outcome.splits)
    qed
  qed
  note under = async_read_under_way(2,3) [OF Suc.prems(1), of "ce_iequals E" m]
  have "so_istate s \<noteq> Read_finished"
    using Suc.prems(1) by (simp add: socket_ok_def position_ok_def Let_def phase_def)
  then consider "so_istate s = Read_empty" | "so_istate s = Message_ready" | "so_istate s = Body_ready"
    by (cases "so_istate s") simp_all
  then show ?case
  proof cases
    case 2
    show ?thesis
      by (rule step [of DATA async_read_some]) (use under 2 in simp_all)
  next
    case 3
    show ?thesis
      by (rule step [of END async_read_trailers]) (use under 3 in simp_all)
  qed (use Suc.prems(1) in simp)
qed simp

section \<open>The writing side while a request is read\<close>

text \<open>A read leaves the state of the writer or resets it, and it does so when the headers are complete.\<close>

lemma on_token_writer:
  "on_token ieq (s, f) = Some (s1, f1) \<Longrightarrow> so_writer s1 \<in> {so_writer s, Write_empty}
     \<and> (READY \<in> fr_flags f1 \<longrightarrow> READY \<in> fr_flags f \<or> so_writer s1 = Write_empty)"
  by (auto simp: on_token_def Let_def on_field_name_def on_field_value_def on_end_of_headers_def set_window_def
      split: token_code.splits if_splits option.splits)

lemma read_loop_writer:
  assumes "read_loop ieq n s f = Loop_done s' f'"
  shows "so_writer s' \<in> {so_writer s, Write_empty} \<and> (READY \<in> fr_flags f' \<longrightarrow> READY \<in> fr_flags f \<or> so_writer s' = Write_empty)"
  using assms
proof (induction ieq n s f rule: read_loop.induct)
  case (2 ieq n s f)
  from 2(2) obtain p where p: "request_next ieq (so_parser s) = Some p"
    by (auto split: option.splits)
  show ?case
  proof (cases "r_code p = Error_insufficient_data")
    case True
    with 2(2) p show ?thesis
      by auto
  next
    case False
    then obtain s1 f1 where on: "on_token ieq (s\<lparr>so_parser := p\<rparr>, f) = Some (s1, f1)"
      and rest: "read_loop ieq n s1 (f1\<lparr>fr_nparsed := fr_nparsed f1 + r_tok (so_parser s1)\<rparr>) = Loop_done s' f'"
      and good: "r_code p \<notin> {Error_invalid_data, Error_no_host, Error_invalid_content_length,
                Error_content_length_overflow, Error_invalid_transfer_encoding, Error_chunk_size_overflow}"
      using 2(2) p by (auto simp: Let_def split: if_splits option.splits prod.splits)
    have "so_writer s' \<in> {so_writer s1, Write_empty} \<and> (READY \<in> fr_flags f' \<longrightarrow> READY \<in> fr_flags f1 \<or> so_writer s' = Write_empty)"
      using 2(1) [OF p refl False good on refl rest] by simp
    with on_token_writer [OF on] show ?thesis
      by auto
  qed
qed simp

definition writer_kept :: "target \<Rightarrow> write_state \<Rightarrow> read_state_of \<Rightarrow> bool" where
  "writer_kept t w c =
     (case c of (s, _, _, _, out) \<Rightarrow>
        (out = Wait \<longrightarrow> so_writer s \<in> {w, Write_empty})
        \<and> (out = Complete No_error \<longrightarrow> so_writer s \<in> {w, Write_empty} \<and> (t = READY \<longrightarrow> so_writer s = Write_empty)))"

lemma on_async_read_message_writer:
  assumes "so_writer s \<in> {w, Write_empty}"
  shows "writer_kept t w (on_async_read_message ieq t ec input s mth path m)"
proof (cases "ec = No_error")
  case True
  define s0 where "s0 = set_window (window_start s) (length (so_buf s @ input)) (s\<lparr>so_buf := so_buf s @ input\<rparr>)"
  define f0 where "f0 = \<lparr>fr_nparsed = window_start s, fr_field_name_begin = 0, fr_flags = {}, fr_method = mth, fr_path = path,
           fr_message = m\<rparr>"
  have w0: "so_writer s0 = so_writer s" "fr_flags f0 = {}"
    by (simp_all add: s0_def f0_def set_window_def)
  note eq = on_async_read_message_eq [OF s0_def f0_def, of ieq t, unfolded True [symmetric]]
  show ?thesis
  proof (cases "read_loop ieq (read_fuel s0) s0 f0")
    case (Loop_done s1 f1)
    have "so_writer (compact s1 f1) = so_writer s1"
      by (simp add: compact_def)
    with read_loop_writer [OF Loop_done] assms w0 show ?thesis
      by (auto simp: writer_kept_def True eq [unfolded True] Loop_done Let_def reached_def)
  qed (simp_all add: writer_kept_def True eq [unfolded True])
qed (simp add: writer_kept_def on_async_read_message_def)

lemma await_read_writer:
  assumes "writer_kept t w c" and "await_read ieq t c es = (c', es')"
  shows "writer_kept t w c'"
  using assms
proof (induction ieq t c es rule: await_read.induct)
  case (2 ieq t s mth path m out ec input es)
  show ?case
  proof (cases "out = Wait")
    case True
    then have "so_writer s \<in> {w, Write_empty}"
      using 2(2) by (simp add: writer_kept_def)
    with 2(1) [OF True on_async_read_message_writer] 2(3) True show ?thesis
      by simp
  qed (use 2(2,3) in auto)
qed auto

lemma schedule_writer:
  assumes "so_writer s \<in> {w, Write_empty}"
  shows "writer_kept t w (schedule_on_async_read_message ieq t s mth path m)"
  using assms on_async_read_message_writer [of s w t ieq No_error "[]" mth path m]
  by (auto simp: schedule_on_async_read_message_def writer_kept_def)

lemma async_read_writer:
  "so_istate s = Read_empty \<Longrightarrow> writer_kept READY Finished (async_read_request ieq s mth path m)"
  "so_istate s = Message_ready \<Longrightarrow> writer_kept DATA (so_writer s) (async_read_some ieq s m)"
  "so_istate s = Body_ready \<Longrightarrow> writer_kept END (so_writer s) (async_read_trailers ieq s m)"
  by (simp_all add: async_read_request_def async_read_some_def async_read_trailers_def schedule_writer)

lemma body_loop_writer:
  assumes "body_loop E n s m es = (None, s', m')"
  shows "so_writer s' \<in> {so_writer s, Write_empty}"
  using assms
proof (induction n arbitrary: s m es)
  case (Suc n)
  have step: ?case
    if start: "writer_kept t (so_writer s) c"
      and loop: "(case await_read (ce_iequals E) t c es of
           ((s, _, _, m, out), es) \<Rightarrow>
             (case read_ends E out of None \<Rightarrow> body_loop E n s m es | Some e \<Rightarrow> (Some e, s, m))) = (None, s', m')" for t c
  proof -
    obtain s1 me pa m1 out es1 where r: "await_read (ce_iequals E) t c es = ((s1, me, pa, m1, out), es1)"
      by (metis prod_cases5 surj_pair)
    then have "body_loop E n s1 m1 es1 = (None, s', m')" "out = Complete No_error"
      using loop by (auto simp: read_ends_def split: read_outcome.splits if_splits)
    with Suc.IH [of s1 m1 es1] await_read_writer [OF start r] show ?thesis
      by (auto simp: writer_kept_def)
  qed
  show ?case
  proof (cases "so_istate s")
    case Message_ready
    from step [OF async_read_writer(2) [OF this]] Suc.prems this show ?thesis
      by simp
  next
    case Body_ready
    from step [OF async_read_writer(3) [OF this]] Suc.prems this show ?thesis
      by simp
  qed (use Suc in auto)
qed simp

section \<open>What the client gets\<close>

text \<open>What the coroutine is to do with a complete body: the reply and the service behind it, or no reply at all.\<close>

datatype verdict = Reply nat string bytes service | No_reply connection_end service

definition verdict :: "'t connection_env \<Rightarrow> bytes \<Rightarrow> service \<Rightarrow> verdict" where
  "verdict E body svc =
     (case ce_read_json E body of
        None \<Rightarrow> Reply 400 ''Bad Request'' (asc ''Your client sent a message this server could not interpret.'') svc
      | Some pt \<Rightarrow>
          (case handle (ce_api E) (ce_manager E) pt svc of
             (svc', Done t) \<Rightarrow>
               (case ce_write_json E t of None \<Rightarrow> No_reply Throws_exception svc' | Some text \<Rightarrow> Reply 200 ''OK'' text svc')
           | (svc', Throws e) \<Rightarrow>
               (case e of
                  Invalid_request what \<Rightarrow> Reply 400 ''Bad Request'' (asc what) svc
                | _ \<Rightarrow> Reply 500 ''Internal Server Error'' (asc (error_what (ce_api E) e)) svc')
           | (svc', Hangs) \<Rightarrow> No_reply Blocked svc'
           | (svc', Aborts) \<Rightarrow> No_reply Program_aborts svc'))"

text \<open>The result of a coroutine that carries out a verdict on a socket.\<close>

definition carries_out :: "'t connection_env \<Rightarrow> verdict \<Rightarrow> connection_result \<Rightarrow> bool" where
  "carries_out E v r \<longleftrightarrow>
     (case v of
        Reply status reason body svc \<Rightarrow>
          (\<exists>modern connect close before.
              cr_sent r = before @ [response_bytes modern connect close status (asc reason) (empty_message\<lparr>msg_body := body\<rparr>)]
              \<and> before \<in> {[], [continue_bytes]})
          \<and> cr_end r = (if ce_replied E = No_error then Responded status else failed E (ce_replied E)) \<and> cr_service r = svc
      | No_reply e svc \<Rightarrow> cr_sent r \<in> {[], [continue_bytes]} \<and> cr_end r = e \<and> cr_service r = svc)"

lemma reply_with_result:
  assumes "fst (write_message (so_writer s))"
  shows "\<exists>modern connect close.
      cr_sent (reply_with E status reason body s svc)
        = [response_bytes modern connect close status (asc reason) (empty_message\<lparr>msg_body := body\<rparr>)]
      \<and> cr_end (reply_with E status reason body s svc) = (if ce_replied E = No_error then Responded status else failed E (ce_replied E))
      \<and> cr_service (reply_with E status reason body s svc) = svc"
  using assms by (auto simp: reply_with_def async_write_response_def Let_def split: prod.splits)

lemma body_loop_end:
  assumes "body_loop E n s m es = (Some e, s', m')"
  shows "e \<in> {Waiting, Client_left, Spinning, Undefined_here} \<union> range Throws_code"
  using assms
proof (induction n arbitrary: s m es)
  case (Suc n)
  then show ?case
    by (auto simp: read_ends_def failed_def split: if_splits prod.splits option.splits read_outcome.splits)
qed simp

lemma answer_carries_out:
  assumes "fst (write_message (so_writer s))" and "sent \<in> {[], [continue_bytes]}"
  shows "carries_out E (verdict E (msg_body m) svc) (prepend_sent sent (answer E m s svc))"
proof -
  have reply: "carries_out E (Reply status reason body svc') (prepend_sent sent (reply_with E status reason body s svc'))"
    for status reason body svc'
    using reply_with_result [OF assms(1), of E status reason body svc'] assms(2)
    by (fastforce simp: carries_out_def prepend_sent_def)
  show ?thesis
  proof (cases "ce_read_json E (msg_body m)")
    case (Some pt)
    obtain svc' out where h: "handle (ce_api E) (ce_manager E) pt svc = (svc', out)"
      by fastforce
    show ?thesis
    proof (cases out)
      case (Done t)
      then show ?thesis
        using assms(2) reply by (auto simp: verdict_def answer_def Some h Let_def carries_out_def prepend_sent_def split: option.split)
    next
      case (Throws e)
      then show ?thesis
        using reply h refused_unchanged by (cases e) (fastforce simp: verdict_def answer_def Some Let_def)+
    qed (use assms(2) in \<open>auto simp: verdict_def answer_def Some h Let_def carries_out_def prepend_sent_def\<close>)
  qed (simp add: verdict_def answer_def reply)
qed

lemma continue_result:
  assumes "socket_ok s" and "so_writer s = Write_empty" and "continue_if_required E m s = (s', ec, sent)"
  shows "socket_ok s' \<and> so_istate s' = so_istate s \<and> so_writer s' \<in> {Write_empty, Continue_issued} \<and> sent \<in> {[], [continue_bytes]}
    \<and> (ec \<noteq> No_error \<longrightarrow> ec = ce_continued E)"
proof -
  have "socket_ok (s\<lparr>so_writer := Continue_issued\<rparr>)"
    by (rule writer_update_ok [OF assms(1)])
  then show ?thesis
    using assms by (auto simp: continue_if_required_def async_write_response_continue_def write_continue_def split: if_splits)
qed

lemma read_message_result:
  assumes "socket_ok s" and "so_istate s = Read_empty" and "read_message E s mth path m es = (e, sent, s', m')"
  shows "sent \<in> {[], [continue_bytes]} \<and> (case e of None \<Rightarrow> so_writer s' \<in> {Write_empty, Continue_issued} \<and> so_istate s' = Read_empty
    | Some e \<Rightarrow> e \<in> {Waiting, Client_left} \<union> range Throws_code)"
proof -
  obtain s1 me pa m1 out es1 where r: "await_read (ce_iequals E) READY (async_read_request (ce_iequals E) s mth path m) es
      = ((s1, me, pa, m1, out), es1)"
    by (metis prod_cases5 surj_pair)
  obtain k where k: "under_way READY k (s1, me, pa, m1, out)"
    using await_read_under_way [OF async_read_under_way(1) [OF assms(1)] r] by blast
  have w: "writer_kept READY Finished (s1, me, pa, m1, out)"
    by (rule await_read_writer [OF async_read_writer(1) [OF assms(2)] r])
  show ?thesis
  proof (cases "out = Complete No_error")
    case False
    then show ?thesis
      using assms(3) k by (auto simp: read_message_def r read_ends_def failed_def under_way_def split: read_outcome.splits if_splits)
  next
    case True
    then have s1: "socket_ok s1" "so_writer s1 = Write_empty"
      using k w by (simp_all add: under_way_def writer_kept_def)
    obtain s2 ec sent2 where c: "continue_if_required E m1 s1 = (s2, ec, sent2)"
      by (metis surj_pair)
    note c' = continue_result [OF s1 c]
    obtain e3 s3 m3 where b: "body_loop E (body_fuel s2 es1) s2 m1 es1 = (e3, s3, m3)"
      by (metis surj_pair)
    have ends: "e3 \<notin> {Some Spinning, Some Undefined_here} \<and> (e3 = None \<longrightarrow> socket_ok s3 \<and> so_istate s3 = Read_empty)"
      using body_loop_ends [of s2 "body_fuel s2 es1" es1 E m1] c' b by (simp add: body_fuel_def unparsed_def)
    have "e3 = None \<Longrightarrow> so_writer s3 \<in> {so_writer s2, Write_empty}"
      using body_loop_writer [of E "body_fuel s2 es1" s2 m1 es1] b by simp
    then show ?thesis
      using assms(3) c' ends body_loop_end [of E "body_fuel s2 es1" s2 m1 es1] b
      by (cases e3) (auto simp: read_message_def r True read_ends_def c failed_def split: if_splits)
  qed
qed

text \<open>A socket as \<open>make_connection\<close> makes it.\<close>

lemma new_socket_facts:
  assumes "new_socket n raw = Some s"
  shows "socket_ok s" "is_open s" "so_istate s = Read_empty" "so_buf s = []" "so_capacity s = n" "0 < n"
    "so_expecting_field s = False" "r_state (so_parser s) = EXPECT_METHOD" "r_code (so_parser s) = Error_insufficient_data"
    "r_tok (so_parser s) = 0"
  using new_socket_ok [OF assms] assms by (auto simp: new_socket_def is_open_def new_request_def split: if_splits)

text \<open>The two ways of a connection: it stops while it reads, or it carries out the verdict on a complete request.\<close>

lemma serve_cases:
  assumes "new_socket n raw = Some s"
  obtains (stops) e sent s' m' where "read_message E s mth path m es = (Some e, sent, s', m')"
      and "serve E s mth path m es svc = \<lparr>cr_end = e, cr_sent = sent, cr_socket = s', cr_service = svc\<rparr>"
      and "sent \<in> {[], [continue_bytes]}" and "e \<in> {Waiting, Client_left} \<union> range Throws_code"
    | (replies) sent s' m' where "read_message E s mth path m es = (None, sent, s', m')"
      and "carries_out E (verdict E (msg_body m') svc) (serve E s mth path m es svc)" and "so_istate s' = Read_empty"
proof -
  obtain e sent s' m' where r: "read_message E s mth path m es = (e, sent, s', m')"
    by (metis surj_pair)
  note facts = new_socket_facts [OF assms] and result = read_message_result [OF new_socket_facts(1,3) [OF assms] r]
  show thesis
  proof (cases e)
    case None
    then have "fst (write_message (so_writer s'))"
      using result by (auto simp: write_message_def)
    from answer_carries_out [OF this, of sent E m' svc] show ?thesis
      using None result facts(2) r by (intro replies [of sent s' m']) (simp_all add: serve_def)
  next
    case (Some e1)
    show ?thesis
      by (rule stops [of e1 sent s' m']) (use Some result facts(2) r in \<open>simp_all add: serve_def\<close>)
  qed
qed

text \<open>How a connection can end; the last three are the doing of the manager.\<close>

lemma serve_end:
  assumes "new_socket n raw = Some s"
  shows "cr_end (serve E s mth path m es svc)
    \<in> {Waiting, Client_left, Throws_exception, Blocked, Program_aborts} \<union> range Throws_code \<union> range Responded"
  using assms
proof (cases rule: serve_cases [where E = E and mth = mth and path = path and m = m and es = es and svc = svc])
  case (replies sent s' m')
  then show ?thesis
    by (auto simp: carries_out_def verdict_def failed_def split: option.splits outcome.splits wye_error.splits prod.splits if_splits)
qed auto

text \<open>
  C5: a connection does for the bytes of its client exactly what it is to do: when the request is complete, the
  coroutine carries out the verdict on its body (400 for a body that is not JSON or a request the manager
  refuses, which then changed nothing, 500 for every other exception of the manager, 200 with the printed
  result otherwise) in one response, which the socket never refuses, behind at most one \<open>100 Continue\<close>; when it
  is not, no response is sent, the service is untouched, and the coroutine waits, returns because the client
  closed the connection, or throws the error code.
\<close>

theorem request_answered:
  assumes "new_socket n raw = Some s"
  shows "case read_message E s mth path m es of
      (Some e, sent, s', m') \<Rightarrow>
        serve E s mth path m es svc = \<lparr>cr_end = e, cr_sent = sent, cr_socket = s', cr_service = svc\<rparr>
        \<and> sent \<in> {[], [continue_bytes]} \<and> e \<in> {Waiting, Client_left} \<union> range Throws_code
    | (None, sent, s', m') \<Rightarrow>
        carries_out E (verdict E (msg_body m') svc) (serve E s mth path m es svc) \<and> so_istate s' = Read_empty"
  by (rule serve_cases [OF assms, of E mth path m es svc]) auto

section \<open>Every connection ends\<close>

text \<open>An error of the channel is not passed over.\<close>

definition breaks :: "arrivals \<Rightarrow> bool" where
  "breaks es \<longleftrightarrow> (\<exists>(ec, _) \<in> set es. ec \<noteq> No_error)"

lemma await_read_breaks:
  assumes "await_read ieq t c es = ((s', me, pa, m', out), es')" and "breaks es"
  shows "out \<noteq> Wait \<and> (out = Complete No_error \<longrightarrow> breaks es')"
  using assms
proof (induction ieq t c es rule: await_read.induct)
  case (2 ieq t s mth path m out0 ec input es)
  show ?case
  proof (cases "out0 = Wait \<and> ec = No_error")
    case True
    then show ?thesis
      using 2 by (simp add: breaks_def)
  next
    case False
    then consider "out0 \<noteq> Wait" | "out0 = Wait" "ec \<noteq> No_error"
      by blast
    then show ?thesis
    proof cases
      case 2
      then have "fst (await_read ieq t (clear_buffer s, mth, path, m, Complete ec) es) = (s', me, pa, m', out)"
        using \<open>await_read ieq t (s, mth, path, m, out0) ((ec, input) # es) = _\<close> by (simp add: on_async_read_message_def)
      then show ?thesis
        using 2 by (cases es) auto
    qed (use 2(2,3) in auto)
  qed
qed (simp add: breaks_def)

lemma body_loop_breaks:
  assumes "breaks es"
  shows "fst (body_loop E n s m es) \<noteq> Some Waiting"
  using assms
proof (induction n arbitrary: s m es)
  case (Suc n)
  have step: "fst (case await_read (ce_iequals E) t c es of
           ((s, _, _, m, out), es) \<Rightarrow>
             (case read_ends E out of None \<Rightarrow> body_loop E n s m es | Some e \<Rightarrow> (Some e, s, m))) \<noteq> Some Waiting" for t c
  proof -
    obtain s1 me pa m1 out es1 where r: "await_read (ce_iequals E) t c es = ((s1, me, pa, m1, out), es1)"
      by (metis prod_cases5 surj_pair)
    from await_read_breaks [OF r Suc.prems] Suc.IH show ?thesis
      by (auto simp: r read_ends_def failed_def split: read_outcome.splits)
  qed
  show ?case
    using step Suc by simp
qed simp

lemma read_message_breaks:
  assumes "breaks es"
  shows "fst (read_message E s mth path m es) \<noteq> Some Waiting"
proof -
  obtain s1 me pa m1 out es1 where r: "await_read (ce_iequals E) READY (async_read_request (ce_iequals E) s mth path m) es
      = ((s1, me, pa, m1, out), es1)"
    by (metis prod_cases5 surj_pair)
  obtain s2 ec sent where c: "continue_if_required E m1 s1 = (s2, ec, sent)"
    by (metis surj_pair)
  obtain e s3 m3 where b: "body_loop E (body_fuel s2 es1) s2 m1 es1 = (e, s3, m3)"
    by (metis surj_pair)
  show ?thesis
    using await_read_breaks [OF r assms] body_loop_breaks [of es1 E "body_fuel s2 es1" s2 m1] b
    by (auto simp: read_message_def r c read_ends_def failed_def split: read_outcome.splits)
qed


section \<open>Requests that end the program\<close>

lemma await_read_over: "out \<noteq> Wait \<Longrightarrow> await_read ieq t (s, me, pa, m, out) es = ((s, me, pa, m, out), es)"
  by (cases es) auto

text \<open>
  A client whose first byte cannot begin a method gets no answer: the parsing error of the socket is not
  the end of the data, so it leaves the coroutine as an exception, which nothing in \<open>main.C\<close> catches.
\<close>

theorem malformed_request_escapes:
  assumes "new_socket n raw = Some s" and "\<not> is_tchar b"
  shows "\<exists>s'. serve E s mth path m ((No_error, b # bs) # es) svc
    = \<lparr>cr_end = Throws_code (Http_error Parsing_error), cr_sent = [], cr_socket = s', cr_service = svc\<rparr>"
proof -
  note facts = new_socket_facts [OF assms(1)]
  define s1 where "s1 = s\<lparr>so_writer := Finished\<rparr>"
  define input where "input = take (so_capacity s1) (b # bs)"
  have input: "input = b # take (n - 1) bs"
    using facts(5,6) by (cases n) (simp_all add: input_def s1_def)
  define s0 where "s0 = set_window 0 (length input) (s1\<lparr>so_buf := input\<rparr>)"
  have p: "request_next (ce_iequals E) (so_parser s0) = Some (refuse ERRORED Error_invalid_data (so_parser s0))"
    using facts(8-10) assms(2)
    by (subst request_next.simps) (simp add: s0_def s1_def set_window_def advance_def input request_handler_def scan_token_def Let_def)
  have "read_fuel s0 = Suc (3 * length input + 2)"
    by (simp add: read_fuel_def s0_def set_window_def)
  then have "\<exists>s2. on_async_read_message (ce_iequals E) READY No_error input s1 (Some []) (Some []) (clear_message m)
      = (s2, Some [], Some [], clear_message m, Complete (Http_error Parsing_error))"
    using p facts(4,7) by (simp add: on_async_read_message_def Let_def s1_def s0_def)
  then show ?thesis
    using facts(2-5) by (auto simp: serve_def read_message_def async_read_request_def schedule_on_async_read_message_def
        read_ends_def failed_def s1_def input_def await_read_over)
qed

section \<open>Instances\<close>

text \<open>A printer and a parser that know only the empty object and a request for the jobs.\<close>

definition jobs_request :: ptree where
  "jobs_request = pt_put tree_api (pt_new tree_api) ''operation'' ''get-jobs''"

definition plain_connection :: "ptree connection_env" where
  "plain_connection =
     \<lparr>ce_iequals = ascii_iequals, ce_eof = 2, ce_continued = No_error, ce_replied = No_error,
      ce_read_json = (\<lambda>b. if b = asc ''{}'' then Some (pt_new tree_api) else if b = asc ''jobs'' then Some jobs_request else None),
      ce_write_json = (\<lambda>t. Some (asc ''{}'')), ce_api = tree_api,
      ce_manager = \<lparr>env_uuid = ''u'', env_launch = Launch_fails ''''\<rparr>\<rparr>"

definition plain_socket :: http_socket where
  "plain_socket = idle_socket\<lparr>so_capacity := 64, so_writer := Write_empty\<rparr>"

lemma plain_socket_new: "new_socket 64 plain_socket = Some plain_socket"
  by (simp add: new_socket_def plain_socket_def idle_socket_def new_request_def)

lemma malformed_request_escapes_witness:
  "\<exists>s'. serve plain_connection plain_socket [] [] empty_message [(No_error, [0x16, 3, 1])] (initial_service Map.empty)
    = \<lparr>cr_end = Throws_code (Http_error Parsing_error), cr_sent = [], cr_socket = s', cr_service = initial_service Map.empty\<rparr>"
  by (rule malformed_request_escapes [OF plain_socket_new]) code_simp


text \<open>A request in four pieces, cut inside a line end, a field name and the body.\<close>

definition plain_arrivals :: arrivals where
  "plain_arrivals =
     [(No_error, asc ''POST / HTTP/1.1'' @ [13]), (No_error, [10] @ asc ''host: a'' @ [13, 10] @ asc ''content-len''),
      (No_error, asc ''gth: 4'' @ [13, 10, 13, 10] @ asc ''j''), (No_error, asc ''obs'')]"

lemma plain_request_read:
  "case read_message plain_connection plain_socket [] [] empty_message plain_arrivals of
     (e, sent, s', m') \<Rightarrow> e = None \<and> msg_body m' = asc ''jobs''"
  by code_simp

lemma plain_verdict:
  "verdict plain_connection (asc ''jobs'') (initial_service Map.empty) = Reply 200 ''OK'' (asc ''{}'') (initial_service Map.empty)"
proof -
  have "asc ''jobs'' \<noteq> asc ''{}''"
    by code_simp
  moreover have "handle tree_api (ce_manager plain_connection) jobs_request (initial_service Map.empty)
      = (initial_service Map.empty, Done (pt_new tree_api))"
    by (simp add: handle_def get_jobs_def jobs_request_def ptree_simps tree_api_laws simple_path_def initial_service_def)
  ultimately show ?thesis
    by (simp add: verdict_def plain_connection_def)
qed

lemma request_answered_witness:
  "cr_end (serve plain_connection plain_socket [] [] empty_message plain_arrivals (initial_service Map.empty)) = Responded 200
   \<and> (\<exists>modern connect close.
        last (cr_sent (serve plain_connection plain_socket [] [] empty_message plain_arrivals (initial_service Map.empty)))
          = response_bytes modern connect close 200 (asc ''OK'') (empty_message\<lparr>msg_body := asc ''{}''\<rparr>))"
proof -
  obtain sent s' m' where "read_message plain_connection plain_socket [] [] empty_message plain_arrivals = (None, sent, s', m')"
    "msg_body m' = asc ''jobs''"
    using plain_request_read by auto
  moreover have "ce_replied plain_connection = No_error"
    by (simp add: plain_connection_def)
  ultimately show ?thesis
    using request_answered [OF plain_socket_new, where E = plain_connection and mth = "[]" and path = "[]" and m = empty_message
        and es = plain_arrivals and svc = "initial_service Map.empty"]
    by (auto simp: plain_verdict carries_out_def) blast+
qed

end
