(* ===== verification/Service.thy ===== *)
theory Service
  imports ConnectionProperties
begin

text \<open>
  The program, \<open>src/main.C\<close>: the options, the manager with its background thread, the handler of the signals, the
  loop that accepts connections and the coroutines it spawns, one for each. A run is a list of events; the
  coroutines share one thread, so an event runs to its end.

  Between its start and the call of the manager a coroutine touches only its own socket, and \<open>manager::handle\<close>
  runs with the mutexes held. So the event \<open>Request\<close> stands for the reading and the call, at the time of the call
  (or, when it does not come so far, of the end of the reading); how the coroutine then ends is kept until the
  event \<open>Return\<close>, because other coroutines may run while its reply is written.
\<close>

section \<open>Start-up\<close>

text \<open>
  What \<open>main\<close> does before the loop of events. The parser of the options is a parameter: it throws, or returns the
  value of the option \<open>port\<close> if it is given, an \<open>unsigned int\<close>. \<open>asio::ip::tcp::endpoint\<close> takes an \<open>unsigned short\<close>.
\<close>

record surroundings =
  sr_options :: "string list \<Rightarrow> 32 word option option"
  sr_listens :: "16 word \<Rightarrow> bool"
  sr_thread_starts :: bool
  sr_children :: children

datatype status = Serving | Stuck | Exited int | Terminated | Undefined_run

datatype coroutine = Reading http_socket | Leaving connection_end

record program =
  pg_status :: status
  pg_counter :: nat
  pg_connections :: "nat \<rightharpoonup> coroutine"
  pg_service :: service

definition with_status :: "status \<Rightarrow> program \<Rightarrow> program" where
  "with_status st p = p\<lparr>pg_status := st\<rparr>"

definition port_asked :: "32 word option \<Rightarrow> 32 word" where
  "port_asked o_port = (case o_port of None \<Rightarrow> 8080 | Some port \<Rightarrow> port)"

definition start_program :: "surroundings \<Rightarrow> string list \<Rightarrow> program" where
  "start_program S args =
     (let p = \<lparr>pg_status = Serving, pg_counter = 0, pg_connections = Map.empty, pg_service = initial_service (sr_children S)\<rparr>
      in case sr_options S args of
           None \<Rightarrow> with_status (Exited 1) p
         | Some o_port \<Rightarrow>
             if \<not> sr_listens S (ucast (port_asked o_port)) then with_status Terminated p
             else if \<not> sr_thread_starts S then with_status Terminated p
             else p)"

section \<open>Events\<close>

datatype 't event =
    Accepted http_socket
  | Accept_throws
  | Request nat "'t connection_env" arrivals
  | Return nat
  | Poll
  | Child_exit nat int
  | Signal

text \<open>The default size of the array of \<open>buffered_socket\<close>.\<close>

definition default_buffer_size :: nat where
  "default_buffer_size = 256"

text \<open>
  One round of the loop \<open>work\<close>: the next connection is constructed with the counter, \<open>raw\<close> being what its members
  without an initialiser hold, accepted and spawned; then the counter, an \<open>int\<close>, is incremented.
\<close>

definition accept_connection :: "http_socket \<Rightarrow> program \<Rightarrow> program" where
  "accept_connection raw p =
     (case new_socket default_buffer_size raw of
        None \<Rightarrow> with_status (Exited 1) p
      | Some s \<Rightarrow>
          if pg_counter p = 2 ^ 31 - 1 then with_status Undefined_run p
          else p\<lparr>pg_connections := (pg_connections p)(pg_counter p \<mapsto> Reading s), pg_counter := pg_counter p + 1\<rparr>)"

text \<open>The coroutine of a connection up to its reply; with nothing more to read it goes on waiting.\<close>

definition run_connection :: "nat \<Rightarrow> 't connection_env \<Rightarrow> arrivals \<Rightarrow> program \<Rightarrow> program" where
  "run_connection i E es p =
     (case pg_connections p i of
        Some (Reading s) \<Rightarrow>
          (let r = serve E s [] [] empty_message es (pg_service p)
           in case cr_end r of
                Waiting \<Rightarrow> p
              | Blocked \<Rightarrow> with_status Stuck p
              | Spinning \<Rightarrow> with_status Stuck p
              | Program_aborts \<Rightarrow> with_status Terminated p
              | Undefined_here \<Rightarrow> with_status Undefined_run p
              | e \<Rightarrow> p\<lparr>pg_connections := (pg_connections p)(i \<mapsto> Leaving e), pg_service := cr_service r\<rparr>)
      | _ \<Rightarrow> p)"

text \<open>The end of a coroutine: an exception goes through \<open>ios.run()\<close> out of \<open>main\<close>.\<close>

definition leave_connection :: "nat \<Rightarrow> program \<Rightarrow> program" where
  "leave_connection i p =
     (case pg_connections p i of
        Some (Leaving e) \<Rightarrow>
          (case e of
             Throws_code _ \<Rightarrow> with_status Terminated p
           | Throws_exception \<Rightarrow> with_status Terminated p
           | _ \<Rightarrow> p\<lparr>pg_connections := (pg_connections p)(i := None)\<rparr>)
      | _ \<Rightarrow> p)"

text \<open>A call that runs the destructors of workers, or polls them, and what then becomes of the program.\<close>

definition after_call :: "(service \<Rightarrow> program \<Rightarrow> program) \<Rightarrow> (wye_error, service) outcome \<Rightarrow> program \<Rightarrow> program" where
  "after_call done r p =
     (case r of Done svc \<Rightarrow> done svc p | Hangs \<Rightarrow> with_status Stuck p | Throws _ \<Rightarrow> with_status Terminated p
      | Aborts \<Rightarrow> with_status Terminated p)"

definition signal_handler :: "program \<Rightarrow> program" where
  "signal_handler p = after_call (\<lambda>svc p. with_status (Exited 1) (p\<lparr>pg_service := svc\<rparr>)) (stop (pg_service p)) p"

definition poll_program :: "program \<Rightarrow> program" where
  "poll_program p = after_call (\<lambda>svc p. p\<lparr>pg_service := svc\<rparr>) (background_poll (pg_service p)) p"

definition end_child :: "nat \<Rightarrow> int \<Rightarrow> program \<Rightarrow> program" where
  "end_child pid st p =
     p\<lparr>pg_service := (pg_service p)\<lparr>os_children := child_exits pid st (os_children (pg_service p))\<rparr>\<rparr>"

fun program_step :: "program \<Rightarrow> 't event \<Rightarrow> program" where
  "program_step p ev =
     (if pg_status p \<noteq> Serving then p
      else case ev of
        Accepted raw \<Rightarrow> accept_connection raw p
      | Accept_throws \<Rightarrow> with_status (Exited 1) p
      | Request i E es \<Rightarrow> run_connection i E es p
      | Return i \<Rightarrow> leave_connection i p
      | Poll \<Rightarrow> poll_program p
      | Child_exit pid st \<Rightarrow> end_child pid st p
      | Signal \<Rightarrow> signal_handler p)"

definition run_program :: "program \<Rightarrow> 't event list \<Rightarrow> program" where
  "run_program p evs = foldl program_step p evs"

end
