(* ===== verification/ServiceProperties.thy ===== *)
theory ServiceProperties
  imports Service
begin

text \<open>
  What holds of the program in every run: it refines the step relation of the manager, does nothing undefined, and
  how it ends.
\<close>

section \<open>The invariant of a run\<close>

lemma verdict_service:
  assumes "carries_out E (verdict E body svc) r" and "cr_end r \<notin> {Blocked, Program_aborts}"
  shows "cr_service r = svc \<or> service_step (ce_api E) svc (cr_service r)"
  using assms
  by (auto simp: carries_out_def verdict_def intro: Answered Refused
      split: option.splits outcome.splits wye_error.splits prod.splits)

lemma serve_service:
  assumes "new_socket n raw = Some s" and "cr_end (serve E s mth path m es svc) \<notin> {Blocked, Program_aborts}"
    and "service_reachable (ce_api E) svc"
  shows "service_reachable (ce_api E) (cr_service (serve E s mth path m es svc))"
  using assms(1)
proof (cases rule: serve_cases [where E = E and mth = mth and path = path and m = m and es = es and svc = svc])
  case (replies sent s' m')
  then show ?thesis
    using verdict_service assms(2,3) by (metis service_reachable.Step)
qed (use assms(3) in simp)

text \<open>A coroutine reads from a socket as its constructor left it, or it ends in one of four ways.\<close>

definition coroutine_ok :: "coroutine \<Rightarrow> bool" where
  "coroutine_ok c =
     (case c of
        Reading s \<Rightarrow> (\<exists>raw. new_socket default_buffer_size raw = Some s)
      | Leaving e \<Rightarrow> e \<in> {Client_left, Throws_exception} \<union> range Throws_code \<union> range Responded)"

definition program_ok :: "'t ptree_api \<Rightarrow> nat \<Rightarrow> program \<Rightarrow> bool" where
  "program_ok A n p \<longleftrightarrow>
     service_reachable A (pg_service p) \<and> pg_status p \<noteq> Undefined_run \<and> (pg_status p = Serving \<longrightarrow> pg_counter p = n)
     \<and> (\<forall>i c. pg_connections p i = Some c \<longrightarrow> i < pg_counter p \<and> coroutine_ok c)"

definition accepts :: "'t event \<Rightarrow> nat" where
  "accepts ev = (case ev of Accepted _ \<Rightarrow> 1 | _ \<Rightarrow> 0)"

definition uses_api :: "'t ptree_api \<Rightarrow> 't event \<Rightarrow> bool" where
  "uses_api A ev = (case ev of Request _ E _ \<Rightarrow> ce_api E = A | _ \<Rightarrow> True)"

lemma with_status_simps [simp]:
  "pg_status (with_status st p) = st" "pg_counter (with_status st p) = pg_counter p"
  "pg_connections (with_status st p) = pg_connections p" "pg_service (with_status st p) = pg_service p"
  by (simp_all add: with_status_def)

lemma program_okD: "program_ok A n p \<Longrightarrow> pg_connections p i = Some c \<Longrightarrow> i < pg_counter p \<and> coroutine_ok c"
  by (simp add: program_ok_def)

lemma start_program_ok: "program_ok A 0 (start_program S args)"
  by (auto simp: program_ok_def start_program_def Let_def intro: service_reachable.Start split: option.split)

lemma program_ok_ends: "program_ok A n p \<Longrightarrow> st \<notin> {Serving, Undefined_run} \<Longrightarrow> program_ok A k (with_status st p)"
  by (auto simp: program_ok_def)

lemma program_ok_service:
  "program_ok A n p \<Longrightarrow> service_step A (pg_service p) svc \<Longrightarrow> program_ok A n (p\<lparr>pg_service := svc\<rparr>)"
  by (auto simp: program_ok_def intro: service_reachable.Step)

lemma accept_connection_ok:
  assumes "program_ok A n p" and "pg_status p = Serving" and "Suc n < 2 ^ 31"
  shows "program_ok A (Suc n) (accept_connection raw p)"
proof (cases "new_socket default_buffer_size raw")
  case None
  then show ?thesis
    using assms by (auto simp: accept_connection_def intro: program_ok_ends)
next
  case (Some s)
  have "pg_counter p \<noteq> 2 ^ 31 - 1"
    using assms by (simp add: program_ok_def)
  then show ?thesis
    using assms(1,2) Some by (auto simp: accept_connection_def program_ok_def coroutine_ok_def less_Suc_eq)
qed

lemma run_connection_ok:
  assumes "program_ok A n p" and "ce_api E = A"
  shows "program_ok A n (run_connection i E es p)"
proof (cases "pg_connections p i")
  case (Some c)
  show ?thesis
  proof (cases c)
    case (Reading s)
    then obtain raw where s: "new_socket default_buffer_size raw = Some s"
      using program_okD [OF assms(1) Some] by (auto simp: coroutine_ok_def)
    define r where "r = serve E s [] [] empty_message es (pg_service p)"
    have leave: "program_ok A n (p\<lparr>pg_connections := (pg_connections p)(i \<mapsto> Leaving (cr_end r)), pg_service := cr_service r\<rparr>)"
      if "coroutine_ok (Leaving (cr_end r))" "cr_end r \<notin> {Blocked, Program_aborts}"
      using assms serve_service [OF s that(2) [unfolded r_def]] that(1) Some
      by (auto simp: program_ok_def r_def [symmetric])
    have "cr_end r \<in> {Waiting, Client_left, Throws_exception, Blocked, Program_aborts} \<union> range Throws_code \<union> range Responded"
      unfolding r_def by (rule serve_end [OF s])
    then show ?thesis
      using assms(1) leave Some Reading
      by (auto simp: run_connection_def r_def [symmetric] Let_def coroutine_ok_def intro: program_ok_ends)
  qed (use assms(1) Some in \<open>simp add: run_connection_def\<close>)
qed (use assms(1) in \<open>simp add: run_connection_def\<close>)

lemma leave_connection_ok: "program_ok A n p \<Longrightarrow> program_ok A n (leave_connection i p)"
  by (auto simp: leave_connection_def intro: program_ok_ends split: option.split coroutine.split connection_end.split)
    (auto simp: program_ok_def)

lemma after_call_ok:
  assumes "program_ok A n p" and "\<And>svc. r = Done svc \<Longrightarrow> program_ok A n (done svc p)"
  shows "program_ok A n (after_call done r p)"
  using assms by (auto simp: after_call_def intro: program_ok_ends split: outcome.split)

lemma program_step_ok:
  assumes "program_ok A n p" and "uses_api A ev" and "n + accepts ev < 2 ^ 31"
  shows "program_ok A (n + accepts ev) (program_step p ev)"
proof (cases "pg_status p = Serving")
  case True
  show ?thesis
  proof (cases ev)
    case (Request i E es)
    then show ?thesis
      using assms True run_connection_ok by (simp add: accepts_def uses_api_def)
  next
    case Poll
    have "program_ok A n (poll_program p)"
      unfolding poll_program_def
      by (rule after_call_ok [OF assms(1)]) (blast intro: program_ok_service [OF assms(1)] Polled)
    then show ?thesis
      using True Poll by (simp add: accepts_def)
  next
    case Signal
    have "program_ok A n (signal_handler p)"
      unfolding signal_handler_def
      by (rule after_call_ok [OF assms(1)]) (auto intro!: program_ok_ends program_ok_service [OF assms(1)] Shut_down)
    then show ?thesis
      using True Signal by (simp add: accepts_def)
  next
    case (Child_exit pid st)
    then show ?thesis
      using program_ok_service [OF assms(1) Child_ended] True by (simp add: accepts_def end_child_def)
  qed (use assms True accept_connection_ok leave_connection_ok in \<open>auto simp: accepts_def intro: program_ok_ends\<close>)
qed (use assms(1) in \<open>auto simp: program_ok_def\<close>)

definition accepted :: "'t event list \<Rightarrow> nat" where
  "accepted evs = sum_list (map accepts evs)"

lemma run_program_ok:
  assumes "program_ok A n p" and "list_all (uses_api A) evs" and "n + accepted evs < 2 ^ 31"
  shows "program_ok A (n + accepted evs) (run_program p evs)"
  using assms
proof (induction evs arbitrary: n p)
  case (Cons ev evs)
  then have "program_ok A (n + accepts ev) (program_step p ev)"
    by (intro program_step_ok) (simp_all add: accepted_def)
  from Cons.IH [OF this] Cons.prems show ?case
    by (simp add: run_program_def accepted_def add.assoc)
qed (simp add: run_program_def accepted_def)



section \<open>How a run ends\<close>

lemma run_program_simps:
  "run_program p [] = p" "run_program p (ev # evs) = run_program (program_step p ev) evs"
  "run_program p (evs @ evs') = run_program (run_program p evs) evs'"
  by (simp_all add: run_program_def)

text \<open>
  C29: one client can end the service: whatever has happened in a run that is still serving, a connection whose first
  byte cannot begin a method ends the program. The parsing error of the socket is not the end of the data, so it
  leaves the coroutine as an exception, which nothing catches on its way out of \<open>main\<close>.
\<close>

theorem one_client_ends_service:
  assumes "list_all (uses_api A) evs" and "accepted evs < 2 ^ 31 - 1"
    and "pg_status (run_program (start_program S args) evs) = Serving" and "\<not> is_tchar b"
  shows "pg_status (run_program (start_program S args)
      (evs @ [Accepted raw, Request (accepted evs) E ((No_error, b # bs) # es), Return (accepted evs)])) = Terminated"
proof -
  define p where "p = run_program (start_program S args) evs"
  obtain s where s: "new_socket default_buffer_size raw = Some s"
    by (simp add: new_socket_def default_buffer_size_def)
  have "pg_counter p = accepted evs" "pg_status p = Serving"
    using run_program_ok [OF start_program_ok [of A S args] assms(1)] assms(2,3) by (simp_all add: p_def program_ok_def)
  then show ?thesis
    using assms(2) malformed_request_escapes [OF s assms(4), of E "[]" "[]" empty_message bs es "pg_service p"]
    by (auto simp: run_program_simps p_def [symmetric] accept_connection_def s run_connection_def leave_connection_def)
qed


section \<open>Instances\<close>

definition plain_surroundings :: surroundings where
  "plain_surroundings =
     \<lparr>sr_options = (\<lambda>args. if args = [] then Some None else None), sr_listens = (\<lambda>port. port = 8080), sr_thread_starts = True,
      sr_children = [7 \<mapsto> Running False]\<rparr>"

lemma plain_start:
  "pg_status (start_program plain_surroundings []) = Serving"
  "pg_service (start_program plain_surroundings []) = initial_service [7 \<mapsto> Running False]"
  by (simp_all add: start_program_def plain_surroundings_def port_asked_def)

definition plain_run :: "ptree event list" where
  "plain_run = [Accepted plain_socket, Accepted idle_socket, Request 0 plain_connection plain_arrivals, Poll, Return 0, Child_exit 7 0, Signal]"


lemma one_client_ends_service_witness:
  "pg_status (run_program (start_program plain_surroundings [])
      ([Child_exit 7 0] @ [Accepted plain_socket, Request 0 plain_connection [(No_error, [0x16, 3, 1])], Return 0])) = Terminated"
proof -
  have "\<not> is_tchar 0x16"
    by code_simp
  then show ?thesis
    using one_client_ends_service [of tree_api "[Child_exit 7 0]" plain_surroundings "[]" "0x16" plain_socket plain_connection "[3, 1]" "[]"]
    by (simp add: run_program_simps accepted_def accepts_def uses_api_def end_child_def plain_start)
qed


end
