(* ===== verification/HttpDate.thy ===== *)
theory HttpDate
  imports HeaderList
begin

text \<open>
  The HTTP dates of \<open>algorithm/header.hpp\<close>: \<open>from_decimal_string\<close>, the three date formats that
  \<open>header_to_ptime\<close> tries, and \<open>to_http_date\<close>. A \<open>std::regex\<close> is the list of its pieces; the
  alternatives of a group are never prefixes of each other and a run of digits is never followed by a
  digit, so that matching needs no backtracking. Boost.DateTime is not part of the repository: its
  types are type variables, its operations the record \<open>time_api\<close>, an argument of the definitions
  that call them; \<open>time_laws\<close> is what the properties rely on, \<open>plain_time\<close> an instance.
\<close>

section \<open>Decimal numbers\<close>

text \<open>
  The loop of \<open>from_decimal_string\<close> from the last digit to the first; \<open>limit\<close> is the greatest number
  of the target type, \<open>None\<close> the exception \<open>std::overflow_error\<close>.
\<close>

fun from_decimal_loop :: "nat \<Rightarrow> bool \<Rightarrow> nat \<Rightarrow> nat \<Rightarrow> bytes \<Rightarrow> nat option" where
  "from_decimal_loop limit overflow ret digit [] = Some ret"
| "from_decimal_loop limit overflow ret digit (c # cs) =
     (let value = unat (c - 0x30);
          added = (if value \<noteq> 0 then
                     (if overflow then None
                      else if limit div digit < value then None
                      else let value = value * digit
                           in if limit - value < ret then None else Some (ret + value))
                   else Some ret)
      in case added of
           None \<Rightarrow> None
         | Some ret \<Rightarrow>
             (if limit div 10 < digit then from_decimal_loop limit True ret digit cs
              else from_decimal_loop limit overflow ret (digit * 10) cs))"

definition from_decimal_string :: "nat \<Rightarrow> bytes \<Rightarrow> nat option" where
  "from_decimal_string limit v = from_decimal_loop limit False 0 1 (rev v)"

text \<open>The greatest numbers of the target types: \<open>unsigned short\<close>, \<open>int32_t\<close>, \<open>std::uintmax_t\<close>.\<close>

definition max_ushort :: nat where
  "max_ushort = 2 ^ 16 - 1"

definition max_int32 :: nat where
  "max_int32 = 2 ^ 31 - 1"

definition max_uintmax :: nat where
  "max_uintmax = 2 ^ 64 - 1"

section \<open>Regular expressions\<close>

datatype pattern =
    Literal bytes
  | One_of "bytes list"
  | Capture_one_of "bytes list"
  | Capture_digits nat
  | Capture_day
  | Capture_digit_run

definition cut :: "nat \<Rightarrow> bytes \<Rightarrow> (bytes \<Rightarrow> bool) \<Rightarrow> (bytes \<times> bytes) option" where
  "cut n v p = (if length (take n v) = n \<and> p (take n v) then Some (take n v, drop n v) else None)"

definition cut_one_of :: "bytes list \<Rightarrow> bytes \<Rightarrow> (bytes \<times> bytes) option" where
  "cut_one_of ws v = (case find (\<lambda>w. take (length w) v = w) ws of None \<Rightarrow> None | Some w \<Rightarrow> Some (w, drop (length w) v))"

text \<open>\<open>std::regex_match\<close>: the captures, if the whole view matches.\<close>

fun regex_match :: "pattern list \<Rightarrow> bytes \<Rightarrow> bytes list option" where
  "regex_match [] v = (if v = [] then Some [] else None)"
| "regex_match (Literal w # ps) v =
     (case cut_one_of [w] v of None \<Rightarrow> None | Some (_, rest) \<Rightarrow> regex_match ps rest)"
| "regex_match (One_of ws # ps) v =
     (case cut_one_of ws v of None \<Rightarrow> None | Some (_, rest) \<Rightarrow> regex_match ps rest)"
| "regex_match (Capture_one_of ws # ps) v =
     (case cut_one_of ws v of None \<Rightarrow> None | Some (w, rest) \<Rightarrow> map_option (Cons w) (regex_match ps rest))"
| "regex_match (Capture_digits n # ps) v =
     (case cut n v (list_all isdigit) of None \<Rightarrow> None | Some (w, rest) \<Rightarrow> map_option (Cons w) (regex_match ps rest))"
| "regex_match (Capture_day # ps) v =
     (case cut 2 v (\<lambda>w. (isdigit (w ! 0) \<or> w ! 0 = 0x20) \<and> isdigit (w ! 1)) of
        None \<Rightarrow> None | Some (w, rest) \<Rightarrow> map_option (Cons w) (regex_match ps rest))"
| "regex_match (Capture_digit_run # ps) v =
     map_option (Cons (takeWhile isdigit v)) (regex_match ps (dropWhile isdigit v))"

definition short_days :: "bytes list" where
  "short_days = map asc [''Mon'', ''Tue'', ''Wed'', ''Thu'', ''Fri'', ''Sat'', ''Sun'']"

definition long_days :: "bytes list" where
  "long_days = map asc [''Monday'', ''Tuesday'', ''Wednesday'', ''Thursday'', ''Friday'', ''Saturday'', ''Sunday'']"

definition month_names :: "bytes list" where
  "month_names = map asc [''Jan'', ''Feb'', ''Mar'', ''Apr'', ''May'', ''Jun'', ''Jul'', ''Aug'', ''Sep'', ''Oct'', ''Nov'', ''Dec'']"

definition rfc1123_regex :: "pattern list" where
  "rfc1123_regex =
     [One_of short_days, Literal (asc '', ''), Capture_digits 2, Literal (asc '' ''), Capture_one_of month_names,
      Literal (asc '' ''), Capture_digits 4, Literal (asc '' ''), Capture_digits 2, Literal (asc '':''), Capture_digits 2,
      Literal (asc '':''), Capture_digits 2, Literal (asc '' ''), Literal (asc ''GMT'')]"

definition rfc1036_regex :: "pattern list" where
  "rfc1036_regex =
     [One_of long_days, Literal (asc '', ''), Capture_digits 2, Literal (asc ''-''), Capture_one_of month_names,
      Literal (asc ''-''), Capture_digits 2, Literal (asc '' ''), Capture_digits 2, Literal (asc '':''), Capture_digits 2,
      Literal (asc '':''), Capture_digits 2, Literal (asc '' ''), Literal (asc ''GMT'')]"

definition asctime_regex :: "pattern list" where
  "asctime_regex =
     [One_of short_days, Literal (asc '' ''), Capture_one_of month_names, Literal (asc '' ''), Capture_day, Literal (asc '' ''),
      Capture_digits 2, Literal (asc '':''), Capture_digits 2, Literal (asc '':''), Capture_digits 2, Literal (asc '' ''),
      Capture_digits 4]"

text \<open>
  \<open>from_submatch_to_month\<close>: the \<open>switch\<close> on the first letter and the tests of the next ones; \<open>None\<close>
  is the default branch, \<open>assert(false)\<close>.
\<close>

definition from_submatch_to_month :: "bytes \<Rightarrow> nat option" where
  "from_submatch_to_month m =
     (let c = m ! 0
      in if c = 0x41 then Some (if m ! 1 = 0x70 then 4 else 8)
         else if c = 0x44 then Some 12
         else if c = 0x46 then Some 2
         else if c = 0x4A then (if m ! 1 = 0x61 then Some 1 else Some (if m ! 2 = 0x6E then 6 else 7))
         else if c = 0x4D then Some (if m ! 2 = 0x72 then 3 else 5)
         else if c = 0x4E then Some 11
         else if c = 0x4F then Some 10
         else if c = 0x53 then Some 9
         else None)"

section \<open>The library of times\<close>

record ('d, 't) time_api =
  make_date :: "nat \<Rightarrow> nat \<Rightarrow> nat \<Rightarrow> 'd option"          \<comment> \<open>\<open>date(year, month, day)\<close>, \<open>None\<close>: throws \<open>out_of_range\<close>\<close>
  make_time :: "'d \<Rightarrow> nat \<times> nat \<times> nat \<Rightarrow> 't"           \<comment> \<open>\<open>ptime(date, time_duration(h, m, s))\<close>\<close>
  time_date :: "'t \<Rightarrow> 'd"                               \<comment> \<open>\<open>date()\<close>\<close>
  time_of_day :: "'t \<Rightarrow> nat \<times> nat \<times> nat"               \<comment> \<open>hours, minutes, seconds of \<open>time_of_day()\<close>\<close>
  day_of_week :: "'d \<Rightarrow> nat"                            \<comment> \<open>from 0, Sunday\<close>
  year_month_day :: "'d \<Rightarrow> nat \<times> nat \<times> nat"
  time_less :: "'t \<Rightarrow> 't \<Rightarrow> bool"

definition time_laws :: "('d, 't) time_api \<Rightarrow> bool" where
  "time_laws A \<longleftrightarrow>
     (\<forall>y m d dt. make_date A y m d = Some dt \<longrightarrow>
        year_month_day A dt = (y, m, d) \<and> y \<le> 9999 \<and> 1 \<le> m \<and> m \<le> 12 \<and> 1 \<le> d \<and> d \<le> 31) \<and>
     (\<forall>dt h m s. h \<le> 23 \<and> m \<le> 59 \<and> s \<le> 59 \<longrightarrow>
        time_date A (make_time A dt (h, m, s)) = dt \<and> time_of_day A (make_time A dt (h, m, s)) = (h, m, s)) \<and>
     (\<forall>dt. day_of_week A dt < 7)"

section \<open>Reading dates\<close>

datatype 'a outcome = Returns 'a | Overflow_error | Assertion_failed

text \<open>
  What the three formats have in common once the captures are there: \<open>None\<close> stands for \<open>false\<close>. The
  assertion of \<open>from_submatch_to_month\<close> and the exceptions of \<open>from_decimal_string\<close> are outcomes of their
  own.
\<close>

definition date_of_captures ::
  "('d, 't) time_api \<Rightarrow> bytes \<Rightarrow> bytes \<Rightarrow> bytes \<Rightarrow> bytes \<Rightarrow> bytes \<Rightarrow> bytes \<Rightarrow> nat \<Rightarrow> 't option outcome" where
  "date_of_captures A year month day hour mins secs century =
     (case (from_decimal_string max_int32 hour, from_decimal_string max_int32 mins, from_decimal_string max_int32 secs) of
        (Some h, Some mi, Some s) \<Rightarrow>
          (if 23 < h \<or> 59 < mi \<or> 60 < s then Returns None
           else case (from_decimal_string max_ushort year, from_decimal_string max_ushort day) of
                  (Some y, Some d) \<Rightarrow>
                    (case from_submatch_to_month month of
                       None \<Rightarrow> Assertion_failed
                     | Some m \<Rightarrow>
                         Returns (map_option (\<lambda>dt. make_time A dt (h, mi, s)) (make_date A (y + century) m d)))
                | _ \<Rightarrow> Overflow_error)
      | _ \<Rightarrow> Overflow_error)"

definition rfc1123 :: "('d, 't) time_api \<Rightarrow> bytes \<Rightarrow> 't option outcome" where
  "rfc1123 A v =
     (case regex_match rfc1123_regex v of
        Some [day, month, year, hour, mins, secs] \<Rightarrow> date_of_captures A year month day hour mins secs 0
      | _ \<Rightarrow> Returns None)"

definition rfc1036 :: "('d, 't) time_api \<Rightarrow> bytes \<Rightarrow> 't option outcome" where
  "rfc1036 A v =
     (case regex_match rfc1036_regex v of
        Some [day, month, year, hour, mins, secs] \<Rightarrow> date_of_captures A year month day hour mins secs 1900
      | _ \<Rightarrow> Returns None)"

definition asctime :: "('d, 't) time_api \<Rightarrow> bytes \<Rightarrow> 't option outcome" where
  "asctime A v =
     (case regex_match asctime_regex v of
        Some [month, day, hour, mins, secs, year] \<Rightarrow>
          date_of_captures A year month (if day ! 0 = 0x20 then tl day else day) hour mins secs 0
      | _ \<Rightarrow> Returns None)"

text \<open>\<open>header_to_ptime\<close>; \<open>Returns None\<close> is \<open>not_a_date_time\<close>.\<close>

definition header_to_ptime :: "('d, 't) time_api \<Rightarrow> bytes \<Rightarrow> 't option outcome" where
  "header_to_ptime A v =
     (case rfc1123 A v of
        Returns None \<Rightarrow>
          (case rfc1036 A v of
             Returns None \<Rightarrow> asctime A v
           | r \<Rightarrow> r)
      | r \<Rightarrow> r)"

section \<open>Writing dates\<close>

text \<open>\<open>append_number<String, N>\<close>: the last \<open>N\<close> digits, from the last one.\<close>

fun append_number :: "nat \<Rightarrow> bytes \<Rightarrow> nat \<Rightarrow> bytes" where
  "append_number 0 string value = string"
| "append_number (Suc n) string value = append_number n string (value div 10) @ [of_nat (0x30 + value mod 10)]"

text \<open>\<open>to_http_date\<close>; \<open>None\<close>: \<open>std::out_of_range\<close>.\<close>

definition to_http_date :: "('d, 't) time_api \<Rightarrow> 't \<Rightarrow> bytes option" where
  "to_http_date A t =
     (let date = time_date A t;
          (year, month, day) = year_month_day A date;
          (hours, minutes, seconds) = time_of_day A t;
          week_day = day_of_week A date
      in if \<not> week_day < 7 then None
         else let ret = [asc ''Sun, '', asc ''Mon, '', asc ''Tue, '', asc ''Wed, '', asc ''Thu, '', asc ''Fri, '', asc ''Sat, ''] ! week_day;
                  ret = append_number 2 ret day @ asc '' ''
              in if \<not> (1 \<le> month \<and> month \<le> 12) then None
                 else let ret = ret @ month_names ! (month - 1) @ asc '' '';
                          ret = append_number 4 ret year @ asc '' '';
                          ret = append_number 2 ret hours @ asc '':'';
                          ret = append_number 2 ret minutes @ asc '':'';
                          ret = append_number 2 ret seconds
                      in Some (ret @ asc '' GMT''))"

section \<open>Decimal numbers are read exactly\<close>

definition decimal_value :: "bytes \<Rightarrow> nat" where
  "decimal_value v = foldl (\<lambda>n c. 10 * n + unat (c - 0x30)) 0 v"

lemma decimal_value_snoc: "decimal_value (v @ [c]) = 10 * decimal_value v + unat (c - 0x30)"
  by (simp add: decimal_value_def)

lemma decimal_value_Nil [simp]: "decimal_value [] = 0"
  by (simp add: decimal_value_def)

lemma from_decimal_loop_exact:
  assumes "ret \<le> limit" and "0 < w" and "\<not> overflow \<Longrightarrow> digit = w" and "overflow \<Longrightarrow> limit < w"
  shows "from_decimal_loop limit overflow ret digit (rev v) =
    (let n = ret + w * decimal_value v in if n \<le> limit then Some n else None)"
  using assms
proof (induction v arbitrary: overflow ret digit w rule: rev_induct)
  case (snoc c v)
  let ?x = "unat (c - 0x30)"
  have split: "w * decimal_value (v @ [c]) = w * ?x + 10 * w * decimal_value v"
    by (simp add: decimal_value_snoc algebra_simps)
  have next_weight: "from_decimal_loop limit (overflow \<or> limit div 10 < digit) r (if limit div 10 < digit then digit else digit * 10) (rev v)
      = (let n = r + 10 * w * decimal_value v in if n \<le> limit then Some n else None)" if "r \<le> limit" for r
  proof (intro snoc.IH)
    show "limit < 10 * w" if "overflow \<or> limit div 10 < digit"
    proof (cases overflow)
      case True
      with snoc.prems(4) show ?thesis
        by linarith
    next
      case False
      with that snoc.prems(3) have "limit div 10 < w"
        by simp
      then show ?thesis
        by linarith
    qed
  qed (use snoc.prems that in auto)
  have rest: "(if limit div 10 < digit then from_decimal_loop limit True r digit (rev v)
      else from_decimal_loop limit overflow r (digit * 10) (rev v))
      = (let n = r + 10 * w * decimal_value v in if n \<le> limit then Some n else None)" if "r \<le> limit" for r
    using next_weight [OF that] by (auto split: if_splits)
  consider "?x = 0" | "?x \<noteq> 0" "overflow" | "?x \<noteq> 0" "\<not> overflow" "limit div w < ?x"
    | "?x \<noteq> 0" "\<not> overflow" "\<not> limit div w < ?x"
    by blast
  then show ?case
  proof cases
    case 1
    then show ?thesis
      using rest [OF snoc.prems(1)] by (simp add: decimal_value_snoc mult.assoc mult.left_commute)
  next
    case 2
    have "w \<le> w * ?x"
      using 2 by simp
    then have "limit < w * ?x"
      using snoc.prems(4) [OF 2(2)] by linarith
    then show ?thesis
      unfolding split using 2 by (simp add: Let_def)
  next
    case 3
    then have "limit < w * ?x"
      using snoc.prems(2) by (simp add: div_less_iff_less_mult mult.commute)
    then show ?thesis
      unfolding split using 3 snoc.prems(3) by (simp add: Let_def)
  next
    case 4
    then have "w * ?x \<le> limit"
      using snoc.prems(2) by (simp add: not_less less_eq_div_iff_mult_less_eq mult.commute)
    then show ?thesis
      unfolding split using 4 snoc.prems(3) rest [of "ret + w * ?x"] by (auto simp: Let_def mult.commute)
  qed
qed simp

text \<open>
  \<open>from_decimal_string\<close> returns the number the digits denote exactly when the target type can hold it,
  and throws \<open>overflow_error\<close> otherwise; no intermediate value of the loop overflows the type, however many
  leading zeros there are.
\<close>

theorem from_decimal_string_exact:
  "from_decimal_string limit v = (if decimal_value v \<le> limit then Some (decimal_value v) else None)"
  using from_decimal_loop_exact [of 0 limit 1 False 1 v] by (simp add: from_decimal_string_def Let_def)

lemma decimal_fits: "decimal_value v \<le> limit \<Longrightarrow> from_decimal_string limit v = Some (decimal_value v)"
  using from_decimal_loop_exact [of 0 limit 1 False 1 v] by (simp add: from_decimal_string_def Let_def)


section \<open>What a regular expression captures\<close>

fun captures :: "pattern \<Rightarrow> bool" where
  "captures (Literal w) = False"
| "captures (One_of ws) = False"
| "captures _ = True"

fun capture_ok :: "pattern \<Rightarrow> bytes \<Rightarrow> bool" where
  "capture_ok (Capture_one_of ws) w = (w \<in> set ws)"
| "capture_ok (Capture_digits n) w = (length w = n \<and> list_all isdigit w)"
| "capture_ok Capture_day w = (length w = 2 \<and> (isdigit (w ! 0) \<or> w ! 0 = 0x20) \<and> isdigit (w ! 1))"
| "capture_ok Capture_digit_run w = list_all isdigit w"
| "capture_ok _ w = True"

lemma cut_one_ofD: "cut_one_of ws v = Some (w, rest) \<Longrightarrow> w \<in> set ws \<and> v = w @ rest"
proof -
  assume "cut_one_of ws v = Some (w, rest)"
  then have f: "find (\<lambda>w. take (length w) v = w) ws = Some w" and r: "rest = drop (length w) v"
    by (auto simp: cut_one_of_def split: option.splits)
  from f have "w \<in> set ws" "take (length w) v = w"
    by (auto simp: find_Some_iff)
  then show ?thesis
    unfolding r by (metis append_take_drop_id)
qed

lemma cutD: "cut n v p = Some (w, rest) \<Longrightarrow> length w = n \<and> p w \<and> v = w @ rest"
  by (auto simp: cut_def split: if_splits)

lemma regex_captures: "regex_match ps v = Some cs \<Longrightarrow> list_all2 capture_ok (filter captures ps) cs"
  by (induction ps v arbitrary: cs rule: regex_match.induct)
     (auto split: if_splits option.splits dest!: cut_one_ofD cutD simp: list_all_iff dest: set_takeWhileD)

lemma cut_one_of_same_length:
  assumes "w \<in> set ws" and "list_all (\<lambda>u. length u = length w) ws"
  shows "cut_one_of ws (w @ rest) = Some (w, rest)"
proof -
  have "find (\<lambda>u. take (length u) (w @ rest) = u) ws = Some w"
    using assms by (induction ws) auto
  then show ?thesis
    by (simp add: cut_one_of_def)
qed

lemma regex_match_literal: "regex_match (Literal w # ps) (w @ rest) = regex_match ps rest"
  by (simp add: cut_one_of_def)

lemma regex_match_one_of:
  "w \<in> set ws \<Longrightarrow> list_all (\<lambda>u. length u = length w) ws \<Longrightarrow> regex_match (One_of ws # ps) (w @ rest) = regex_match ps rest"
  by (simp add: cut_one_of_same_length)

lemma regex_match_capture_one_of:
  "w \<in> set ws \<Longrightarrow> list_all (\<lambda>u. length u = length w) ws \<Longrightarrow>
   regex_match (Capture_one_of ws # ps) (w @ rest) = map_option (Cons w) (regex_match ps rest)"
  by (simp add: cut_one_of_same_length)

lemma regex_match_digits:
  "length w = n \<Longrightarrow> list_all isdigit w \<Longrightarrow>
   regex_match (Capture_digits n # ps) (w @ rest) = map_option (Cons w) (regex_match ps rest)"
  by (simp add: cut_def)

lemma isdigit_value: "isdigit c \<Longrightarrow> unat (c - 0x30) \<le> 9"
proof -
  assume "isdigit c"
  then have "0x30 \<le> c" "c \<le> 0x39"
    by (auto simp: isdigit_def)
  then show ?thesis
    by (simp add: unat_sub word_le_nat_alt)
qed

lemma decimal_value_bound: "list_all isdigit v \<Longrightarrow> decimal_value v < 10 ^ length v"
proof (induction v rule: rev_induct)
  case (snoc c v)
  then have "decimal_value v < 10 ^ length v" "unat (c - 0x30) \<le> 9"
    by (simp_all add: isdigit_value)
  then have "10 * decimal_value v + unat (c - 0x30) < 10 * 10 ^ length v"
    by linarith
  then show ?case
    by (simp only: decimal_value_snoc length_append_singleton power_Suc)
qed simp


section \<open>Every header value is read\<close>

definition calendar_time :: "('d, 't) time_api \<Rightarrow> 't \<Rightarrow> bool" where
  "calendar_time A t \<longleftrightarrow>
     (\<exists>y m d dt h mi s. make_date A y m d = Some dt \<and> t = make_time A dt (h, mi, s) \<and> h \<le> 23 \<and> mi \<le> 59 \<and> s \<le> 60)"

lemma calendar_timeI:
  "\<lbrakk>make_date A y m d = Some dt; h \<le> 23; mi \<le> 59; s \<le> 60\<rbrakk> \<Longrightarrow> calendar_time A (make_time A dt (h, mi, s))"
  unfolding calendar_time_def by blast

lemma month_of_name:
  assumes "w \<in> set month_names"
  shows "\<exists>m. from_submatch_to_month w = Some m"
proof -
  have "list_all (\<lambda>w. from_submatch_to_month w \<noteq> None) month_names"
    by code_simp
  with assms show ?thesis
    by (auto simp: list_all_iff)
qed

lemma digits_fit:
  assumes "list_all isdigit v" and "length v \<le> 4" and "9999 \<le> limit"
  shows "from_decimal_string limit v = Some (decimal_value v)"
proof -
  have "decimal_value v < 10 ^ length v"
    using assms(1) by (rule decimal_value_bound)
  also have "\<dots> \<le> 10 ^ 4"
    using assms(2) by (intro power_increasing) simp_all
  finally show ?thesis
    using assms(3) by (intro decimal_fits) simp
qed

lemma date_of_captures_returns:
  assumes "month \<in> set month_names"
    and "list_all (\<lambda>v. list_all isdigit v \<and> length v \<le> 4) [year, day, hour, mins, secs]"
  shows "\<exists>r. date_of_captures A year month day hour mins secs century = Returns r
    \<and> (\<forall>t. r = Some t \<longrightarrow> calendar_time A t)"
proof -
  obtain m where m: "from_submatch_to_month month = Some m"
    using month_of_name [OF assms(1)] by blast
  have fits: "from_decimal_string max_int32 v = Some (decimal_value v)" "from_decimal_string max_ushort v = Some (decimal_value v)"
    if "v \<in> set [year, day, hour, mins, secs]" for v
    using assms(2) that by (auto simp: list_all_iff max_int32_def max_ushort_def intro!: digits_fit)
  show ?thesis
    unfolding date_of_captures_def
    by (auto simp: fits m not_less intro: calendar_timeI)
qed

lemma rfc1123_returns: "\<exists>r. rfc1123 A v = Returns r \<and> (\<forall>t. r = Some t \<longrightarrow> calendar_time A t)"
proof (cases "regex_match rfc1123_regex v")
  case (Some cs)
  from regex_captures [OF Some] obtain day month year hour mins secs
    where cs: "cs = [day, month, year, hour, mins, secs]" "month \<in> set month_names"
      "list_all (\<lambda>v. list_all isdigit v \<and> length v \<le> 4) [year, day, hour, mins, secs]"
    by (auto simp: rfc1123_regex_def list_all2_Cons1)
  show ?thesis
    using date_of_captures_returns [OF cs(2,3)] by (simp add: rfc1123_def Some cs(1))
qed (simp add: rfc1123_def)

lemma rfc1036_returns: "\<exists>r. rfc1036 A v = Returns r \<and> (\<forall>t. r = Some t \<longrightarrow> calendar_time A t)"
proof (cases "regex_match rfc1036_regex v")
  case (Some cs)
  from regex_captures [OF Some] obtain day month year hour mins secs
    where cs: "cs = [day, month, year, hour, mins, secs]" "month \<in> set month_names"
      "list_all (\<lambda>v. list_all isdigit v \<and> length v \<le> 4) [year, day, hour, mins, secs]"
    by (auto simp: rfc1036_regex_def list_all2_Cons1)
  show ?thesis
    using date_of_captures_returns [OF cs(2,3)] by (simp add: rfc1036_def Some cs(1))
qed (simp add: rfc1036_def)

lemma asctime_returns: "\<exists>r. asctime A v = Returns r \<and> (\<forall>t. r = Some t \<longrightarrow> calendar_time A t)"
proof (cases "regex_match asctime_regex v")
  case (Some cs)
  from regex_captures [OF Some] obtain day month year hour mins secs
    where cs: "cs = [month, day, hour, mins, secs, year]" "month \<in> set month_names"
      "length day = 2" "isdigit (day ! 0) \<or> day ! 0 = 0x20" "isdigit (day ! 1)"
      "list_all (\<lambda>v. list_all isdigit v \<and> length v \<le> 4) [year, hour, mins, secs]"
    by (auto simp: asctime_regex_def list_all2_Cons1)
  let ?day = "if day ! 0 = 0x20 then tl day else day"
  obtain d e where "day = [d, e]"
    using cs(3) by (auto simp: length_Suc_conv numeral_2_eq_2)
  then have "list_all (\<lambda>v. list_all isdigit v \<and> length v \<le> 4) [year, ?day, hour, mins, secs]"
    using cs(4-6) by auto
  from date_of_captures_returns [OF cs(2) this, of A 0] show ?thesis
    by (simp add: asctime_def Some cs(1))
qed (simp add: asctime_def)

text \<open>
  \<open>header_to_ptime\<close> is total: whatever bytes a header carries, no conversion overflows and the month
  assertion never fails; what it returns is \<open>not_a_date_time\<close> or a time of a date the calendar has, with the
  hour, minute and second in range.
\<close>

theorem header_to_ptime_total:
  "\<exists>r. header_to_ptime A v = Returns r \<and> (case r of None \<Rightarrow> True | Some t \<Rightarrow> calendar_time A t)"
proof -
  obtain r1 r2 r3 where r: "rfc1123 A v = Returns r1" "rfc1036 A v = Returns r2" "asctime A v = Returns r3"
    and c: "\<forall>t. r1 = Some t \<longrightarrow> calendar_time A t" "\<forall>t. r2 = Some t \<longrightarrow> calendar_time A t" "\<forall>t. r3 = Some t \<longrightarrow> calendar_time A t"
    using rfc1123_returns [of A v] rfc1036_returns [of A v] asctime_returns [of A v] by blast
  show ?thesis
    using c by (cases r1; cases r2; cases r3) (simp_all add: header_to_ptime_def r)
qed


section \<open>Dates are read back\<close>

lemma list_all_elem: "list_all P xs \<Longrightarrow> x \<in> set xs \<Longrightarrow> P x"
  by (simp add: list_all_iff)

lemma append_number_Nil: "append_number n s v = s @ append_number n [] v"
proof (induction n arbitrary: s v)
  case (Suc n)
  show ?case
    by (simp only: append_number.simps Suc.IH [of s "v div 10"] append_assoc)
qed simp

lemma digit_of_nat: "d < 10 \<Longrightarrow> unat (of_nat (0x30 + d) - 0x30 :: byte) = d \<and> isdigit (of_nat (0x30 + d))"
proof -
  assume "d < 10"
  then have "d \<in> set [0..<10]"
    by simp
  then show ?thesis
    by (auto simp: upt_rec isdigit_def)
qed

lemma append_number_digits:
  "length (append_number n [] v) = n \<and> list_all isdigit (append_number n [] v)
   \<and> decimal_value (append_number n [] v) = v mod 10 ^ n"
proof (induction n arbitrary: v)
  case (Suc n)
  have "v mod 10 ^ Suc n = 10 * (v div 10 mod 10 ^ n) + v mod 10"
    by (simp add: mod_mult2_eq)
  with Suc [of "v div 10"] digit_of_nat [of "v mod 10"] show ?case
    by (simp add: decimal_value_snoc)
qed simp

lemma month_names_facts:
  assumes "1 \<le> m" and "m \<le> 12"
  shows "month_names ! (m - 1) \<in> set month_names \<and> from_submatch_to_month (month_names ! (m - 1)) = Some m
    \<and> list_all (\<lambda>u. length u = length (month_names ! (m - 1))) month_names \<and> length (month_names ! (m - 1)) = 3"
proof -
  have l: "length month_names = 12"
    by (simp add: month_names_def)
  then have i: "month_names ! (m - 1) \<in> set month_names"
    using assms by simp
  have "map from_submatch_to_month month_names = map Some [1..<13]"
    by code_simp
  then have "map from_submatch_to_month month_names ! (m - 1) = map Some [1..<13] ! (m - 1)"
    by (rule arg_cong)
  then have n: "from_submatch_to_month (month_names ! (m - 1)) = Some m"
    using assms l by (simp del: upt_conv_Cons_Cons)
  have three: "list_all (\<lambda>u. length u = 3) month_names"
    by (simp add: month_names_def)
  then have "length (month_names ! (m - 1)) = 3"
    using i by (rule list_all_elem)
  then show ?thesis
    using i n three by (simp only: simp_thms)
qed

definition day_prefix :: "nat \<Rightarrow> bytes" where
  "day_prefix n = map asc [''Sun'', ''Mon'', ''Tue'', ''Wed'', ''Thu'', ''Fri'', ''Sat''] ! n"

lemma day_prefix_facts:
  assumes "n < 7"
  shows "day_prefix n \<in> set short_days \<and> list_all (\<lambda>u. length u = length (day_prefix n)) short_days \<and> length (day_prefix n) = 3
    \<and> [asc ''Sun, '', asc ''Mon, '', asc ''Tue, '', asc ''Wed, '', asc ''Thu, '', asc ''Fri, '', asc ''Sat, ''] ! n
      = day_prefix n @ asc '', ''"
proof -
  have "n \<in> {0, 1, 2, 3, 4, 5, 6}"
    using assms by auto
  then show ?thesis
    by (elim insertE emptyE) (simp_all add: day_prefix_def short_days_def asc_def)
qed

text \<open>The text of a date, as the regular expression of \<open>rfc1123\<close> takes it apart.\<close>

definition date_text :: "nat \<Rightarrow> nat \<Rightarrow> nat \<Rightarrow> nat \<Rightarrow> nat \<Rightarrow> nat \<Rightarrow> nat \<Rightarrow> bytes" where
  "date_text w y m d h mi s =
     day_prefix w @ asc '', '' @ append_number 2 [] d @ asc '' '' @ month_names ! (m - 1) @ asc '' ''
     @ append_number 4 [] y @ asc '' '' @ append_number 2 [] h @ asc '':'' @ append_number 2 [] mi @ asc '':''
     @ append_number 2 [] s @ asc '' '' @ asc ''GMT''"

lemma to_http_date_text:
  assumes "time_laws A" and "make_date A y m d = Some dt" and "h \<le> 23" and "mi \<le> 59" and "s \<le> 59"
  shows "to_http_date A (make_time A dt (h, mi, s)) = Some (date_text (day_of_week A dt) y m d h mi s)"
proof -
  have t: "time_date A (make_time A dt (h, mi, s)) = dt" "time_of_day A (make_time A dt (h, mi, s)) = (h, mi, s)"
    and d: "year_month_day A dt = (y, m, d)" "1 \<le> m" "m \<le> 12" and w: "day_of_week A dt < 7"
    using assms by (auto simp: time_laws_def)
  have gmt: "asc '' GMT'' = asc '' '' @ asc ''GMT''"
    by (simp add: asc_def)
  show ?thesis
    using day_prefix_facts [OF w] d(2,3) w
    by (simp add: to_http_date_def Let_def t d(1) date_text_def gmt append_number_Nil [of _ "_ @ _"] append_number_Nil [of _ "_ # _"]
        del: append_number.simps)
qed

lemma rfc1123_text:
  assumes "w < 7" and "1 \<le> m" and "m \<le> 12"
  shows "regex_match rfc1123_regex (date_text w y m d h mi s) =
    Some [append_number 2 [] d, month_names ! (m - 1), append_number 4 [] y, append_number 2 [] h, append_number 2 [] mi, append_number 2 [] s]"
proof -
  have gmt_end: "regex_match [Literal (asc ''GMT'')] (asc ''GMT'') = Some []"
    by code_simp
  note day = day_prefix_facts [OF assms(1)] and month = month_names_facts [OF assms(2,3)]
  show ?thesis
    unfolding rfc1123_regex_def date_text_def
    by (simp only: regex_match_literal regex_match_one_of [OF day [THEN conjunct1] day [THEN conjunct2, THEN conjunct1]]
        regex_match_capture_one_of [OF month [THEN conjunct1] month [THEN conjunct2, THEN conjunct2, THEN conjunct1]]
        regex_match_digits append_number_digits gmt_end option.map)
qed

lemma http_date_read_back:
  assumes "time_laws A" and "make_date A y m d = Some dt" and "h \<le> 23" and "mi \<le> 59" and "s \<le> 59"
  shows "\<exists>text. to_http_date A (make_time A dt (h, mi, s)) = Some text \<and> length text = 29
    \<and> header_to_ptime A text = Returns (Some (make_time A dt (h, mi, s)))"
proof -
  let ?w = "day_of_week A dt"
  have m: "1 \<le> m" "m \<le> 12" and w: "?w < 7" and small: "y < 10 ^ 4" "d < 10 ^ 2" "h < 10 ^ 2" "mi < 10 ^ 2" "s < 10 ^ 2"
    using assms by (auto simp: time_laws_def less_Suc_eq_le dest!: spec)
  have val: "decimal_value (append_number n [] v) = v" if "v < 10 ^ n" for n v
    using append_number_digits [of n v] that by simp
  have fits: "from_decimal_string limit (append_number n [] v) = Some v" if "v < 10 ^ n" "n \<le> 4" "9999 \<le> limit" for n v limit
    using digits_fit [of "append_number n [] v" limit] append_number_digits [of n v] that by (simp add: val)
  have "date_of_captures A (append_number 4 [] y) (month_names ! (m - 1)) (append_number 2 [] d) (append_number 2 [] h)
      (append_number 2 [] mi) (append_number 2 [] s) 0 = Returns (Some (make_time A dt (h, mi, s)))"
    using assms small month_names_facts [OF m]
    by (simp add: date_of_captures_def fits max_int32_def max_ushort_def del: append_number.simps)
  then have "header_to_ptime A (date_text ?w y m d h mi s) = Returns (Some (make_time A dt (h, mi, s)))"
    by (simp add: header_to_ptime_def rfc1123_def rfc1123_text [OF w m])
  moreover have "length (date_text ?w y m d h mi s) = 29"
    using day_prefix_facts [OF w] month_names_facts [OF m] append_number_digits
    by (simp add: date_text_def del: append_number.simps)
  ultimately show ?thesis
    using to_http_date_text [OF assms] by blast
qed


text \<open>
  C26: a date that \<open>to_http_date\<close> writes is read back by \<open>header_to_ptime\<close>: for every date of the calendar and
  every second of it the text has 29 bytes and denotes the same time.
\<close>

theorem http_date_roundtrip:
  assumes "time_laws A" and "make_date A y m d = Some dt" and "h \<le> 23" and "mi \<le> 59" and "s \<le> 59"
  shows "\<exists>text. to_http_date A (make_time A dt (h, mi, s)) = Some text \<and> length text = 29
    \<and> header_to_ptime A text = Returns (Some (make_time A dt (h, mi, s)))"
  using assms by (rule http_date_read_back)

section \<open>A library of times\<close>

text \<open>Dates of the Gregorian calendar from 1400 to 9999 and times of day that are not normalised.\<close>

type_synonym plain_date = "nat \<times> nat \<times> nat"

definition days_of_month :: "nat \<Rightarrow> nat \<Rightarrow> nat" where
  "days_of_month y m =
     (if m = 2 then (if y mod 4 = 0 \<and> (y mod 100 \<noteq> 0 \<or> y mod 400 = 0) then 29 else 28)
      else if m \<in> {4, 6, 9, 11} then 30 else 31)"

definition plain_day_of_week :: "plain_date \<Rightarrow> nat" where
  "plain_day_of_week = (\<lambda>(y, m, d).
     let y' = (if m < 3 then y - 1 else y)
     in (y' + y' div 4 + y' div 400 + [0, 3, 2, 5, 0, 3, 5, 1, 4, 6, 2, 4] ! (m - 1) + d - y' div 100) mod 7)"

definition plain_time :: "(plain_date, plain_date \<times> nat \<times> nat \<times> nat) time_api" where
  "plain_time =
     \<lparr>make_date = (\<lambda>y m d. if 1400 \<le> y \<and> y \<le> 9999 \<and> 1 \<le> m \<and> m \<le> 12 \<and> 1 \<le> d \<and> d \<le> days_of_month y m then Some (y, m, d) else None),
      make_time = (\<lambda>dt hms. (dt, hms)),
      time_date = fst,
      time_of_day = snd,
      day_of_week = plain_day_of_week,
      year_month_day = (\<lambda>dt. dt),
      time_less = (\<lambda>((y, m, d), h, mi, s) ((y', m', d'), h', mi', s'). [y, m, d, h, mi, s] < [y', m', d', h', mi', s'])\<rparr>"

lemma plain_time_laws: "time_laws plain_time"
  by (auto simp: time_laws_def plain_time_def plain_day_of_week_def Let_def days_of_month_def split: if_splits)

lemma append_number_2: "append_number 2 s v = s @ map (\<lambda>d. of_nat (0x30 + d)) [v div 10 mod 10, v mod 10]"
  by (simp add: numeral_2_eq_2)

lemma append_number_4:
  "append_number 4 s v = s @ map (\<lambda>d. of_nat (0x30 + d)) [v div 10 div 10 div 10 mod 10, v div 10 div 10 mod 10, v div 10 mod 10, v mod 10]"
proof -
  have "(4 :: nat) = Suc (Suc (Suc (Suc 0)))"
    by simp
  then show ?thesis
    by (simp only: append_number.simps append_assoc list.map append_Cons append_Nil)
qed

lemma http_date_roundtrip_witness:
  "to_http_date plain_time ((1994, 11, 6), 8, 49, 37) = Some (asc ''Sun, 06 Nov 1994 08:49:37 GMT'')
   \<and> header_to_ptime plain_time (asc ''Sun, 06 Nov 1994 08:49:37 GMT'') = Returns (Some ((1994, 11, 6), 8, 49, 37))"
proof -
  have t: "to_http_date plain_time ((1994, 11, 6), 8, 49, 37) = Some (asc ''Sun, 06 Nov 1994 08:49:37 GMT'')"
    by (simp add: to_http_date_def plain_time_def plain_day_of_week_def month_names_def asc_def append_number_2 append_number_4)
  have "make_date plain_time 1994 11 6 = Some (1994, 11, 6)"
    by (simp add: plain_time_def days_of_month_def)
  moreover have "make_time plain_time dt hms = (dt, hms)" for dt hms
    by (simp add: plain_time_def)
  ultimately show ?thesis
    using http_date_roundtrip [OF plain_time_laws, of 1994 11 6 "(1994, 11, 6)" 8 49 37] t by simp
qed

end
