(* ===== verification/ByteRange.thy ===== *)
theory ByteRange
  imports HttpDate
begin

text \<open>
  The \<open>range\<close> header of \<open>file_server.hpp\<close>: \<open>is_valid_range\<close>, which reads it into a vector of pairs of
  first and last position, \<open>to_cpp_range\<close> and \<open>safe_add\<close>. The numbers are \<open>std::uintmax_t\<close>, words of 64
  bits. \<open>range_of\<close> says in unbounded numbers what a range denotes; the theorem is that the code, with
  its overflow checks, computes it.
\<close>

type_synonym byte_range = "u64 \<times> u64"

definition insert_new_range :: "byte_range list \<Rightarrow> byte_range \<Rightarrow> byte_range list" where
  "insert_new_range range_set r = range_set @ [r]"

text \<open>\<open>from_decimal_submatch<std::uintmax_t>\<close>; \<open>None\<close>: \<open>std::overflow_error\<close>.\<close>

definition from_decimal_submatch :: "bytes \<Rightarrow> u64 option" where
  "from_decimal_submatch v = map_option of_nat (from_decimal_string max_uintmax v)"

text \<open>The function \<open>fail\<close> of \<open>is_valid_range\<close>, with the vector it accumulates into.\<close>

definition read_range :: "u64 \<Rightarrow> byte_range list \<Rightarrow> bytes \<Rightarrow> byte_range list \<times> bool" where
  "read_range file_size range_set v =
     (case regex_match [Capture_digit_run, Literal (asc ''-''), Capture_digit_run] v of
        Some [first_byte_pos, last_byte_pos] \<Rightarrow>
          (if length first_byte_pos = 0 \<and> length last_byte_pos = 0 then (range_set, True)
           else if length first_byte_pos \<noteq> 0 then
             (case from_decimal_submatch first_byte_pos of
                None \<Rightarrow> (range_set, False)
              | Some a \<Rightarrow>
                  (if a \<ge> file_size then (range_set, False)
                   else if length last_byte_pos \<noteq> 0 then
                     (case from_decimal_submatch last_byte_pos of
                        Some b \<Rightarrow>
                          (if b < a then (range_set, False)
                           else (insert_new_range range_set (a, if b > file_size - 1 then file_size - 1 else b), False))
                      | None \<Rightarrow> (insert_new_range range_set (a, file_size - 1), False))
                   else (insert_new_range range_set (a, file_size - 1), False)))
           else
             (case from_decimal_submatch last_byte_pos of
                Some n \<Rightarrow>
                  (if n = 0 then (range_set, False)
                   else (insert_new_range range_set (file_size - (if n > file_size then file_size else n), file_size - 1), False))
              | None \<Rightarrow> (insert_new_range range_set (0, file_size - 1), False)))
      | _ \<Rightarrow> (range_set, True))"

definition is_valid_range :: "bytes \<Rightarrow> u64 \<Rightarrow> byte_range list \<Rightarrow> byte_range list \<times> bool" where
  "is_valid_range v file_size range_set =
     (if length v \<le> 6 then (range_set, False)
      else if take 6 v \<noteq> asc ''bytes='' then (range_set, False)
      else let (range_set, failed) = any_of_state (read_range file_size) range_set (drop 6 v)
           in if failed then (range_set, False) else (range_set, range_set \<noteq> []))"

definition to_cpp_range :: "byte_range \<Rightarrow> byte_range" where
  "to_cpp_range r = (fst r, snd r - fst r + 1)"

text \<open>\<open>None\<close>: \<open>std::overflow_error\<close>.\<close>

definition safe_add :: "u64 \<Rightarrow> u64 \<Rightarrow> u64 option" where
  "safe_add a b = (if - 1 - a < b then None else Some (a + b))"

section \<open>What a range denotes\<close>

text \<open>
  \<open>None\<close>: not a range; \<open>Some None\<close>: no byte of the file is in it; otherwise the first and the last
  position.
\<close>

definition range_of :: "nat \<Rightarrow> bytes \<Rightarrow> (nat \<times> nat) option option" where
  "range_of filesize v =
     (let a = takeWhile isdigit v; rest = dropWhile isdigit v; b = tl rest
      in if rest = [] \<or> hd rest \<noteq> 0x2D \<or> \<not> list_all isdigit b \<or> (a = [] \<and> b = []) then None
         else Some (let first = (if a \<noteq> [] then decimal_value a else filesize - min filesize (decimal_value b));
                        final = (if a \<noteq> [] \<and> b \<noteq> [] then decimal_value b else filesize - 1)
                    in if first < filesize \<and> first \<le> final then Some (first, min final (filesize - 1)) else None))"

abbreviation positions :: "byte_range \<Rightarrow> nat \<times> nat" where
  "positions r \<equiv> (unat (fst r), unat (snd r))"

lemma from_decimal_submatch_exact:
  "from_decimal_submatch v = (if decimal_value v < 2 ^ 64 then Some (of_nat (decimal_value v)) else None)"
proof (cases "decimal_value v < 2 ^ 64")
  case True
  then show ?thesis
    by (simp add: from_decimal_submatch_def max_uintmax_def decimal_fits)
next
  case False
  then have "from_decimal_string max_uintmax v = None"
    using from_decimal_loop_exact [of 0 max_uintmax 1 False 1 v]
    by (simp add: from_decimal_string_def Let_def max_uintmax_def)
  with False show ?thesis
    by (simp add: from_decimal_submatch_def)
qed

lemma from_decimal_submatch_value:
  "from_decimal_submatch v = Some n \<Longrightarrow> unat n = decimal_value v"
  "from_decimal_submatch v = None \<Longrightarrow> 2 ^ 64 \<le> decimal_value v"
  by (auto simp: from_decimal_submatch_exact unat_of_nat split: if_splits)

lemma digit_runs:
  "regex_match [Capture_digit_run, Literal (asc ''-''), Capture_digit_run] v =
     (let a = takeWhile isdigit v; rest = dropWhile isdigit v; b = tl rest
      in if rest = [] \<or> hd rest \<noteq> 0x2D \<or> \<not> list_all isdigit b then None else Some [a, b])"
proof -
  have run: "regex_match [Capture_digit_run] b = (if list_all isdigit b then Some [b] else None)" for b
  proof (cases "list_all isdigit b")
    case True
    then have "takeWhile isdigit b = b" "dropWhile isdigit b = []"
      by (simp_all add: list_all_iff takeWhile_eq_all_conv dropWhile_eq_Nil_conv)
    with True show ?thesis
      by simp
  next
    case False
    then have "dropWhile isdigit b \<noteq> []"
      by (simp add: list_all_iff dropWhile_eq_Nil_conv)
    with False show ?thesis
      by simp
  qed
  have dash: "cut_one_of [asc ''-''] w = (if w = [] \<or> hd w \<noteq> 0x2D then None else Some (asc ''-'', tl w))" for w
    by (cases w) (simp_all add: cut_one_of_def asc_def)
  show ?thesis
  proof (cases "dropWhile isdigit v = [] \<or> hd (dropWhile isdigit v) \<noteq> 0x2D")
    case True
    then show ?thesis
      by (auto simp: dash Let_def simp del: regex_match.simps(1))
  next
    case False
    then show ?thesis
      by (simp only: regex_match.simps(2,7) dash Let_def) (simp add: run del: regex_match.simps)
  qed
qed

declare regex_match.simps [simp del]

lemma read_range_correct:
  assumes "file_size \<noteq> 0"
  shows "case range_of (unat file_size) v of
      None \<Rightarrow> read_range file_size rs v = (rs, True)
    | Some None \<Rightarrow> read_range file_size rs v = (rs, False)
    | Some (Some r) \<Rightarrow> \<exists>w. read_range file_size rs v = (rs @ [w], False) \<and> positions w = r"
proof -
  let ?a = "takeWhile isdigit v" and ?rest = "dropWhile isdigit v"
  let ?b = "tl ?rest"
  obtain N where N: "unat file_size = N" "unat (file_size - 1) = N - 1" "0 < N" "N < 2 ^ 64"
    using assms unsigned_less [of file_size] by (simp add: unat_minus_one unat_gt_0)
  show ?thesis
  proof (cases "?rest = [] \<or> hd ?rest \<noteq> 0x2D \<or> \<not> list_all isdigit ?b \<or> (?a = [] \<and> ?b = [])")
    case True
    then show ?thesis
      by (auto simp: range_of_def read_range_def digit_runs Let_def)
  next
    case False
    then obtain b where b: "?rest = 0x2D # b" and wf: "list_all isdigit b" "?a \<noteq> [] \<or> b \<noteq> []"
      by (cases ?rest) auto
    show ?thesis
    proof (cases "?a = []")
      case True
      show ?thesis
      proof (cases "from_decimal_submatch b")
        case None
        then show ?thesis
          using True b wf N from_decimal_submatch_value(2) [OF None]
          by (auto simp: range_of_def read_range_def digit_runs Let_def insert_new_range_def min_def)
      next
        case (Some x)
        then have x: "unat x = decimal_value b" "x = 0 \<longleftrightarrow> decimal_value b = 0"
          using from_decimal_submatch_value(1) [OF Some] by (simp_all flip: unat_eq_0)
        show ?thesis
          using True b wf N x Some
          by (auto simp: range_of_def read_range_def digit_runs Let_def insert_new_range_def unat_sub word_less_nat_alt
              word_le_nat_alt min_def)
      qed
    next
      case a: False
      show ?thesis
      proof (cases "from_decimal_submatch ?a")
        case None
        then show ?thesis
          using b wf a N from_decimal_submatch_value(2) [OF None]
          by (auto simp: range_of_def read_range_def digit_runs Let_def)
      next
        case (Some x)
        then show ?thesis
          using b wf a N from_decimal_submatch_value(1) [OF Some]
          by (cases "from_decimal_submatch b")
             (auto simp: range_of_def read_range_def digit_runs Let_def insert_new_range_def word_less_nat_alt
                word_le_nat_alt min_def dest!: from_decimal_submatch_value)
      qed
    qed
  qed
qed


section \<open>The whole header\<close>

definition satisfiable :: "nat \<Rightarrow> bytes list \<Rightarrow> (nat \<times> nat) list" where
  "satisfiable filesize es = List.map_filter (\<lambda>e. case range_of filesize e of None \<Rightarrow> None | Some r \<Rightarrow> r) es"

lemma visit_malformed:
  assumes "file_size \<noteq> 0"
  shows "\<exists>e \<in> set es. range_of (unat file_size) e = None \<Longrightarrow> snd (visit (read_range file_size) rs es)"
proof (induction es arbitrary: rs)
  case (Cons e es)
  show ?case
    using read_range_correct [OF assms, where v = e and rs = rs] Cons
    by (auto split: option.splits)
qed simp

lemma visit_ranges:
  assumes "file_size \<noteq> 0"
  shows "list_all (\<lambda>e. range_of (unat file_size) e \<noteq> None) es \<Longrightarrow>
    \<exists>ws. visit (read_range file_size) rs es = (rs @ ws, False) \<and> map positions ws = satisfiable (unat file_size) es"
proof (induction es arbitrary: rs)
  case (Cons e es)
  note one = read_range_correct [OF assms, where v = e and rs = rs]
  from Cons.prems obtain r where r: "range_of (unat file_size) e = Some r"
    and es: "list_all (\<lambda>e. range_of (unat file_size) e \<noteq> None) es"
    by auto
  show ?case
  proof (cases r)
    case None
    with one r Cons.IH [OF es, of rs] show ?thesis
      by (auto simp: satisfiable_def List.map_filter_simps)
  next
    case (Some p)
    with one r obtain w where w: "read_range file_size rs e = (rs @ [w], False)" "positions w = p"
      by auto
    obtain ws where "visit (read_range file_size) (rs @ [w]) es = ((rs @ [w]) @ ws, False)"
      "map positions ws = satisfiable (unat file_size) es"
      using Cons.IH [OF es, of "rs @ [w]"] by blast
    then show ?thesis
      using w Some r by (auto simp: satisfiable_def List.map_filter_simps intro!: exI [of _ "w # ws"])
  qed
qed (simp add: satisfiable_def List.map_filter_simps)

lemma satisfiable_positions:
  assumes "(a, b) \<in> set (satisfiable filesize es)"
  shows "a \<le> b \<and> b < filesize"
proof -
  obtain e where "range_of filesize e = Some (Some (a, b))"
    using assms by (auto simp: satisfiable_def List.map_filter_def split: option.splits)
  then show ?thesis
    by (auto simp: range_of_def Let_def split: if_splits)
qed

lemma is_valid_range_result:
  assumes "file_size \<noteq> 0" and "is_valid_range v file_size [] = (rs, ok)"
  shows "ok \<longleftrightarrow> 6 < length v \<and> take 6 v = asc ''bytes='' \<and> satisfiable (unat file_size) (list_elements (drop 6 v)) \<noteq> []
      \<and> (\<forall>e \<in> set (list_elements (drop 6 v)). range_of (unat file_size) e \<noteq> None)"
    and "ok \<Longrightarrow> map positions rs = satisfiable (unat file_size) (list_elements (drop 6 v))"
proof -
  let ?es = "list_elements (drop 6 v)"
  have "(ok \<longleftrightarrow> 6 < length v \<and> take 6 v = asc ''bytes='' \<and> satisfiable (unat file_size) ?es \<noteq> []
      \<and> (\<forall>e \<in> set ?es. range_of (unat file_size) e \<noteq> None)) \<and> (ok \<longrightarrow> map positions rs = satisfiable (unat file_size) ?es)"
  proof (cases "6 < length v \<and> take 6 v = asc ''bytes=''")
    case False
    then show ?thesis
      using assms(2) by (auto simp: is_valid_range_def split: if_splits)
  next
    case True
    show ?thesis
    proof (cases "\<exists>e \<in> set ?es. range_of (unat file_size) e = None")
      case bad: True
      then have "snd (visit (read_range file_size) [] ?es)"
        by (rule visit_malformed [OF assms(1)])
      then show ?thesis
        using True bad assms(2) by (auto simp: is_valid_range_def any_of_state_visit split: if_splits prod.splits)
    next
      case good: False
      then have "list_all (\<lambda>e. range_of (unat file_size) e \<noteq> None) ?es"
        by (simp add: list_all_iff)
      from visit_ranges [OF assms(1) this, of "[]"]
      obtain ws where "visit (read_range file_size) [] ?es = (ws, False)" "map positions ws = satisfiable (unat file_size) ?es"
        by auto
      then show ?thesis
        using True good assms(2) by (auto simp: is_valid_range_def any_of_state_visit split: if_splits)
    qed
  qed
  then show "ok \<longleftrightarrow> 6 < length v \<and> take 6 v = asc ''bytes='' \<and> satisfiable (unat file_size) ?es \<noteq> []
      \<and> (\<forall>e \<in> set ?es. range_of (unat file_size) e \<noteq> None)"
    and "ok \<Longrightarrow> map positions rs = satisfiable (unat file_size) ?es"
    by simp_all
qed

lemma valid_range_inside:
  assumes "file_size \<noteq> 0" and "is_valid_range v file_size [] = (rs, True)" and "r \<in> set rs"
  shows "fst r \<le> snd r" and "snd r < file_size"
proof -
  have "positions r \<in> set (satisfiable (unat file_size) (list_elements (drop 6 v)))"
    using is_valid_range_result(2) [OF assms(1,2)] assms(3) by (metis (no_types, lifting) TrueI list.set_map image_eqI)
  then show "fst r \<le> snd r" and "snd r < file_size"
    using satisfiable_positions by (auto simp: word_le_nat_alt word_less_nat_alt)
qed

lemma to_cpp_range_length:
  assumes "fst r \<le> snd r" and "snd r < file_size"
  shows "unat (snd (to_cpp_range r)) = unat (snd r) - unat (fst r) + 1"
    and "unat (fst r) + unat (snd (to_cpp_range r)) \<le> unat file_size" and "snd (to_cpp_range r) \<noteq> 0"
proof -
  have d: "unat (snd r - fst r) = unat (snd r) - unat (fst r)"
    using assms(1) by (simp add: unat_sub word_le_nat_alt)
  have "unat (snd r) < unat file_size" "unat (fst r) \<le> unat (snd r)" "unat file_size < 2 ^ 64"
    using assms unsigned_less [of file_size] by (simp_all add: word_less_nat_alt word_le_nat_alt)
  then have "unat (snd r - fst r) + 1 < 2 ^ 64"
    using d by simp
  then show l: "unat (snd (to_cpp_range r)) = unat (snd r) - unat (fst r) + 1"
    by (simp add: to_cpp_range_def d unat_word_ariths)
  show "unat (fst r) + unat (snd (to_cpp_range r)) \<le> unat file_size"
    using assms by (simp add: l word_less_nat_alt word_le_nat_alt)
  show "snd (to_cpp_range r) \<noteq> 0"
    using l by (metis add_is_0 unat_0 zero_neq_one)
qed

text \<open>
  C7: \<open>is_valid_range\<close> reads the \<open>range\<close> header as its grammar and the size of the file say, in unbounded
  numbers: it succeeds exactly when the unit is \<open>bytes\<close>, every element is a range and at least one meets the
  file; it returns the ranges that do, in order, cut at the end of the file. A number beyond 64 bits is
  treated as what it is, and \<open>to_cpp_range\<close> does not wrap around.
\<close>

theorem byte_ranges_correct:
  assumes "file_size \<noteq> 0" and "is_valid_range v file_size [] = (rs, ok)"
  shows "(ok \<longleftrightarrow> 6 < length v \<and> take 6 v = asc ''bytes='' \<and> satisfiable (unat file_size) (list_elements (drop 6 v)) \<noteq> []
      \<and> (\<forall>e \<in> set (list_elements (drop 6 v)). range_of (unat file_size) e \<noteq> None))
    \<and> (ok \<longrightarrow> map positions rs = satisfiable (unat file_size) (list_elements (drop 6 v))
        \<and> (\<forall>r \<in> set rs. fst r \<le> snd r \<and> snd r < file_size
             \<and> unat (snd (to_cpp_range r)) = unat (snd r) - unat (fst r) + 1))"
proof (rule conjI [OF is_valid_range_result(1) [OF assms]], intro impI conjI ballI)
  assume ok: ok
  then show "map positions rs = satisfiable (unat file_size) (list_elements (drop 6 v))"
    by (rule is_valid_range_result(2) [OF assms])
  fix r
  assume "r \<in> set rs"
  then show "fst r \<le> snd r" and "snd r < file_size"
    using valid_range_inside [OF assms(1), of v rs r] assms(2) ok by simp_all
  then show "unat (snd (to_cpp_range r)) = unat (snd r) - unat (fst r) + 1"
    by (rule to_cpp_range_length(1))
qed

lemma byte_ranges_correct_witness:
  "\<exists>rs. is_valid_range (asc ''bytes=8-, 2-5,-99999999999999999999'') 10 [] = (rs, True)
     \<and> map positions rs = [(8, 9), (2, 5), (0, 9)]"
proof -
  have es: "list_elements (drop 6 (asc ''bytes=8-, 2-5,-99999999999999999999''))
      = [asc ''8-'', asc ''2-5'', asc ''-99999999999999999999'']"
    by code_simp
  have r: "range_of 10 (asc ''8-'') = Some (Some (8, 9))" "range_of 10 (asc ''2-5'') = Some (Some (2, 5))"
    "range_of 10 (asc ''-99999999999999999999'') = Some (Some (0, 9))"
    by (simp_all add: range_of_def asc_def isdigit_def decimal_value_def)
  obtain rs ok where v: "is_valid_range (asc ''bytes=8-, 2-5,-99999999999999999999'') 10 [] = (rs, ok)"
    by fastforce
  from byte_ranges_correct [OF _ v] have "ok \<and> map positions rs = [(8, 9), (2, 5), (0, 9)]"
    by (simp add: es r satisfiable_def List.map_filter_simps) (simp add: asc_def)
  with v show ?thesis
    by simp
qed

end
