(* ===== verification/FileTransfer.thy ===== *)
theory FileTransfer
  imports HttpSocket ByteRange
begin

text \<open>
  The two loops of \<open>file_server.hpp\<close> that send a file in pieces, \<open>on_async_response_transmit_file\<close> and
  \<open>on_async_response_transmit_file_multi\<close>. A call of \<open>process\<close> is a function of the object, of the message
  whose body is the buffer, and of the socket; it returns what it does next, and the completion handler of
  a write calls \<open>process\<close> again. A stream is what can be read from the file and the position in it; a read
  beyond the end throws \<open>std::ios_base::failure\<close>. The number of bytes a loop has left is a \<open>nat\<close>: it is
  assigned from sizes in memory and only reduced by what was taken from it.
\<close>

datatype file_server_errc =
    Io_error
  | Irrecoverable_io_error
  | Write_state_not_supported
  | File_not_found
  | File_type_not_supported
  | Filter_set

datatype transfer_error = Channel error_code | File_server file_server_errc | Filesystem nat

record ifstream =
  fs_contents :: bytes
  fs_pos :: nat

definition stream_seekg :: "nat \<Rightarrow> ifstream \<Rightarrow> ifstream" where
  "stream_seekg pos f = f\<lparr>fs_pos := pos\<rparr>"

definition stream_read :: "nat \<Rightarrow> ifstream \<Rightarrow> (bytes \<times> ifstream) option" where
  "stream_read n f =
     (if fs_pos f + n \<le> length (fs_contents f)
      then Some (take n (drop (fs_pos f) (fs_contents f)), f\<lparr>fs_pos := fs_pos f + n\<rparr>)
      else None)"

text \<open>Bytes are copied into the body at a position.\<close>

definition overwrite :: "nat \<Rightarrow> bytes \<Rightarrow> bytes \<Rightarrow> bytes" where
  "overwrite i data body = take i body @ data @ drop (i + length data) body"

text \<open>What \<open>process\<close> ends with: the handler is called, or a write was started and this is its completion handler.\<close>

datatype next_call =
    Undefined_call
  | To_handler transfer_error
  | Then_process write_outcome
  | Then_finish write_outcome
  | Then_handler write_outcome

section \<open>One range\<close>

record file_loop =
  fl_stream :: ifstream
  fl_remaining :: nat

definition transmit_process ::
  "error_code \<Rightarrow> file_loop \<Rightarrow> message \<Rightarrow> http_socket \<Rightarrow> file_loop \<times> message \<times> http_socket \<times> next_call" where
  "transmit_process ec l m s =
     (if ec \<noteq> No_error then (l, m, s, To_handler (Channel ec))
      else if fl_remaining l = 0 then
        let (s, w) = async_write_end_of_message s in (l, m, s, Then_handler w)
      else
        let next_read = min (fl_remaining l) (length (msg_body m))
        in case stream_read next_read (fl_stream l) of
             None \<Rightarrow> (l, m, s, To_handler (File_server Irrecoverable_io_error))
           | Some (data, f) \<Rightarrow>
               let m = m\<lparr>msg_body := overwrite 0 data (msg_body m)\<rparr>;
                   l = l\<lparr>fl_stream := f, fl_remaining := fl_remaining l - next_read\<rparr>;
                   m = (if fl_remaining l = 0 then m\<lparr>msg_body := take next_read (msg_body m)\<rparr> else m);
                   (s, w) = async_write m s
               in (l, m, s, Then_process w))"

section \<open>Several ranges\<close>

datatype multi_state =
    STATE_BOUNDARY_LINE
  | STATE_CONTENT_TYPE_KEY
  | STATE_CONTENT_TYPE_VALUE
  | STATE_CONTENT_TYPE_CRLF
  | STATE_CONTENT_RANGE_KEY
  | STATE_CONTENT_RANGE_VALUE_FIRST
  | STATE_CONTENT_RANGE_VALUE_DASH
  | STATE_CONTENT_RANGE_VALUE_SECOND
  | STATE_CONTENT_RANGE_VALUE_SLASH
  | STATE_CONTENT_RANGE_VALUE_SIZE
  | STATE_CONTENT_RANGE_CRLF
  | STATE_BODY
  | STATE_FINAL_BOUNDARY

definition boundary_line :: bytes where
  "boundary_line = crlf @ asc ''--'' @ asc ''-'' @ crlf"

definition final_boundary :: bytes where
  "final_boundary = crlf @ asc ''--'' @ asc ''-'' @ asc ''--'' @ crlf"

definition content_type_key :: bytes where
  "content_type_key = asc ''content-type: ''"

definition content_range_key :: bytes where
  "content_range_key = asc ''content-range: bytes ''"

abbreviation double_crlf :: bytes where
  "double_crlf \<equiv> [0x0D, 0x0A, 0x0D, 0x0A]"

text \<open>The object, and behind it the local variables of \<open>process\<close>: the body, the position in it, \<open>next_read\<close>.\<close>

record multi_loop =
  mu_content_type :: bytes
  mu_stream :: ifstream
  mu_state :: multi_state
  mu_remaining :: nat
  mu_range_set :: "byte_range list"
  mu_index :: nat
  mu_file_size :: bytes
  mu_body :: bytes
  mu_body_it :: nat
  mu_next_read :: nat

definition new_multi_loop :: "bytes \<Rightarrow> bytes \<Rightarrow> byte_range list \<Rightarrow> nat \<Rightarrow> multi_loop" where
  "new_multi_loop content_type contents range_set file_size =
     \<lparr>mu_content_type = content_type, mu_stream = \<lparr>fs_contents = contents, fs_pos = 0\<rparr>, mu_state = STATE_BOUNDARY_LINE,
      mu_remaining = length boundary_line, mu_range_set = range_set, mu_index = 0, mu_file_size = to_string file_size,
      mu_body = [], mu_body_it = 0, mu_next_read = 0\<rparr>"

text \<open>How a case of the \<open>switch\<close> goes on; \<open>Undefined_index\<close> is an access behind the end of the ranges.\<close>

datatype multi_step =
    Go_on multi_loop
  | Schedule_more multi_loop
  | Finished_body multi_loop
  | Stream_failure
  | Undefined_index

text \<open>The current range, an access of the vector at \<open>index\<close>.\<close>

abbreviation mu_range :: "multi_loop \<Rightarrow> byte_range" where
  "mu_range u \<equiv> mu_range_set u ! mu_index u"

text \<open>The three lines that copy the next part of \<open>data\<close> behind what the body holds already.\<close>

definition put_bytes :: "bytes \<Rightarrow> multi_loop \<Rightarrow> multi_loop" where
  "put_bytes data u =
     u\<lparr>mu_body := overwrite (mu_body_it u) data (mu_body u), mu_body_it := mu_body_it u + mu_next_read u,
       mu_remaining := mu_remaining u - mu_next_read u\<rparr>"

definition copy_text :: "bytes \<Rightarrow> multi_loop \<Rightarrow> multi_loop" where
  "copy_text text u = put_bytes (take (mu_next_read u) (drop (length text - mu_remaining u) text)) u"

text \<open>What is done when the text of a state is complete: the next state, how long its text is, how much of it fits.\<close>

definition enter :: "multi_state \<Rightarrow> nat \<Rightarrow> multi_loop \<Rightarrow> multi_step" where
  "enter st n u =
     (let next_read = min n (length (mu_body u) - mu_body_it u);
          u = u\<lparr>mu_state := st, mu_remaining := n, mu_next_read := next_read\<rparr>
      in if next_read = 0 then Schedule_more u else Go_on u)"

definition boundary_line_case :: "multi_loop \<Rightarrow> multi_step" where
  "boundary_line_case u =
     (let u = copy_text boundary_line u
      in if mu_remaining u \<noteq> 0 then Schedule_more u
         else enter (if mu_content_type u \<noteq> [] then STATE_CONTENT_TYPE_KEY else STATE_CONTENT_RANGE_KEY)
                (if mu_content_type u \<noteq> [] then length content_type_key else length content_range_key) u)"

definition content_type_key_case :: "multi_loop \<Rightarrow> multi_step" where
  "content_type_key_case u =
     (let u = copy_text content_type_key u
      in if mu_remaining u \<noteq> 0 then Schedule_more u
         else enter STATE_CONTENT_TYPE_VALUE (length (mu_content_type u)) u)"

definition content_type_value_case :: "multi_loop \<Rightarrow> multi_step" where
  "content_type_value_case u =
     (let u = copy_text (mu_content_type u) u
      in if mu_remaining u \<noteq> 0 then Schedule_more u
         else enter STATE_CONTENT_TYPE_CRLF (length crlf) u)"

definition content_type_crlf_case :: "multi_loop \<Rightarrow> multi_step" where
  "content_type_crlf_case u =
     (let u = copy_text crlf u
      in if mu_remaining u \<noteq> 0 then Schedule_more u
         else enter STATE_CONTENT_RANGE_KEY (length content_range_key) u)"

definition content_range_key_case :: "multi_loop \<Rightarrow> multi_step" where
  "content_range_key_case u =
     (let u = copy_text content_range_key u
      in if mu_remaining u \<noteq> 0 then Schedule_more u
         else enter STATE_CONTENT_RANGE_VALUE_FIRST (length (to_string (unat (fst (mu_range u))))) u)"

definition content_range_first_case :: "multi_loop \<Rightarrow> multi_step" where
  "content_range_first_case u =
     (let u = copy_text (to_string (unat (fst (mu_range u)))) u
      in if mu_remaining u \<noteq> 0 then Schedule_more u
         else enter STATE_CONTENT_RANGE_VALUE_DASH 1 u)"

definition content_range_dash_case :: "multi_loop \<Rightarrow> multi_step" where
  "content_range_dash_case u =
     (let u = put_bytes (asc ''-'') u
      in if mu_remaining u \<noteq> 0 then Schedule_more u
         else enter STATE_CONTENT_RANGE_VALUE_SECOND (length (to_string (unat (snd (mu_range u))))) u)"

definition content_range_second_case :: "multi_loop \<Rightarrow> multi_step" where
  "content_range_second_case u =
     (let u = copy_text (to_string (unat (snd (mu_range u)))) u
      in if mu_remaining u \<noteq> 0 then Schedule_more u
         else let u = u\<lparr>mu_range_set := (mu_range_set u)[mu_index u := to_cpp_range (mu_range u)]\<rparr>
              in enter STATE_CONTENT_RANGE_VALUE_SLASH 1 u)"

definition content_range_slash_case :: "multi_loop \<Rightarrow> multi_step" where
  "content_range_slash_case u =
     (let u = put_bytes (asc ''/'') u
      in if mu_remaining u \<noteq> 0 then Schedule_more u
         else enter STATE_CONTENT_RANGE_VALUE_SIZE (length (mu_file_size u)) u)"

definition content_range_size_case :: "multi_loop \<Rightarrow> multi_step" where
  "content_range_size_case u =
     (let u = copy_text (mu_file_size u) u
      in if mu_remaining u \<noteq> 0 then Schedule_more u
         else enter STATE_CONTENT_RANGE_CRLF (length double_crlf) u)"

definition content_range_crlf_case :: "multi_loop \<Rightarrow> multi_step" where
  "content_range_crlf_case u =
     (let u = copy_text double_crlf u
      in if mu_remaining u \<noteq> 0 then Schedule_more u
         else enter STATE_BODY (unat (snd (mu_range u))) u)"

definition body_case :: "multi_loop \<Rightarrow> multi_step" where
  "body_case u =
     (case stream_read (mu_next_read u) (stream_seekg (unat (fst (mu_range u))) (mu_stream u)) of
        None \<Rightarrow> Stream_failure
      | Some (data, f) \<Rightarrow>
          let u = put_bytes data (u\<lparr>mu_stream := f\<rparr>)
          in if mu_remaining u \<noteq> 0 then Schedule_more u
             else let index = mu_index u + 1;
                      st = (if index = length (mu_range_set u) then STATE_FINAL_BOUNDARY else STATE_BOUNDARY_LINE);
                      n = (if st = STATE_FINAL_BOUNDARY then length final_boundary else length boundary_line);
                      u = u\<lparr>mu_index := (if st = STATE_FINAL_BOUNDARY then index - 1 else index)\<rparr>
                  in enter st n u)"

definition final_boundary_case :: "multi_loop \<Rightarrow> multi_step" where
  "final_boundary_case u =
     (let u = copy_text final_boundary u
      in if mu_remaining u \<noteq> 0 then Schedule_more u
         else Finished_body (u\<lparr>mu_body := take (mu_body_it u) (mu_body u)\<rparr>))"

definition multi_case :: "multi_loop \<Rightarrow> multi_step" where
  "multi_case u =
     (if length (mu_range_set u) \<le> mu_index u then Undefined_index
      else case mu_state u of
        STATE_BOUNDARY_LINE \<Rightarrow> boundary_line_case u
      | STATE_CONTENT_TYPE_KEY \<Rightarrow> content_type_key_case u
      | STATE_CONTENT_TYPE_VALUE \<Rightarrow> content_type_value_case u
      | STATE_CONTENT_TYPE_CRLF \<Rightarrow> content_type_crlf_case u
      | STATE_CONTENT_RANGE_KEY \<Rightarrow> content_range_key_case u
      | STATE_CONTENT_RANGE_VALUE_FIRST \<Rightarrow> content_range_first_case u
      | STATE_CONTENT_RANGE_VALUE_DASH \<Rightarrow> content_range_dash_case u
      | STATE_CONTENT_RANGE_VALUE_SECOND \<Rightarrow> content_range_second_case u
      | STATE_CONTENT_RANGE_VALUE_SLASH \<Rightarrow> content_range_slash_case u
      | STATE_CONTENT_RANGE_VALUE_SIZE \<Rightarrow> content_range_size_case u
      | STATE_CONTENT_RANGE_CRLF \<Rightarrow> content_range_crlf_case u
      | STATE_BODY \<Rightarrow> body_case u
      | STATE_FINAL_BOUNDARY \<Rightarrow> final_boundary_case u)"


text \<open>The loop of \<open>process\<close>: every round that goes on is nearer to the end of the last range.\<close>

primrec states_left :: "multi_state \<Rightarrow> nat" where
  "states_left STATE_BOUNDARY_LINE = 12"
| "states_left STATE_CONTENT_TYPE_KEY = 11"
| "states_left STATE_CONTENT_TYPE_VALUE = 10"
| "states_left STATE_CONTENT_TYPE_CRLF = 9"
| "states_left STATE_CONTENT_RANGE_KEY = 8"
| "states_left STATE_CONTENT_RANGE_VALUE_FIRST = 7"
| "states_left STATE_CONTENT_RANGE_VALUE_DASH = 6"
| "states_left STATE_CONTENT_RANGE_VALUE_SECOND = 5"
| "states_left STATE_CONTENT_RANGE_VALUE_SLASH = 4"
| "states_left STATE_CONTENT_RANGE_VALUE_SIZE = 3"
| "states_left STATE_CONTENT_RANGE_CRLF = 2"
| "states_left STATE_BODY = 1"
| "states_left STATE_FINAL_BOUNDARY = 0"

definition rounds_left :: "multi_loop \<Rightarrow> nat" where
  "rounds_left u = 13 * (length (mu_range_set u) - mu_index u) + states_left (mu_state u)"

lemma put_bytes_simps [simp]:
  "mu_range_set (put_bytes d u) = mu_range_set u" "mu_index (put_bytes d u) = mu_index u"
  "mu_content_type (put_bytes d u) = mu_content_type u" "mu_file_size (put_bytes d u) = mu_file_size u"
  "mu_stream (put_bytes d u) = mu_stream u" "mu_state (put_bytes d u) = mu_state u"
  "mu_remaining (put_bytes d u) = mu_remaining u - mu_next_read u"
  "mu_body_it (put_bytes d u) = mu_body_it u + mu_next_read u" "mu_next_read (put_bytes d u) = mu_next_read u"
  "mu_body (put_bytes d u) = overwrite (mu_body_it u) d (mu_body u)"
  by (simp_all add: put_bytes_def)

lemmas multi_case_defs = boundary_line_case_def content_type_key_case_def content_type_value_case_def content_type_crlf_case_def
  content_range_key_case_def content_range_first_case_def content_range_dash_case_def content_range_second_case_def
  content_range_slash_case_def content_range_size_case_def content_range_crlf_case_def body_case_def final_boundary_case_def

lemma enter_Go_on:
  "enter st n u = Go_on u' \<Longrightarrow> mu_state u' = st \<and> mu_range_set u' = mu_range_set u \<and> mu_index u' = mu_index u"
  by (auto simp: enter_def Let_def split: if_splits)

lemma multi_case_rounds:
  assumes "multi_case u = Go_on u'"
  shows "rounds_left u' < rounds_left u"
proof (cases "mu_state u = STATE_BODY")
  case True
  then show ?thesis
    using assms
    by (auto simp: multi_case_def body_case_def Let_def rounds_left_def stream_seekg_def split: if_splits option.splits
        dest!: enter_Go_on)
next
  case False
  then have "mu_index u' = mu_index u \<and> length (mu_range_set u') = length (mu_range_set u)
      \<and> states_left (mu_state u') < states_left (mu_state u)"
    using assms
    by (cases "mu_state u")
       (simp_all add: multi_case_def multi_case_defs copy_text_def Let_def split: if_splits, auto dest!: enter_Go_on split: if_splits)
  then show ?thesis
    by (simp add: rounds_left_def)
qed

function multi_rounds :: "multi_loop \<Rightarrow> multi_step" where
  "multi_rounds u = (case multi_case u of Go_on u' \<Rightarrow> multi_rounds u' | result \<Rightarrow> result)"
  by pat_completeness auto
termination
  by (relation "measure rounds_left") (simp_all add: multi_case_rounds)

declare multi_rounds.simps [simp del]

text \<open>When a read fails, only the error code leaves \<open>process\<close>; what was copied into the body stays unsent.\<close>

definition multi_process ::
  "error_code \<Rightarrow> multi_loop \<Rightarrow> message \<Rightarrow> http_socket \<Rightarrow> multi_loop \<times> message \<times> http_socket \<times> next_call" where
  "multi_process ec u m s =
     (if ec \<noteq> No_error then (u, m, s, To_handler (Channel ec))
      else if mu_index u = length (mu_range_set u) then
        let (s, w) = async_write_end_of_message s in (u, m, s, Then_handler w)
      else
        let u = u\<lparr>mu_body := msg_body m, mu_body_it := 0, mu_next_read := min (mu_remaining u) (length (msg_body m))\<rparr>
        in case multi_rounds u of
             Schedule_more u \<Rightarrow>
               let m = m\<lparr>msg_body := mu_body u\<rparr>; (s, w) = async_write m s in (u, m, s, Then_process w)
           | Finished_body u \<Rightarrow>
               let m = m\<lparr>msg_body := mu_body u\<rparr>; (s, w) = async_write m s in (u, m, s, Then_finish w)
           | Stream_failure \<Rightarrow> (u, m, s, To_handler (File_server Irrecoverable_io_error))
           | _ \<Rightarrow> (u, m, s, Undefined_call))"

definition on_finished :: "error_code \<Rightarrow> http_socket \<Rightarrow> http_socket \<times> next_call" where
  "on_finished ec s =
     (if ec \<noteq> No_error then (s, To_handler (Channel ec))
      else let (s, w) = async_write_end_of_message s in (s, Then_handler w))"

section \<open>The chain of completion handlers\<close>

text \<open>
  A transfer on a channel that takes every write: each completion handler is called with what its write
  came to, until the handler of the application is called. The result is the error code it gets, the socket,
  and the bytes sent. The number of calls of \<open>process\<close> is the fuel.
\<close>

datatype transfer_result = Handler_called transfer_error http_socket bytes | Transfer_undefined | Out_of_calls

definition written :: "write_outcome \<Rightarrow> error_code \<times> bytes" where
  "written w = (case w of Posted ec \<Rightarrow> (ec, []) | Sent bs \<Rightarrow> (No_error, bs))"

definition last_call :: "http_socket \<Rightarrow> bytes \<Rightarrow> next_call \<Rightarrow> transfer_result" where
  "last_call s sent c =
     (case c of
        To_handler e \<Rightarrow> Handler_called e s sent
      | Then_handler (Posted ec) \<Rightarrow> Handler_called (Channel ec) s sent
      | Then_handler (Sent bs) \<Rightarrow> Handler_called (Channel No_error) (on_response_written s) (sent @ bs)
      | _ \<Rightarrow> Transfer_undefined)"

fun run_transfer ::
  "nat \<Rightarrow> (error_code \<Rightarrow> 'l \<Rightarrow> message \<Rightarrow> http_socket \<Rightarrow> 'l \<times> message \<times> http_socket \<times> next_call)
   \<Rightarrow> error_code \<Rightarrow> 'l \<Rightarrow> message \<Rightarrow> http_socket \<Rightarrow> bytes \<Rightarrow> transfer_result" where
  "run_transfer 0 process ec l m s sent = Out_of_calls"
| "run_transfer (Suc n) process ec l m s sent =
     (let (l, m, s, c) = process ec l m s
      in case c of
           Then_process w \<Rightarrow> let (ec, bs) = written w in run_transfer n process ec l m s (sent @ bs)
         | Then_finish w \<Rightarrow> let (ec, bs) = written w; (s, c) = on_finished ec s in last_call s (sent @ bs) c
         | _ \<Rightarrow> last_call s sent c)"

end
