(* ===== verification/TransferProperties.thy ===== *)
theory TransferProperties
  imports FileTransfer ChunkRoundtrip
begin

text \<open>
  What the loops of \<open>FileTransfer\<close> send. The locale \<open>chunked_transfer\<close> is what the two have in common: a
  list of chunks that a state still has to send, of which a call of \<open>process\<close> writes the first. Its lemmas
  give the bytes on the channel; its interpretations are the two loops.
\<close>

section \<open>The interface of a transfer\<close>

definition writes_next ::
  "(error_code \<Rightarrow> 'l \<Rightarrow> message \<Rightarrow> http_socket \<Rightarrow> 'l \<times> message \<times> http_socket \<times> next_call)
   \<Rightarrow> (write_outcome \<Rightarrow> next_call) \<Rightarrow> 'l \<Rightarrow> message \<Rightarrow> 'l \<Rightarrow> message \<Rightarrow> bool" where
  "writes_next process c l m l' m' \<longleftrightarrow>
     (\<forall>s. process No_error l m s = (let (s', w) = async_write m' s in (l', m', s', c w)))"

locale chunked_transfer =
  fixes process :: "error_code \<Rightarrow> 'l \<Rightarrow> message \<Rightarrow> http_socket \<Rightarrow> 'l \<times> message \<times> http_socket \<times> next_call"
    and chunks :: "'l \<Rightarrow> message \<Rightarrow> bytes list"
    and ok :: "'l \<Rightarrow> message \<Rightarrow> bool"
  assumes next_chunk: "ok l m \<Longrightarrow> chunks l m = c # cs \<Longrightarrow> c \<noteq> [] \<and>
      (\<exists>l' m'. msg_body m' = c \<and> (writes_next process Then_process l m l' m' \<and> ok l' m' \<and> chunks l' m' = cs
        \<or> writes_next process Then_finish l m l' m' \<and> cs = []))"
    and all_sent: "ok l m \<Longrightarrow> chunks l m = [] \<Longrightarrow>
      process No_error l m s = (let (s', w) = async_write_end_of_message s in (l, m, s', Then_handler w))"
begin

lemma write_accepted:
  assumes "so_writer s = Metadata_issued" and "msg_body m \<noteq> []"
  shows "async_write m s = (s, Sent (chunk_bytes (msg_body m)))"
  using assms by (simp add: async_write_def write_chunk_def)

lemma end_accepted:
  assumes "so_writer s = Metadata_issued"
  shows "async_write_end_of_message s = (s\<lparr>so_writer := Finished\<rparr>, Sent end_of_message_bytes)"
  using assms by (simp add: async_write_end_of_message_def write_end_def)

text \<open>A transfer ends, and it sends its chunks, framed, and the end of the message.\<close>

lemma sends_chunks:
  assumes "ok l m" and "so_writer s = Metadata_issued" and "length (chunks l m) < n"
  shows "run_transfer n process No_error l m s sent =
    Handler_called (Channel No_error) (on_response_written (s\<lparr>so_writer := Finished\<rparr>))
      (sent @ concat (map chunk_bytes (chunks l m)) @ end_of_message_bytes)"
  using assms
proof (induction "chunks l m" arbitrary: l m n sent)
  case Nil
  then obtain k where "n = Suc k"
    by (cases n) auto
  then show ?case
    using Nil all_sent [of l m s] by (simp add: end_accepted last_call_def flip: Nil(1))
next
  case (Cons c cs)
  then obtain k where n: "n = Suc k" "length cs < k"
    by (cases n) (auto simp flip: Cons(2))
  obtain l' m' where c: "c \<noteq> []" and m': "msg_body m' = c"
    and nxt: "writes_next process Then_process l m l' m' \<and> ok l' m' \<and> chunks l' m' = cs
      \<or> writes_next process Then_finish l m l' m' \<and> cs = []"
    using next_chunk [OF Cons(3) Cons(2) [symmetric]] by blast
  have w: "async_write m' s = (s, Sent (chunk_bytes c))"
    using write_accepted [OF Cons(4)] m' c by simp
  from nxt show ?case
  proof
    assume a: "writes_next process Then_process l m l' m' \<and> ok l' m' \<and> chunks l' m' = cs"
    then have "run_transfer k process No_error l' m' s (sent @ chunk_bytes c) =
        Handler_called (Channel No_error) (on_response_written (s\<lparr>so_writer := Finished\<rparr>))
          ((sent @ chunk_bytes c) @ concat (map chunk_bytes cs) @ end_of_message_bytes)"
      using Cons(1) [of l' m' k] Cons(4) n by auto
    then show ?thesis
      using a n by (simp add: writes_next_def w written_def flip: Cons(2))
  next
    assume a: "writes_next process Then_finish l m l' m' \<and> cs = []"
    then show ?thesis
      using n by (simp add: writes_next_def w written_def on_finished_def end_accepted [OF Cons(4)] last_call_def flip: Cons(2))
  qed
qed

end

section \<open>One range\<close>

function pieces :: "nat \<Rightarrow> bytes \<Rightarrow> bytes list" where
  "pieces b v = (if b = 0 \<or> v = [] then [] else take b v # pieces b (drop b v))"
  by pat_completeness auto
termination
  by (relation "measure (length \<circ> snd)") (auto simp: diff_less)

declare pieces.simps [simp del]

lemma concat_pieces: "0 < b \<Longrightarrow> concat (pieces b v) = v"
  by (induction b v rule: pieces.induct) (subst pieces.simps, auto)

lemma pieces_nonempty: "c \<in> set (pieces b v) \<Longrightarrow> c \<noteq> [] \<and> length c \<le> b"
  by (induction b v rule: pieces.induct) (subst (asm) (2) pieces.simps, auto split: if_splits)

lemma length_pieces: "length (pieces b v) \<le> length v"
proof (induction b v rule: pieces.induct)
  case (1 b v)
  show ?case
  proof (cases "b = 0 \<or> v = []")
    case False
    then have "length (pieces b v) \<le> Suc (length v - b)"
      using 1 by (subst pieces.simps) simp
    moreover have "0 < b" "0 < length v"
      using False by simp_all
    ultimately
    show ?thesis
      by linarith
  qed (subst pieces.simps, simp)
qed

definition loop_chunks :: "file_loop \<Rightarrow> message \<Rightarrow> bytes list" where
  "loop_chunks l m =
     pieces (length (msg_body m)) (take (fl_remaining l) (drop (fs_pos (fl_stream l)) (fs_contents (fl_stream l))))"

definition file_loop_ok :: "file_loop \<Rightarrow> message \<Rightarrow> bool" where
  "file_loop_ok l m \<longleftrightarrow>
     fs_pos (fl_stream l) + fl_remaining l \<le> length (fs_contents (fl_stream l)) \<and> (fl_remaining l = 0 \<or> msg_body m \<noteq> [])"

interpretation file_loop: chunked_transfer transmit_process loop_chunks file_loop_ok
proof unfold_locales
  fix l m c cs
  assume ok: "file_loop_ok l m" and chunks: "loop_chunks l m = c # cs"
  let ?f = "fl_stream l" and ?n = "min (fl_remaining l) (length (msg_body m))"
  let ?v = "take (fl_remaining l) (drop (fs_pos ?f) (fs_contents ?f))"
  have b: "0 < length (msg_body m)" "0 < fl_remaining l" and c: "c = take (length (msg_body m)) ?v"
    "cs = pieces (length (msg_body m)) (drop (length (msg_body m)) ?v)"
    using chunks unfolding loop_chunks_def by (subst (asm) pieces.simps, auto split: if_splits)+
  have c': "c = take ?n (drop (fs_pos ?f) (fs_contents ?f))" "length c = ?n"
    using c(1) ok by (auto simp: file_loop_ok_def min.commute)
  define l' where "l' = l\<lparr>fl_stream := ?f\<lparr>fs_pos := fs_pos ?f + ?n\<rparr>, fl_remaining := fl_remaining l - ?n\<rparr>"
  define m' where "m' = m\<lparr>msg_body := (if fl_remaining l - ?n = 0 then take ?n (overwrite 0 c (msg_body m)) else overwrite 0 c (msg_body m))\<rparr>"
  have body: "msg_body m' = c"
    using c'(2) by (auto simp: m'_def overwrite_def min_def)
  have "stream_read ?n ?f = Some (c, ?f\<lparr>fs_pos := fs_pos ?f + ?n\<rparr>)"
    using ok c'(1) by (auto simp: stream_read_def file_loop_ok_def)
  then have "writes_next transmit_process Then_process l m l' m'"
    using b by (auto simp: writes_next_def transmit_process_def Let_def l'_def m'_def split: prod.splits)
  moreover have "file_loop_ok l' m'"
    using ok b body c'(2) by (auto simp: file_loop_ok_def l'_def)
  moreover have "loop_chunks l' m' = cs"
  proof (cases "length (msg_body m) \<le> fl_remaining l")
    case True
    then show ?thesis
      using c(2) body c'(2) by (simp add: loop_chunks_def l'_def drop_take add.commute)
  next
    case False
    then show ?thesis
      using c(2) by (simp add: loop_chunks_def l'_def pieces.simps)
  qed
  moreover have "0 < length c"
    using b c'(2) by simp
  then have "c \<noteq> []"
    by auto
  ultimately show "c \<noteq> [] \<and> (\<exists>l' m'. msg_body m' = c \<and> (writes_next transmit_process Then_process l m l' m' \<and> file_loop_ok l' m' \<and> loop_chunks l' m' = cs
        \<or> writes_next transmit_process Then_finish l m l' m' \<and> cs = []))"
    using body by blast
next
  fix l m s
  assume ok: "file_loop_ok l m" and "loop_chunks l m = []"
  then have "fl_remaining l = 0"
    unfolding loop_chunks_def by (subst (asm) pieces.simps) (auto simp: file_loop_ok_def split: if_splits)
  then show "transmit_process No_error l m s = (let (s', w) = async_write_end_of_message s in (l, m, s', Then_handler w))"
    by (simp add: transmit_process_def)
qed


section \<open>Several ranges: the plan\<close>

text \<open>
  A multipart body is a sequence of pieces: fixed texts and the data of the ranges. \<open>fill\<close> is what one buffer
  takes of the pieces that are left, of the first of which \<open>rem\<close> bytes are left; \<open>fill_all\<close> is the sequence of
  buffers. A text goes on where it was interrupted; the data of a range starts over, because \<open>STATE_BODY\<close> seeks
  to the first position of the range whenever it is entered.
\<close>

datatype piece = Text bytes | Data nat nat

primrec piece_length :: "piece \<Rightarrow> nat" where
  "piece_length (Text t) = length t"
| "piece_length (Data a n) = n"

primrec emit :: "bytes \<Rightarrow> piece \<Rightarrow> nat \<Rightarrow> nat \<Rightarrow> bytes" where
  "emit contents (Text t) off n = take n (drop off t)"
| "emit contents (Data a k) off n = take n (drop a contents)"

fun fill :: "bytes \<Rightarrow> nat \<Rightarrow> piece list \<Rightarrow> nat \<Rightarrow> bytes \<times> piece list \<times> nat" where
  "fill contents space [] rem = ([], [], 0)"
| "fill contents space (p # ps) rem =
     (let n = min rem space; out = emit contents p (piece_length p - rem) n
      in if n < rem then (out, p # ps, rem - n)
         else if ps = [] then (out, [], 0)
         else if space = n then (out, ps, piece_length (hd ps))
         else let (out', r) = fill contents (space - n) ps (piece_length (hd ps)) in (out @ out', r))"

definition bytes_left :: "piece list \<Rightarrow> nat \<Rightarrow> nat" where
  "bytes_left ps rem = (case ps of [] \<Rightarrow> 0 | _ # ps \<Rightarrow> rem + sum_list (map piece_length ps))"

lemma bytes_left_simps [simp]:
  "bytes_left [] rem = 0" "bytes_left (p # ps) rem = rem + sum_list (map piece_length ps)"
  by (simp_all add: bytes_left_def)

lemma bytes_left_hd: "bytes_left ps (piece_length (hd ps)) = sum_list (map piece_length ps)"
  by (cases ps) simp_all

lemma fill_left:
  "fill contents space ps rem = (out, ps', rem') \<Longrightarrow> bytes_left ps' rem' + min space (bytes_left ps rem) \<le> bytes_left ps rem"
proof (induction contents space ps rem arbitrary: out rule: fill.induct)
  case (2 contents space p ps rem)
  show ?case
  proof (cases "min rem space < rem \<or> ps = [] \<or> space = min rem space")
    case True
    with 2(2) show ?thesis
      by (auto simp: Let_def bytes_left_hd split: if_splits)
  next
    case False
    then have r: "min rem space = rem" "rem < space" "ps \<noteq> []"
      by auto
    obtain out' where "fill contents (space - rem) ps (piece_length (hd ps)) = (out', ps', rem')"
      using 2(2) False r by (auto simp: Let_def split: prod.splits)
    then have "bytes_left ps' rem' + min (space - rem) (sum_list (map piece_length ps)) \<le> sum_list (map piece_length ps)"
      using 2(1) [OF refl refl] False r by (simp add: bytes_left_hd)
    then show ?thesis
      using r(2) by (cases "space - rem \<le> sum_list (map piece_length ps)") auto
  qed
qed simp

function fill_all :: "bytes \<Rightarrow> nat \<Rightarrow> piece list \<Rightarrow> nat \<Rightarrow> bytes list" where
  "fill_all contents b ps rem =
     (if ps = [] \<or> b = 0 \<or> bytes_left ps rem = 0 then []
      else let (out, ps', rem') = fill contents b ps rem in out # fill_all contents b ps' rem')"
  by pat_completeness auto
termination
proof (relation "measure (\<lambda>(contents, b, ps, rem). bytes_left ps rem)", goal_cases)
  case (2 contents b ps rem x out y ps' rem')
  then have "bytes_left ps' rem' + min b (bytes_left ps rem) \<le> bytes_left ps rem"
    by (intro fill_left [of contents b ps rem out]) simp
  then show ?case
    using 2 by auto
qed simp

declare fill_all.simps [simp del]

text \<open>The texts of a part of the body, from each state on; the second number of a range becomes its length on the way.\<close>

fun part_pieces :: "multi_state \<Rightarrow> bytes \<Rightarrow> bytes \<Rightarrow> byte_range \<Rightarrow> piece list" where
  "part_pieces STATE_FINAL_BOUNDARY ct sz r = []"
| "part_pieces STATE_BODY ct sz r = [Data (unat (fst r)) (unat (snd r))]"
| "part_pieces STATE_CONTENT_RANGE_CRLF ct sz r = [Text double_crlf, Data (unat (fst r)) (unat (snd r))]"
| "part_pieces STATE_CONTENT_RANGE_VALUE_SIZE ct sz r = [Text sz, Text double_crlf, Data (unat (fst r)) (unat (snd r))]"
| "part_pieces STATE_CONTENT_RANGE_VALUE_SLASH ct sz r =
     [Text (asc ''/''), Text sz, Text double_crlf, Data (unat (fst r)) (unat (snd r))]"
| "part_pieces st ct sz r =
     (let first = Text (to_string (unat (fst r))); second = Text (to_string (unat (snd r))); d = to_cpp_range r;
          values = [second, Text (asc ''/''), Text sz, Text double_crlf, Data (unat (fst d)) (unat (snd d))];
          content_range = Text content_range_key # first # Text (asc ''-'') # values;
          content_type = [Text content_type_key, Text ct, Text crlf]
      in case st of
           STATE_CONTENT_RANGE_VALUE_SECOND \<Rightarrow> values
         | STATE_CONTENT_RANGE_VALUE_DASH \<Rightarrow> Text (asc ''-'') # values
         | STATE_CONTENT_RANGE_VALUE_FIRST \<Rightarrow> first # Text (asc ''-'') # values
         | STATE_CONTENT_RANGE_KEY \<Rightarrow> content_range
         | STATE_CONTENT_TYPE_CRLF \<Rightarrow> Text crlf # content_range
         | STATE_CONTENT_TYPE_VALUE \<Rightarrow> Text ct # Text crlf # content_range
         | STATE_CONTENT_TYPE_KEY \<Rightarrow> content_type @ content_range
         | _ \<Rightarrow> Text boundary_line # (if ct \<noteq> [] then content_type else []) @ content_range)"

definition later_pieces :: "bytes \<Rightarrow> bytes \<Rightarrow> byte_range list \<Rightarrow> piece list" where
  "later_pieces ct sz rs = concat (map (part_pieces STATE_BOUNDARY_LINE ct sz) rs) @ [Text final_boundary]"

definition plan :: "multi_loop \<Rightarrow> piece list" where
  "plan u =
     part_pieces (mu_state u) (mu_content_type u) (mu_file_size u) (mu_range u)
     @ later_pieces (mu_content_type u) (mu_file_size u) (drop (Suc (mu_index u)) (mu_range_set u))"


section \<open>Several ranges: the loop carries out the plan\<close>

definition converted :: "multi_state \<Rightarrow> bool" where
  "converted st \<longleftrightarrow> st \<in> {STATE_CONTENT_RANGE_VALUE_SLASH, STATE_CONTENT_RANGE_VALUE_SIZE, STATE_CONTENT_RANGE_CRLF, STATE_BODY}"

definition range_ok :: "nat \<Rightarrow> byte_range \<Rightarrow> bool" where
  "range_ok n r \<longleftrightarrow> fst r \<le> snd r \<and> unat (snd r) < n"

definition cpp_range_ok :: "nat \<Rightarrow> byte_range \<Rightarrow> bool" where
  "cpp_range_ok n r \<longleftrightarrow> 0 < unat (snd r) \<and> unat (fst r) + unat (snd r) \<le> n"

lemma to_cpp_range_ok: "range_ok n r \<Longrightarrow> n < 2 ^ 64 \<Longrightarrow> cpp_range_ok n (to_cpp_range r)"
proof -
  assume r: "range_ok n r" and "n < 2 ^ 64"
  then have "snd r < (of_nat n :: u64)" "unat (of_nat n :: u64) = n"
    by (auto simp: range_ok_def word_less_nat_alt unat_of_nat)
  then show ?thesis
    using r to_cpp_range_length [of r "of_nat n"] by (simp add: cpp_range_ok_def range_ok_def unat_gt_0)
       (simp add: to_cpp_range_def)
qed

abbreviation mu_contents :: "multi_loop \<Rightarrow> bytes" where
  "mu_contents u \<equiv> fs_contents (mu_stream u)"

definition place_ok :: "multi_loop \<Rightarrow> bool" where
  "place_ok u \<longleftrightarrow>
     mu_index u < length (mu_range_set u) \<and> length (mu_contents u) < 2 ^ 64 \<and> mu_file_size u \<noteq> []
     \<and> (\<forall>r \<in> set (drop (Suc (mu_index u)) (mu_range_set u)). range_ok (length (mu_contents u)) r)
     \<and> (if mu_state u = STATE_FINAL_BOUNDARY then Suc (mu_index u) = length (mu_range_set u)
        else if converted (mu_state u) then cpp_range_ok (length (mu_contents u)) (mu_range u)
        else range_ok (length (mu_contents u)) (mu_range u))
     \<and> (mu_state u \<in> {STATE_CONTENT_TYPE_KEY, STATE_CONTENT_TYPE_VALUE, STATE_CONTENT_TYPE_CRLF} \<longrightarrow> mu_content_type u \<noteq> [])"

definition multi_ok :: "multi_loop \<Rightarrow> bool" where
  "multi_ok u \<longleftrightarrow> place_ok u \<and> 0 < mu_remaining u \<and> mu_remaining u \<le> piece_length (hd (plan u))"

definition filling :: "multi_loop \<Rightarrow> bool" where
  "filling u \<longleftrightarrow>
     multi_ok u \<and> mu_next_read u = min (mu_remaining u) (length (mu_body u) - mu_body_it u) \<and> 0 < mu_next_read u"

definition filled :: "multi_loop \<Rightarrow> bytes" where
  "filled u = take (mu_body_it u) (mu_body u)"

text \<open>One round: what is emitted, and where the loop is afterwards.\<close>

definition round_ok :: "multi_loop \<Rightarrow> bool" where
  "round_ok u \<longleftrightarrow>
     (\<exists>u'. length (mu_body u') = length (mu_body u) \<and> mu_contents u' = mu_contents u
        \<and> mu_body_it u' = mu_body_it u + mu_next_read u
        \<and> filled u' = filled u @ emit (mu_contents u) (hd (plan u)) (piece_length (hd (plan u)) - mu_remaining u) (mu_next_read u)
        \<and> (if mu_next_read u < mu_remaining u then
             multi_case u = Schedule_more u' \<and> multi_ok u' \<and> plan u' = plan u \<and> mu_remaining u' = mu_remaining u - mu_next_read u
           else if tl (plan u) = [] then multi_case u = Finished_body (u'\<lparr>mu_body := filled u'\<rparr>)
           else multi_ok u' \<and> plan u' = tl (plan u) \<and> mu_remaining u' = piece_length (hd (plan u'))
             \<and> (if length (mu_body u) = mu_body_it u' then multi_case u = Schedule_more u'
                else multi_case u = Go_on u' \<and> filling u')))"

lemma plan_frame [simp]:
  "plan (u\<lparr>mu_remaining := n\<rparr>) = plan u" "plan (u\<lparr>mu_next_read := n\<rparr>) = plan u" "plan (u\<lparr>mu_body := b\<rparr>) = plan u"
  "plan (u\<lparr>mu_body_it := n\<rparr>) = plan u" "plan (u\<lparr>mu_stream := f\<rparr>) = plan u" "plan (put_bytes d u) = plan u"
  by (simp_all add: plan_def)

lemma place_frame [simp]:
  "place_ok (u\<lparr>mu_remaining := n\<rparr>) = place_ok u" "place_ok (u\<lparr>mu_next_read := n\<rparr>) = place_ok u"
  "place_ok (u\<lparr>mu_body := b\<rparr>) = place_ok u" "place_ok (u\<lparr>mu_body_it := n\<rparr>) = place_ok u" "place_ok (put_bytes d u) = place_ok u"
  by (simp_all add: place_ok_def)

lemma filled_put:
  assumes "length data = mu_next_read u" and "mu_body_it u + mu_next_read u \<le> length (mu_body u)"
  shows "filled (put_bytes data u) = filled u @ data" "length (mu_body (put_bytes data u)) = length (mu_body u)"
  using assms by (auto simp: filled_def overwrite_def)

lemma fillingD:
  assumes "filling u"
  shows "place_ok u" "0 < mu_next_read u" "mu_next_read u \<le> mu_remaining u" "mu_remaining u \<le> piece_length (hd (plan u))"
    "mu_body_it u + mu_next_read u \<le> length (mu_body u)"
    "mu_next_read u = min (mu_remaining u) (length (mu_body u) - mu_body_it u)"
  using assms by (auto simp: filling_def multi_ok_def)

text \<open>
  A case that puts bytes into the body and then enters the next state; \<open>change\<close> is what it does in between, \<open>f\<close> the
  stream after its read.
\<close>

lemma piece_round:
  assumes fill: "filling u" and f: "fs_contents f = mu_contents u" and "tl (plan u) \<noteq> []"
    and data: "length data = mu_next_read u"
      "data = emit (mu_contents u) (hd (plan u)) (piece_length (hd (plan u)) - mu_remaining u) (mu_next_read u)"
    and step: "multi_case u = (let v = put_bytes data (u\<lparr>mu_stream := f\<rparr>) in if mu_remaining v \<noteq> 0 then Schedule_more v else enter st n (change v))"
    and change: "\<And>v. mu_body (change v) = mu_body v \<and> mu_body_it (change v) = mu_body_it v \<and> mu_stream (change v) = mu_stream v"
    and place: "place_ok ((change (put_bytes data (u\<lparr>mu_stream := f\<rparr>)))\<lparr>mu_state := st\<rparr>)"
      "plan ((change (put_bytes data (u\<lparr>mu_stream := f\<rparr>)))\<lparr>mu_state := st\<rparr>) = tl (plan u)"
    and n: "n = piece_length (hd (tl (plan u)))" "0 < n"
  shows "round_ok u"
proof -
  note d = fillingD [OF fill]
  let ?p = "put_bytes data (u\<lparr>mu_stream := f\<rparr>)"
  have put: "filled ?p = filled u @ data" "length (mu_body ?p) = length (mu_body u)"
    using filled_put [of data "u\<lparr>mu_stream := f\<rparr>"] data(1) d(5) by (simp_all add: filled_def)
  show ?thesis
  proof (cases "mu_next_read u < mu_remaining u")
    case True
    have "multi_ok ?p"
      using d True f by (auto simp: multi_ok_def place_ok_def)
    then show ?thesis
      unfolding round_ok_def using True put step f data(2)
      by (intro exI [of _ ?p]) (simp add: Let_def)
  next
    case False
    then have all: "mu_next_read u = mu_remaining u"
      using d(3) by simp
    let ?v = "change ?p"
    let ?w = "?v\<lparr>mu_state := st, mu_remaining := n, mu_next_read := min n (length (mu_body ?v) - mu_body_it ?v)\<rparr>"
    have v: "mu_body ?v = mu_body ?p" "mu_body_it ?v = mu_body_it u + mu_next_read u" "mu_contents ?v = mu_contents u"
      using change [of ?p] f by simp_all
    have w: "filled ?w = filled ?p" "plan ?w = tl (plan u)" "multi_ok ?w"
      using place n v by (simp_all add: filled_def multi_ok_def)
    have room: "length (mu_body ?v) = length (mu_body u)"
      using put(2) v(1) by simp
    have "multi_case u = enter st n ?v"
      using step all by (simp add: Let_def)
    also have "\<dots> = (if length (mu_body u) = mu_body_it u + mu_next_read u then Schedule_more ?w else Go_on ?w)"
      using n(2) d(5) room v(2) by (auto simp: enter_def Let_def min_def)
    finally have c: "multi_case u = (if length (mu_body u) = mu_body_it u + mu_next_read u then Schedule_more ?w else Go_on ?w)" .
    have "filling ?w" if "length (mu_body u) \<noteq> mu_body_it u + mu_next_read u"
      using w(3) n(2) d(5) that room v(2) by (simp add: filling_def)
    then show ?thesis
      unfolding round_ok_def using c w put all v room assms(3) n(1) data(2)
      by (intro exI [of _ ?w]) simp
  qed
qed

lemma text_state:
  assumes fill: "filling u" and p: "plan u = Text t # tl (plan u)" and "tl (plan u) \<noteq> []"
    and step: "multi_case u = (let v = copy_text t u in if mu_remaining v \<noteq> 0 then Schedule_more v else enter st n (change v))"
    and change: "\<And>v. mu_body (change v) = mu_body v \<and> mu_body_it (change v) = mu_body_it v \<and> mu_stream (change v) = mu_stream v"
    and place: "place_ok ((change (copy_text t u))\<lparr>mu_state := st\<rparr>)" "plan ((change (copy_text t u))\<lparr>mu_state := st\<rparr>) = tl (plan u)"
    and n: "n = piece_length (hd (tl (plan u)))" "0 < n"
  shows "round_ok u"
proof -
  have hd: "hd (plan u) = Text t"
    by (subst p) simp
  show ?thesis
    by (rule piece_round [where f = "mu_stream u" and change = change and st = st and n = n
          and data = "take (mu_next_read u) (drop (length t - mu_remaining u) t)"])
       (use assms fillingD [OF fill] hd in \<open>auto simp: copy_text_def\<close>)
qed

lemma to_string_not_Nil [simp]: "to_string n \<noteq> []"
  by (simp add: to_string_def)

lemma place_index: "filling u \<Longrightarrow> \<not> length (mu_range_set u) \<le> mu_index u"
  by (auto dest!: fillingD(1) simp: place_ok_def)

lemma one_byte_copy:
  assumes "filling u" and "plan u = Text [c] # ps"
  shows "put_bytes [c] u = copy_text [c] u"
proof -
  have "mu_remaining u = 1" "mu_next_read u = 1"
    using fillingD [OF assms(1)] assms(2) by auto
  then show ?thesis
    by (simp add: copy_text_def)
qed

lemmas text_texts = boundary_line_def final_boundary_def content_type_key_def content_range_key_def

lemma text_states_round:
  assumes f: "filling u" and st: "mu_state u \<notin> {STATE_BODY, STATE_FINAL_BOUNDARY}"
  shows "round_ok u"
proof -
  note idx = place_index [OF f]
  have place: "place_ok u"
    using fillingD(1) [OF f] .
  let ?keep = "\<lambda>v :: multi_loop. v"
  let ?convert = "\<lambda>v. v\<lparr>mu_range_set := (mu_range_set v)[mu_index v := to_cpp_range (mu_range v)]\<rparr>"
  show ?thesis
  proof (cases "mu_state u")
    case STATE_BOUNDARY_LINE
    then show ?thesis
      using idx place
      by (intro text_state [OF f, where st = "(if mu_content_type u \<noteq> [] then STATE_CONTENT_TYPE_KEY else STATE_CONTENT_RANGE_KEY)" and n = "(if mu_content_type u \<noteq> [] then length content_type_key else length content_range_key)" and change = ?keep and t = boundary_line])
         (auto simp: plan_def multi_case_def boundary_line_case_def Let_def place_ok_def converted_def copy_text_def text_texts)
  next
    case STATE_CONTENT_TYPE_KEY
    then show ?thesis
      using idx place
      by (intro text_state [OF f, where st = "STATE_CONTENT_TYPE_VALUE" and n = "length (mu_content_type u)" and change = ?keep and t = content_type_key])
         (auto simp: plan_def multi_case_def content_type_key_case_def Let_def place_ok_def converted_def copy_text_def text_texts)
  next
    case STATE_CONTENT_TYPE_VALUE
    then show ?thesis
      using idx place
      by (intro text_state [OF f, where st = "STATE_CONTENT_TYPE_CRLF" and n = "length crlf" and change = ?keep and t = "mu_content_type u"])
         (auto simp: plan_def multi_case_def content_type_value_case_def Let_def place_ok_def converted_def copy_text_def text_texts)
  next
    case STATE_CONTENT_TYPE_CRLF
    then show ?thesis
      using idx place
      by (intro text_state [OF f, where st = "STATE_CONTENT_RANGE_KEY" and n = "length content_range_key" and change = ?keep and t = crlf])
         (auto simp: plan_def multi_case_def content_type_crlf_case_def Let_def place_ok_def converted_def copy_text_def text_texts)
  next
    case STATE_CONTENT_RANGE_KEY
    then show ?thesis
      using idx place
      by (intro text_state [OF f, where st = "STATE_CONTENT_RANGE_VALUE_FIRST" and n = "length (to_string (unat (fst (mu_range u))))" and change = ?keep and t = content_range_key])
         (auto simp: plan_def multi_case_def content_range_key_case_def Let_def place_ok_def converted_def copy_text_def text_texts)
  next
    case STATE_CONTENT_RANGE_VALUE_FIRST
    then show ?thesis
      using idx place
      by (intro text_state [OF f, where st = "STATE_CONTENT_RANGE_VALUE_DASH" and n = "1" and change = ?keep and t = "to_string (unat (fst (mu_range u)))"])
         (auto simp: plan_def multi_case_def content_range_first_case_def Let_def place_ok_def converted_def copy_text_def text_texts)
  next
    case STATE_CONTENT_RANGE_VALUE_SECOND
    then show ?thesis
      using idx place to_cpp_range_ok [of "length (mu_contents u)" "mu_range u"]
      by (intro text_state [OF f, where st = "STATE_CONTENT_RANGE_VALUE_SLASH" and n = "1" and change = ?convert and t = "to_string (unat (snd (mu_range u)))"])
         (auto simp: plan_def multi_case_def content_range_second_case_def Let_def place_ok_def converted_def copy_text_def text_texts)
  next
    case STATE_CONTENT_RANGE_VALUE_SIZE
    then show ?thesis
      using idx place
      by (intro text_state [OF f, where st = "STATE_CONTENT_RANGE_CRLF" and n = "length double_crlf" and change = ?keep and t = "mu_file_size u"])
         (auto simp: plan_def multi_case_def content_range_size_case_def Let_def place_ok_def converted_def copy_text_def text_texts)
  next
    case STATE_CONTENT_RANGE_CRLF
    then show ?thesis
      using idx place
      by (intro text_state [OF f, where st = "STATE_BODY" and n = "unat (snd (mu_range u))" and change = ?keep and t = double_crlf])
         (auto simp: plan_def multi_case_def content_range_crlf_case_def Let_def place_ok_def converted_def copy_text_def text_texts cpp_range_ok_def)
  next
    case STATE_CONTENT_RANGE_VALUE_DASH
    have "put_bytes (asc ''-'') u = copy_text (asc ''-'') u"
      using one_byte_copy [OF f, where c = "0x2D" and ps = "tl (plan u)"] STATE_CONTENT_RANGE_VALUE_DASH by (simp add: plan_def asc_def Let_def)
    then show ?thesis
      using idx place STATE_CONTENT_RANGE_VALUE_DASH
      by (intro text_state [OF f, where st = "STATE_CONTENT_RANGE_VALUE_SECOND" and n = "length (to_string (unat (snd (mu_range u))))" and change = ?keep and t = "asc ''-''"])
         (auto simp: plan_def multi_case_def content_range_dash_case_def Let_def place_ok_def converted_def copy_text_def text_texts)
  next
    case STATE_CONTENT_RANGE_VALUE_SLASH
    have "put_bytes (asc ''/'') u = copy_text (asc ''/'') u"
      using one_byte_copy [OF f, where c = "0x2F" and ps = "tl (plan u)"] STATE_CONTENT_RANGE_VALUE_SLASH by (simp add: plan_def asc_def Let_def)
    then show ?thesis
      using idx place STATE_CONTENT_RANGE_VALUE_SLASH
      by (intro text_state [OF f, where st = "STATE_CONTENT_RANGE_VALUE_SIZE" and n = "length (mu_file_size u)" and change = ?keep and t = "asc ''/''"])
         (auto simp: plan_def multi_case_def content_range_slash_case_def Let_def place_ok_def converted_def copy_text_def text_texts)
  qed (use st in auto)
qed


lemma body_round:
  assumes fill: "filling u" and st: "mu_state u = STATE_BODY"
  shows "round_ok u"
proof -
  note d = fillingD [OF fill]
  let ?a = "unat (fst (mu_range u))" and ?rs = "mu_range_set u" and ?i = "mu_index u"
  let ?data = "take (mu_next_read u) (drop ?a (mu_contents u))"
  let ?f = "(mu_stream u)\<lparr>fs_pos := ?a + mu_next_read u\<rparr>"
  let ?final = "Suc ?i = length ?rs"
  let ?st = "if ?final then STATE_FINAL_BOUNDARY else STATE_BOUNDARY_LINE"
  let ?n = "if ?final then length final_boundary else length boundary_line"
  let ?change = "\<lambda>v. v\<lparr>mu_index := if Suc (mu_index v) = length (mu_range_set v) then mu_index v else Suc (mu_index v)\<rparr>"
  have place: "place_ok u"
    using d(1) .
  have p: "plan u = Data ?a (unat (snd (mu_range u))) # later_pieces (mu_content_type u) (mu_file_size u) (drop (Suc ?i) ?rs)"
    using st by (simp add: plan_def)
  have inside: "?a + mu_next_read u \<le> length (mu_contents u)"
    using place st d(3,4) p by (simp add: place_ok_def converted_def cpp_range_ok_def)
  have read: "stream_read (mu_next_read u) (stream_seekg ?a (mu_stream u)) = Some (?data, ?f)"
    using inside by (simp add: stream_read_def stream_seekg_def)
  have i: "?i < length ?rs"
    using place by (simp add: place_ok_def)
  have drop: "drop (Suc ?i) ?rs = ?rs ! Suc ?i # drop (Suc (Suc ?i)) ?rs" if "\<not> ?final"
    using that i by (intro Cons_nth_drop_Suc [symmetric]) simp
  have last: "length ?rs - Suc 0 = ?i" if ?final
    using that by simp
  show ?thesis
  proof (rule piece_round [OF fill, where f = ?f and change = ?change and st = ?st and n = ?n and data = ?data])
    show "multi_case u = (let v = put_bytes ?data (u\<lparr>mu_stream := ?f\<rparr>) in if mu_remaining v \<noteq> 0 then Schedule_more v else enter ?st ?n (?change v))"
      using st i last by (auto simp: multi_case_def body_case_def read Let_def)
    show "plan ((?change (put_bytes ?data (u\<lparr>mu_stream := ?f\<rparr>)))\<lparr>mu_state := ?st\<rparr>) = tl (plan u)"
      unfolding p by (cases ?final) (simp_all add: plan_def later_pieces_def drop)
    show "?n = piece_length (hd (tl (plan u)))"
      unfolding p by (cases ?final) (simp_all add: later_pieces_def drop Let_def)
    show "place_ok ((?change (put_bytes ?data (u\<lparr>mu_stream := ?f\<rparr>)))\<lparr>mu_state := ?st\<rparr>)"
      using place st drop by (cases ?final) (auto simp: place_ok_def converted_def)
  qed (use inside p in \<open>auto simp: later_pieces_def text_texts\<close>)
qed

lemma final_round:
  assumes fill: "filling u" and st: "mu_state u = STATE_FINAL_BOUNDARY"
  shows "round_ok u"
proof -
  note d = fillingD [OF fill]
  let ?data = "take (mu_next_read u) (drop (length final_boundary - mu_remaining u) final_boundary)"
  let ?p = "put_bytes ?data u"
  have p: "plan u = [Text final_boundary]"
    using st d(1) by (simp add: plan_def later_pieces_def place_ok_def)
  have len: "length ?data = mu_next_read u"
    using d(3,4) p by simp
  note put = filled_put [OF len d(5)]
  have "multi_case u = (if mu_remaining ?p \<noteq> 0 then Schedule_more ?p else Finished_body (?p\<lparr>mu_body := filled ?p\<rparr>))"
    using st place_index [OF fill] by (simp add: multi_case_def final_boundary_case_def copy_text_def Let_def filled_def)
  moreover have "multi_ok ?p" if "mu_next_read u < mu_remaining u"
    using d that p by (auto simp: multi_ok_def)
  ultimately show ?thesis
    unfolding round_ok_def using put d(3) p
    by (intro exI [of _ ?p]) auto
qed

lemma multi_case_round: "filling u \<Longrightarrow> round_ok u"
  using text_states_round body_round final_round by (cases "mu_state u \<in> {STATE_BODY, STATE_FINAL_BOUNDARY}") auto


lemma plan_not_Nil [simp]: "plan u \<noteq> []"
  by (simp add: plan_def later_pieces_def)

lemma multi_rounds_fill:
  assumes "filling u" and "fill (mu_contents u) (length (mu_body u) - mu_body_it u) (plan u) (mu_remaining u) = (out, ps, r)"
  shows "\<exists>u'. filled u' = filled u @ out \<and> mu_contents u' = mu_contents u \<and> length (mu_body u') = length (mu_body u)
    \<and> mu_body_it u < mu_body_it u' \<and> mu_body_it u' \<le> length (mu_body u')
    \<and> (if ps = [] then multi_rounds u = Finished_body (u'\<lparr>mu_body := filled u'\<rparr>)
       else multi_rounds u = Schedule_more u' \<and> multi_ok u' \<and> plan u' = ps \<and> mu_remaining u' = r
         \<and> mu_body_it u' = length (mu_body u'))"
  using assms
proof (induction u arbitrary: out rule: multi_rounds.induct)
  case (1 u)
  note d = fillingD [OF 1(2)]
  let ?n = "mu_next_read u" and ?space = "length (mu_body u) - mu_body_it u" and ?rem = "mu_remaining u"
  let ?out = "emit (mu_contents u) (hd (plan u)) (piece_length (hd (plan u)) - ?rem) ?n"
  obtain p qs where plan: "plan u = p # qs"
    by (cases "plan u") simp_all
  have n: "min ?rem ?space = ?n"
    using d(6) by simp
  have fill: "(if ?n < ?rem then (?out, plan u, ?rem - ?n) else if qs = [] then (?out, [], 0)
      else if ?space = ?n then (?out, qs, piece_length (hd qs))
      else let (out', r) = fill (mu_contents u) (?space - ?n) qs (piece_length (hd qs)) in (?out @ out', r)) = (out, ps, r)"
    using 1(3) by (simp only: plan fill.simps n Let_def list.sel)
  obtain u' where u': "length (mu_body u') = length (mu_body u)" "mu_contents u' = mu_contents u" "mu_body_it u' = mu_body_it u + ?n"
      "filled u' = filled u @ ?out"
    and next_round: "if ?n < ?rem then
             multi_case u = Schedule_more u' \<and> multi_ok u' \<and> plan u' = plan u \<and> mu_remaining u' = ?rem - ?n
           else if qs = [] then multi_case u = Finished_body (u'\<lparr>mu_body := filled u'\<rparr>)
           else multi_ok u' \<and> plan u' = qs \<and> mu_remaining u' = piece_length (hd (plan u'))
             \<and> (if length (mu_body u) = mu_body_it u' then multi_case u = Schedule_more u'
                else multi_case u = Go_on u' \<and> filling u')"
    using multi_case_round [OF 1(2)] plan unfolding round_ok_def by auto
  have it: "mu_body_it u < mu_body_it u'" "mu_body_it u' \<le> length (mu_body u')"
    using u' d(2,5) by simp_all
  consider (full) "?n < ?rem" | (last) "\<not> ?n < ?rem" "qs = []" | (fits) "\<not> ?n < ?rem" "qs \<noteq> []" "?space = ?n"
    | (more) "\<not> ?n < ?rem" "qs \<noteq> []" "?space \<noteq> ?n"
    by blast
  then show ?case
  proof cases
    case full
    then have "mu_body_it u' = length (mu_body u')"
      using d(5) n u'(1,3) by auto
    moreover have "ps = plan u" "r = ?rem - ?n" "out = ?out"
      using fill full by auto
    ultimately show ?thesis
      using full next_round u' it by (intro exI [of _ u']) (auto simp: multi_rounds.simps)
  next
    case last
    with fill next_round u' it show ?thesis
      by (intro exI [of _ u']) (auto simp: multi_rounds.simps)
  next
    case fits
    then have "mu_body_it u' = length (mu_body u')"
      using d(5) u'(1,3) by auto
    with fits fill next_round u' it show ?thesis
      by (intro exI [of _ u']) (auto simp: multi_rounds.simps)
  next
    case more
    then have step: "multi_case u = Go_on u'" "filling u'" "plan u' = qs" "mu_remaining u' = piece_length (hd qs)"
      using next_round d(5) u'(1,3) by (auto split: if_splits)
    obtain out' where rest: "fill (mu_contents u) (?space - ?n) qs (piece_length (hd qs)) = (out', ps, r)" "out = ?out @ out'"
      using fill more by (auto split: prod.splits)
    have "fill (mu_contents u') (length (mu_body u') - mu_body_it u') (plan u') (mu_remaining u') = (out', ps, r)"
      using rest(1) u' step by (simp add: diff_diff_add)
    from 1(1) [OF step(1,2) this] obtain v where
      "filled v = filled u' @ out'" "mu_contents v = mu_contents u'" "length (mu_body v) = length (mu_body u')"
      "mu_body_it u' < mu_body_it v" "mu_body_it v \<le> length (mu_body v)"
      "if ps = [] then multi_rounds u' = Finished_body (v\<lparr>mu_body := filled v\<rparr>)
       else multi_rounds u' = Schedule_more v \<and> multi_ok v \<and> plan v = ps \<and> mu_remaining v = r \<and> mu_body_it v = length (mu_body v)"
      by blast
    then show ?thesis
      using u' it rest(2) step(1) by (intro exI [of _ v]) (auto simp: multi_rounds.simps [of u])
  qed
qed

definition multi_chunks :: "multi_loop \<Rightarrow> message \<Rightarrow> bytes list" where
  "multi_chunks u m = fill_all (mu_contents u) (length (msg_body m)) (plan u) (mu_remaining u)"

definition multi_loop_ok :: "multi_loop \<Rightarrow> message \<Rightarrow> bool" where
  "multi_loop_ok u m \<longleftrightarrow> multi_ok u \<and> msg_body m \<noteq> []"

interpretation multi_loop: chunked_transfer multi_process multi_chunks multi_loop_ok
proof unfold_locales
  fix u m c cs
  assume ok: "multi_loop_ok u m" and chunks: "multi_chunks u m = c # cs"
  let ?b = "length (msg_body m)"
  define v where "v = u\<lparr>mu_body := msg_body m, mu_body_it := 0, mu_next_read := min (mu_remaining u) ?b\<rparr>"
  have v: "filling v" "filled v = []" "plan v = plan u"
    using ok by (auto simp: v_def filling_def filled_def multi_loop_ok_def multi_ok_def)
  have i: "mu_index u \<noteq> length (mu_range_set u)"
    using ok by (auto simp: multi_loop_ok_def multi_ok_def place_ok_def)
  obtain ps r where fill: "fill (mu_contents u) ?b (plan u) (mu_remaining u) = (c, ps, r)"
    and cs: "cs = fill_all (mu_contents u) ?b ps r"
    using chunks unfolding multi_chunks_def by (subst (asm) fill_all.simps) (auto split: if_splits prod.splits)
  have "fill (mu_contents v) (length (mu_body v) - mu_body_it v) (plan v) (mu_remaining v) = (c, ps, r)"
    using fill v(3) by (simp add: v_def)
  from multi_rounds_fill [OF v(1) this] obtain u' where
    u': "filled u' = c" "mu_contents u' = mu_contents u" "length (mu_body u') = ?b" "0 < mu_body_it u'" "mu_body_it u' \<le> ?b"
      "if ps = [] then multi_rounds v = Finished_body (u'\<lparr>mu_body := filled u'\<rparr>)
       else multi_rounds v = Schedule_more u' \<and> multi_ok u' \<and> plan u' = ps \<and> mu_remaining u' = r \<and> mu_body_it u' = length (mu_body u')"
    using v(2) by (auto simp: v_def)
  have "length c = mu_body_it u'"
    using u'(3,5) by (simp flip: u'(1) add: filled_def)
  then have "c \<noteq> []"
    using u'(4) by auto
  moreover have "\<exists>l' m'. msg_body m' = c \<and> (writes_next multi_process Then_process u m l' m' \<and> multi_loop_ok l' m' \<and> multi_chunks l' m' = cs
        \<or> writes_next multi_process Then_finish u m l' m' \<and> cs = [])"
  proof (cases "ps = []")
    case True
    then have "writes_next multi_process Then_finish u m (u'\<lparr>mu_body := c\<rparr>) (m\<lparr>msg_body := c\<rparr>)"
      using u'(1,6) i by (auto simp: writes_next_def multi_process_def Let_def v_def [symmetric] split: prod.splits)
    then show ?thesis
      using True cs by (intro exI [of _ "u'\<lparr>mu_body := c\<rparr>"] exI [of _ "m\<lparr>msg_body := c\<rparr>"]) (simp add: fill_all.simps)
  next
    case False
    then have b: "mu_body u' = c"
      using u'(1,3,6) by (simp add: filled_def)
    have "writes_next multi_process Then_process u m u' (m\<lparr>msg_body := c\<rparr>)"
      using u'(6) False b i by (auto simp: writes_next_def multi_process_def Let_def v_def [symmetric] split: prod.splits)
    moreover have "multi_loop_ok u' (m\<lparr>msg_body := c\<rparr>)"
      using u'(6) False \<open>c \<noteq> []\<close> by (simp add: multi_loop_ok_def)
    moreover have "multi_chunks u' (m\<lparr>msg_body := c\<rparr>) = cs"
      using u'(2,3,6) False b cs by (simp add: multi_chunks_def)
    ultimately show ?thesis
      by (intro exI [of _ u'] exI [of _ "m\<lparr>msg_body := c\<rparr>"]) simp
  qed
  ultimately show "c \<noteq> [] \<and> (\<exists>l' m'. msg_body m' = c \<and> (writes_next multi_process Then_process u m l' m' \<and> multi_loop_ok l' m' \<and> multi_chunks l' m' = cs
        \<or> writes_next multi_process Then_finish u m l' m' \<and> cs = []))"
    by blast
next
  fix u m s
  assume "multi_loop_ok u m" and "multi_chunks u m = []"
  then show "multi_process No_error u m s = (let (s', w) = async_write_end_of_message s in (u, m, s', Then_handler w))"
    unfolding multi_chunks_def by (subst (asm) fill_all.simps)
      (auto simp: multi_loop_ok_def multi_ok_def bytes_left_def split: if_splits prod.splits list.splits)
qed


section \<open>What the buffers hold\<close>

text \<open>
  How a piece arrives: a text as it is; the data of a range as one or more beginnings of the range, one for each
  buffer it was spread over.
\<close>

fun sent_as :: "bytes \<Rightarrow> piece \<Rightarrow> bytes \<Rightarrow> bool" where
  "sent_as contents (Text t) bs \<longleftrightarrow> bs = t"
| "sent_as contents (Data a n) bs \<longleftrightarrow> (\<exists>ns. sum_list ns = n \<and> bs = concat (map (\<lambda>k. take k (drop a contents)) ns))"

fun partly_sent :: "bytes \<Rightarrow> piece \<Rightarrow> nat \<Rightarrow> bytes \<Rightarrow> bool" where
  "partly_sent contents (Text t) rem bs \<longleftrightarrow> rem \<le> length t \<and> bs = take (length t - rem) t"
| "partly_sent contents (Data a n) rem bs \<longleftrightarrow>
     rem \<le> n \<and> (\<exists>ns. sum_list ns = n - rem \<and> bs = concat (map (\<lambda>k. take k (drop a contents)) ns))"

lemma partly_sent_start [simp]: "partly_sent contents p (piece_length p) []"
  by (cases p) (auto intro: exI [of _ "[]"])

lemma partly_sent_all: "partly_sent contents p 0 bs \<Longrightarrow> sent_as contents p bs"
  by (cases p) auto

lemma partly_sent_more:
  assumes "partly_sent contents p rem bs" and "n \<le> rem"
  shows "partly_sent contents p (rem - n) (bs @ emit contents p (piece_length p - rem) n)"
proof (cases p)
  case (Text t)
  have sum: "length t + n - rem = (length t - rem) + n"
    using assms Text by simp
  show ?thesis
    using assms Text by (auto simp only: partly_sent.simps emit.simps piece_length.simps piece.inject sum take_add diff_diff_right)
next
  case (Data a k)
  then obtain ns where "sum_list ns = k - rem" "bs = concat (map (\<lambda>k. take k (drop a contents)) ns)" "rem \<le> k"
    using assms(1) by auto
  then show ?thesis
    using assms(2) Data by (auto intro!: exI [of _ "ns @ [n]"])
qed

lemma fill_full: "space < rem \<Longrightarrow> fill c space (p # ps) rem = (emit c p (piece_length p - rem) space, p # ps, rem - space)"
  by (simp add: Let_def min_def)

lemma fill_last: "rem \<le> space \<Longrightarrow> fill c space [p] rem = (emit c p (piece_length p - rem) rem, [], 0)"
  by (simp add: Let_def min_def)

lemma fill_exact: "fill c rem (p # q # qs) rem = (emit c p (piece_length p - rem) rem, q # qs, piece_length q)"
  by (simp add: Let_def)

lemma fill_next:
  "rem < space \<Longrightarrow> fill c space (p # q # qs) rem =
    (let (out, r) = fill c (space - rem) (q # qs) (piece_length q) in (emit c p (piece_length p - rem) rem @ out, r))"
  by (subst fill.simps) (simp add: Let_def min_def del: fill.simps)

declare fill.simps [simp del]

lemma fill_parts:
  assumes "fill contents space (p # ps) rem = (out, ps', r)" and "partly_sent contents p rem bs"
  shows "\<exists>sent parts bs'. p # ps = sent @ ps' \<and> bs @ out = concat parts @ bs' \<and> list_all2 (sent_as contents) sent parts
    \<and> (if ps' = [] then bs' = [] else partly_sent contents (hd ps') r bs')"
  using assms
proof (induction ps arbitrary: p space rem out bs)
  case (Cons q qs)
  have sent: "sent_as contents p (bs @ emit contents p (piece_length p - rem) rem)"
    using partly_sent_more [OF Cons(3), of rem] by (intro partly_sent_all) simp
  consider "space < rem" | "space = rem" | "rem < space"
    by linarith
  then show ?case
  proof cases
    case 1
    with Cons(2) partly_sent_more [OF Cons(3), of space] show ?thesis
      by (intro exI [of _ "[]"] exI [of _ "bs @ out"]) (auto simp: fill_full)
  next
    case 2
    with Cons(2) sent show ?thesis
      by (intro exI [of _ "[p]"] exI [of _ "[bs @ out]"] exI [of _ "[]"]) (auto simp: fill_exact)
  next
    case 3
    then obtain out' where r: "fill contents (space - rem) (q # qs) (piece_length q) = (out', ps', r)"
      and out: "out = emit contents p (piece_length p - rem) rem @ out'"
      using Cons(2) by (auto simp: fill_next split: prod.splits)
    obtain sent parts bs' where "q # qs = sent @ ps'" "out' = concat parts @ bs'" "list_all2 (sent_as contents) sent parts"
      "if ps' = [] then bs' = [] else partly_sent contents (hd ps') r bs'"
      using Cons(1) [OF r partly_sent_start] by auto
    with sent out show ?thesis
      by (intro exI [of _ "p # sent"] exI [of _ "(bs @ emit contents p (piece_length p - rem) rem) # parts"] exI [of _ bs']) simp
  qed
next
  case Nil
  show ?case
  proof (cases "space < rem")
    case True
    with Nil(1) partly_sent_more [OF Nil(2), of space] show ?thesis
      by (intro exI [of _ "[]"] exI [of _ "bs @ out"]) (auto simp: fill_full)
  next
    case False
    with Nil(1) partly_sent_more [OF Nil(2), of rem] show ?thesis
      by (intro exI [of _ "[p]"] exI [of _ "[bs @ out]"] exI [of _ "[]"]) (auto simp: fill_last intro: partly_sent_all)
  qed
qed

lemma fill_remaining:
  assumes "fill contents space (p # ps) rem = (out, ps', r)" and "0 < rem" and "\<forall>q \<in> set ps. 0 < piece_length q" and "ps' \<noteq> []"
  shows "0 < r \<and> set (tl ps') \<subseteq> set ps"
  using assms
proof (induction ps arbitrary: p space rem out)
  case (Cons q qs)
  consider "space < rem" | "space = rem" | "rem < space"
    by linarith
  then show ?case
  proof cases
    case 3
    then obtain out' where "fill contents (space - rem) (q # qs) (piece_length q) = (out', ps', r)"
      using Cons(2) by (auto simp: fill_next split: prod.splits)
    from Cons(1) [OF this] Cons(4,5) show ?thesis
      by auto
  qed (use Cons in \<open>auto simp: fill_full fill_exact\<close>)
next
  case (Nil p)
  then show ?case
    by (cases "space < rem") (auto simp: fill_full fill_last)
qed

lemma fill_all_parts:
  assumes "0 < b" and "0 < rem" and "\<forall>q \<in> set ps. 0 < piece_length q" and "partly_sent contents p rem bs"
  shows "\<exists>parts. bs @ concat (fill_all contents b (p # ps) rem) = concat parts \<and> list_all2 (sent_as contents) (p # ps) parts"
  using assms
proof (induction "bytes_left (p # ps) rem" arbitrary: p ps rem bs rule: less_induct)
  case less
  obtain out ps' r where f: "fill contents b (p # ps) rem = (out, ps', r)"
    by (cases "fill contents b (p # ps) rem") auto
  have all: "fill_all contents b (p # ps) rem = out # fill_all contents b ps' r"
    using less(2,3) f by (subst fill_all.simps) simp
  obtain sent parts bs' where parts: "p # ps = sent @ ps'" "bs @ out = concat parts @ bs'" "list_all2 (sent_as contents) sent parts"
    "if ps' = [] then bs' = [] else partly_sent contents (hd ps') r bs'"
    using fill_parts [OF f less(5)] by blast
  show ?case
  proof (cases ps')
    case Nil
    then show ?thesis
      using parts all by (intro exI [of _ parts]) (simp add: fill_all.simps flip: append_assoc)
  next
    case (Cons q qs)
    then have r: "0 < r" "\<forall>q \<in> set qs. 0 < piece_length q"
      using fill_remaining [OF f less(3,4)] less(4) by auto
    have "0 < min b (bytes_left (p # ps) rem)"
      using less(2,3) by simp
    then have "bytes_left (q # qs) r < bytes_left (p # ps) rem"
      using fill_left [OF f, unfolded Cons] by linarith
    from less(1) [OF this less(2) r] obtain parts' where
      "bs' @ concat (fill_all contents b (q # qs) r) = concat parts'" "list_all2 (sent_as contents) (q # qs) parts'"
      using parts(4) Cons by auto
    moreover have "bs @ concat (fill_all contents b (p # ps) rem) = concat parts @ bs' @ concat (fill_all contents b (q # qs) r)"
      using parts(2) Cons all by (simp flip: append_assoc)
    ultimately show ?thesis
      using parts(1,3) Cons by (intro exI [of _ "parts @ parts'"]) (simp add: list_all2_appendI)
  qed
qed

lemma fill_whole:
  assumes "rem + sum_list (map piece_length ps) \<le> space" and "\<forall>q \<in> set ps. 0 < piece_length q"
  shows "fill contents space (p # ps) rem =
    (emit contents p (piece_length p - rem) rem @ concat (map (\<lambda>q. emit contents q 0 (piece_length q)) ps), [], 0)"
  using assms
proof (induction ps arbitrary: p space rem)
  case (Cons q qs)
  then have "rem < space"
    by auto
  moreover have "fill contents (space - rem) (q # qs) (piece_length q) =
      (emit contents q 0 (piece_length q) @ concat (map (\<lambda>q. emit contents q 0 (piece_length q)) qs), [], 0)"
    using Cons(1) [of "piece_length q" "space - rem" q] Cons(2,3) by simp
  ultimately show ?case
    by (simp add: fill_next)
qed (simp add: fill_last)

lemma length_fill_all: "length (fill_all contents b ps rem) \<le> bytes_left ps rem"
proof (induction contents b ps rem rule: fill_all.induct)
  case (1 contents b ps rem)
  show ?case
  proof (cases "ps = [] \<or> b = 0 \<or> bytes_left ps rem = 0")
    case False
    obtain out ps' r where f: "fill contents b ps rem = (out, ps', r)"
      by (cases "fill contents b ps rem") auto
    have "length (fill_all contents b ps' r) \<le> bytes_left ps' r"
      using 1 [OF False f [symmetric] refl] by simp
    moreover have "0 < min b (bytes_left ps rem)"
      using False by simp
    then have "bytes_left ps' r < bytes_left ps rem"
      using fill_left [OF f] by linarith
    ultimately show ?thesis
      using False f by (subst fill_all.simps) simp
  qed (subst fill_all.simps, simp)
qed


section \<open>Transfers end, and what they send\<close>

lemma range_transfer:
  assumes "so_writer s = Metadata_issued" and "msg_body m \<noteq> []" and "first + n \<le> length contents"
  shows "run_transfer (n + 1) transmit_process No_error \<lparr>fl_stream = \<lparr>fs_contents = contents, fs_pos = first\<rparr>, fl_remaining = n\<rparr> m s sent
    = Handler_called (Channel No_error) (on_response_written (s\<lparr>so_writer := Finished\<rparr>))
        (sent @ concat (map chunk_bytes (pieces (length (msg_body m)) (take n (drop first contents)))) @ end_of_message_bytes)"
proof -
  let ?l = "\<lparr>fl_stream = \<lparr>fs_contents = contents, fs_pos = first\<rparr>, fl_remaining = n\<rparr>"
  have c: "loop_chunks ?l m = pieces (length (msg_body m)) (take n (drop first contents))"
    by (simp add: loop_chunks_def)
  have "file_loop_ok ?l m"
    using assms by (simp add: file_loop_ok_def)
  moreover have "length (loop_chunks ?l m) < n + 1"
    using length_pieces [of "length (msg_body m)" "take n (drop first contents)"] by (simp add: c)
  ultimately show ?thesis
    unfolding c [symmetric] by (rule file_loop.sends_chunks [OF _ assms(1)])
qed

text \<open>
  C12: the transfer of a range of a file ends: within \<open>n + 1\<close> calls of \<open>process\<close> for a range of \<open>n\<close> bytes the handler
  of the application is called without an error, and the bytes on the channel are the range cut in pieces
  that fit the buffer, each framed as a chunk, and the end of the message.
\<close>

theorem range_transfer_completes:
  assumes "so_writer s = Metadata_issued" and "msg_body m \<noteq> []" and "first + n \<le> length contents"
  shows "\<exists>chunks. run_transfer (n + 1) transmit_process No_error \<lparr>fl_stream = \<lparr>fs_contents = contents, fs_pos = first\<rparr>, fl_remaining = n\<rparr> m s []
      = Handler_called (Channel No_error) (on_response_written (s\<lparr>so_writer := Finished\<rparr>)) (concat (map chunk_bytes chunks) @ end_of_message_bytes)
    \<and> concat chunks = take n (drop first contents)
    \<and> (\<forall>c \<in> set chunks. 0 < length c \<and> length c \<le> length (msg_body m))"
  using range_transfer [OF assms, of "[]"] concat_pieces [of "length (msg_body m)"] pieces_nonempty assms(2)
  by (intro exI [of _ "pieces (length (msg_body m)) (take n (drop first contents))"]) auto

text \<open>
  A client reads the file back: when the bytes of a range transfer, and whatever follows them on the
  connection, are in front of a response reader that expects a chunk, the body chunks it delivers are, put
  together, the range of the file, and it comes to the end of the message.
\<close>

theorem range_transfer_read_back:
  assumes "so_writer s = Metadata_issued" and "msg_body m \<noteq> []" and "length (msg_body m) < 2 ^ 64" and "first + n \<le> length contents"
    and "run_transfer (n + 1) transmit_process No_error \<lparr>fl_stream = \<lparr>fs_contents = contents, fs_pos = first\<rparr>, fl_remaining = n\<rparr> m s []
      = Handler_called (Channel No_error) s' sent"
    and "between r EXPECT_CHUNK_SIZE (sent @ rest)"
  shows "\<exists>k. let tokens = map (\<lambda>t. (r_code t, token_view t)) (fst (read_tokens (response_next ieq) k r))
    in concat (map snd (filter (\<lambda>(c, v). c = Body_chunk) tokens)) = take n (drop first contents)
      \<and> last tokens = (End_of_message, crlf)"
proof -
  let ?chunks = "pieces (length (msg_body m)) (take n (drop first contents))"
  have sent: "sent = concat (map chunk_bytes ?chunks) @ end_of_message_bytes"
    using range_transfer [OF assms(1,2,4), of "[]"] assms(5) by simp
  have "between r EXPECT_CHUNK_SIZE (concat (map chunk_bytes ?chunks) @ end_of_message_bytes @ rest)"
    using assms(6) by (simp add: sent)
  moreover have "b \<noteq> [] \<and> length b < 2 ^ 64" if "b \<in> set ?chunks" for b
    using pieces_nonempty [OF that] assms(3) by auto
  ultimately have t: "map (\<lambda>t. (r_code t, token_view t)) (fst (read_tokens (response_next ieq) (4 * length ?chunks + 3) r)) =
      concat (map chunk_tokens ?chunks) @ [(Skip, asc ''0''), (End_of_body, crlf), (End_of_message, crlf)]"
    by (rule chunks_read_back)
  have "concat (map snd (filter (\<lambda>(c, v). c = Body_chunk) (concat (map chunk_tokens bs)))) = concat bs" for bs
    by (induction bs) (auto simp: chunk_tokens_def)
  then show ?thesis
    using assms(2) by (intro exI [of _ "4 * length ?chunks + 3"]) (simp add: t concat_pieces)
qed

lemma later_pieces_positive:
  assumes "\<forall>r \<in> set rs. range_ok (length contents) r" and "length contents < 2 ^ 64" and "sz \<noteq> []"
  shows "\<forall>q \<in> set (later_pieces ct sz rs). 0 < piece_length q"
  using assms to_cpp_range_ok [of "length contents"]
  by (auto simp: later_pieces_def text_texts cpp_range_ok_def Let_def)

lemma emit_all_sent: "sent_as contents p (emit contents p 0 (piece_length p))"
  by (cases p) (auto intro!: exI [of _ "[piece_length p]"])

lemma multipart_fits:
  assumes "ps \<noteq> []" and "\<forall>q \<in> set ps. 0 < piece_length q" and "sum_list (map piece_length ps) \<le> b"
  shows "fill_all contents b ps (piece_length (hd ps)) = [concat (map (\<lambda>p. emit contents p 0 (piece_length p)) ps)]"
proof -
  obtain p qs where ps: "ps = p # qs"
    using assms(1) by (cases ps) auto
  have pos: "0 < piece_length p" "\<forall>q \<in> set qs. 0 < piece_length q"
    using assms(2) ps by auto
  have "fill contents b ps (piece_length p) = (concat (map (\<lambda>p. emit contents p 0 (piece_length p)) ps), [], 0)"
    using fill_whole [of "piece_length p" qs b contents p] pos(2) ps assms(3) by simp
  moreover have "b \<noteq> 0"
    using assms(3) pos(1) ps by auto
  ultimately show ?thesis
    using pos(1) ps by (subst fill_all.simps) (simp add: fill_all.simps)
qed

lemma multipart_chunks:
  assumes "ps \<noteq> []" and "0 < b" and "\<forall>q \<in> set ps. 0 < piece_length q"
  shows "\<exists>parts. concat (fill_all contents b ps (piece_length (hd ps))) = concat parts \<and> list_all2 (sent_as contents) ps parts
    \<and> (sum_list (map piece_length ps) \<le> b \<longrightarrow> parts = map (\<lambda>p. emit contents p 0 (piece_length p)) ps)"
proof (cases "sum_list (map piece_length ps) \<le> b")
  case True
  then show ?thesis
    using emit_all_sent multipart_fits [OF assms(1,3)]
    by (intro exI [of _ "map (\<lambda>p. emit contents p 0 (piece_length p)) ps"]) (simp add: list_all2_conv_all_nth)
next
  case False
  obtain p qs where ps: "ps = p # qs"
    using assms(1) by (cases ps) auto
  have "0 < piece_length p" "\<forall>q \<in> set qs. 0 < piece_length q"
    using assms(3) ps by auto
  then show ?thesis
    using False fill_all_parts [OF assms(2), where contents = contents and bs = "[]"] ps by auto
qed

lemma multi_transfer_sends:
  fixes ct :: bytes and filesize :: nat
  assumes "rs \<noteq> []" and "\<forall>r \<in> set rs. fst r \<le> snd r \<and> unat (snd r) < length contents" and "length contents < 2 ^ 64"
    and "so_writer s = Metadata_issued" and "msg_body m \<noteq> []"
  defines "ps \<equiv> later_pieces ct (to_string filesize) rs"
  shows "\<exists>n. run_transfer n multi_process No_error (new_multi_loop ct contents rs filesize) m s []
      = Handler_called (Channel No_error) (on_response_written (s\<lparr>so_writer := Finished\<rparr>))
          (concat (map chunk_bytes (fill_all contents (length (msg_body m)) ps (piece_length (hd ps)))) @ end_of_message_bytes)"
    and "ps \<noteq> []" and "\<forall>q \<in> set ps. 0 < piece_length q"
proof -
  let ?u = "new_multi_loop ct contents rs filesize"
  obtain r rs' where rs: "rs = r # rs'"
    using assms(1) by (cases rs) auto
  have ranges: "\<forall>r \<in> set rs. range_ok (length contents) r"
    using assms(2) by (simp add: range_ok_def)
  note u = new_multi_loop_def
  have p: "plan ?u = ps"
    by (simp add: plan_def u rs later_pieces_def ps_def)
  have hd: "piece_length (hd ps) = length boundary_line"
    by (simp add: rs later_pieces_def Let_def ps_def)
  have "multi_ok ?u"
    unfolding multi_ok_def p hd using ranges assms(3) by (auto simp: place_ok_def u rs converted_def text_texts)
  then have ok: "multi_loop_ok ?u m"
    using assms(5) by (simp add: multi_loop_ok_def)
  have c: "multi_chunks ?u m = fill_all contents (length (msg_body m)) ps (piece_length (hd ps))"
    by (simp add: multi_chunks_def p hd) (simp add: u)
  show "\<exists>n. run_transfer n multi_process No_error ?u m s []
      = Handler_called (Channel No_error) (on_response_written (s\<lparr>so_writer := Finished\<rparr>))
          (concat (map chunk_bytes (fill_all contents (length (msg_body m)) ps (piece_length (hd ps)))) @ end_of_message_bytes)"
    using multi_loop.sends_chunks [OF ok assms(4) lessI, of "[]", unfolded append_Nil c] by blast
  show "ps \<noteq> []"
    by (simp add: ps_def later_pieces_def)
  show "\<forall>q \<in> set ps. 0 < piece_length q"
    unfolding ps_def using ranges assms(3) by (intro later_pieces_positive) simp_all
qed


section \<open>Instances\<close>

definition streaming_socket :: http_socket where
  "streaming_socket = idle_socket\<lparr>so_writer := Metadata_issued\<rparr>"

definition buffer_message :: "nat \<Rightarrow> message" where
  "buffer_message n = empty_message\<lparr>msg_body := replicate n 0\<rparr>"

lemma range_transfer_completes_witness:
  "\<exists>bs. run_transfer 5 transmit_process No_error
       \<lparr>fl_stream = \<lparr>fs_contents = asc ''abcdef'', fs_pos = 1\<rparr>, fl_remaining = 4\<rparr> (buffer_message 3) streaming_socket []
     = Handler_called (Channel No_error) (on_response_written (streaming_socket\<lparr>so_writer := Finished\<rparr>)) bs"
  using range_transfer_completes [of streaming_socket "buffer_message 3" 1 4 "asc ''abcdef''"]
  by (auto simp: streaming_socket_def buffer_message_def)

lemma range_transfer_read_back_witness:
  "\<exists>k. let tokens = map (\<lambda>t. (r_code t, token_view t)) (fst (read_tokens (response_next ascii_iequals) k
       \<lparr>r_state = EXPECT_CHUNK_SIZE, r_body = CHUNKED_ENCODING_READ, r_body_size = 0, r_code = End_of_headers, r_idx = 0, r_tok = 2,
        r_buf = crlf @ concat (map chunk_bytes (pieces 3 (asc ''bcde''))) @ end_of_message_bytes, rs_eof = False\<rparr>))
    in concat (map snd (filter (\<lambda>(c, v). c = Body_chunk) tokens)) = asc ''bcde'' \<and> last tokens = (End_of_message, crlf)"
proof -
  let ?sent = "concat (map chunk_bytes (pieces 3 (asc ''bcde''))) @ end_of_message_bytes"
  let ?r = "\<lparr>r_state = EXPECT_CHUNK_SIZE, r_body = CHUNKED_ENCODING_READ, r_body_size = 0, r_code = End_of_headers, r_idx = 0, r_tok = 2,
      r_buf = crlf @ ?sent, rs_eof = False\<rparr> :: response"
  have m: "so_writer streaming_socket = Metadata_issued" "msg_body (buffer_message 3) \<noteq> []" "length (msg_body (buffer_message 3)) < 2 ^ 64"
    "length (msg_body (buffer_message 3)) = 3"
    by (simp_all add: streaming_socket_def buffer_message_def)
  have piece: "take 4 (drop 1 (asc ''abcdef'')) = asc ''bcde''"
    by (simp add: asc_def)
  have fits: "1 + 4 \<le> length (asc ''abcdef'')"
    by simp
  have run: "run_transfer (4 + 1) transmit_process No_error \<lparr>fl_stream = \<lparr>fs_contents = asc ''abcdef'', fs_pos = 1\<rparr>, fl_remaining = 4\<rparr>
      (buffer_message 3) streaming_socket [] = Handler_called (Channel No_error) (on_response_written (streaming_socket\<lparr>so_writer := Finished\<rparr>)) ?sent"
    using range_transfer [OF m(1,2) fits, of "[]"] by (simp only: m(4) piece append_Nil)
  have "between ?r EXPECT_CHUNK_SIZE (?sent @ [])"
    by (simp add: between_def response_ok_def cursor_ok_def consumed_def)
  from range_transfer_read_back [OF m(1-3) fits run this, of ascii_iequals] show ?thesis
    by (simp only: piece)
qed


text \<open>
  A range of four bytes, of which two fit the buffer when the data begins: the second half of the data arrives
  as the first half again.
\<close>

lemma range_starts_over:
  "run_transfer 3 multi_process No_error (new_multi_loop [] (asc ''abcd'') [(0, 3)] 4) (buffer_message 39) streaming_socket []
     = Handler_called (Channel No_error) (on_response_written (streaming_socket\<lparr>so_writer := Finished\<rparr>))
         (chunk_bytes (boundary_line @ content_range_key @ asc ''0-3/4'' @ double_crlf @ asc ''ab'')
          @ chunk_bytes (asc ''ab'' @ final_boundary) @ end_of_message_bytes)"
  by code_simp

end
