(* ===== verification/FileServer.thy ===== *)
theory FileServer
  imports TransferProperties
begin

text \<open>
  The entry points of \<open>file_server.hpp\<close>: \<open>async_response_transmit_file\<close> with its conditional and range requests,
  \<open>async_response_transmit_dir\<close> and the functions on paths. Boost.Filesystem is not part of the repository: a path
  is a type variable, the operations on it the record \<open>path_api\<close>, the file system the record \<open>file_system\<close> of the
  answers it gives while a request is served; \<open>path_laws\<close> is what the properties rely on, \<open>plain_path\<close> an instance.
  The body of a message that is resized is filled with zeros.
\<close>

section \<open>Paths\<close>

record 'p path_api =
  path_empty :: 'p
  path_append :: "'p \<Rightarrow> bytes \<Rightarrow> 'p"          \<comment> \<open>\<open>append(first, last)\<close>, \<open>operator/=\<close> with an element\<close>
  path_has_filename :: "'p \<Rightarrow> bool"
  path_remove_filename :: "'p \<Rightarrow> 'p"
  path_elements :: "'p \<Rightarrow> bytes list"         \<comment> \<open>\<open>begin()\<close> to \<open>end()\<close>\<close>
  path_join :: "'p \<Rightarrow> 'p \<Rightarrow> 'p"               \<comment> \<open>\<open>operator/\<close>\<close>

text \<open>
  The loop of \<open>resolve_dots_or_throw_not_found\<close> over the elements of a path; \<open>None\<close> is the exception with
  \<open>file_not_found\<close>.
\<close>

fun resolve_elements :: "'p path_api \<Rightarrow> bytes list \<Rightarrow> 'p \<Rightarrow> 'p option" where
  "resolve_elements P [] ret = Some ret"
| "resolve_elements P (e # es) ret =
     (if e = asc ''.'' then resolve_elements P es ret
      else if e = asc ''..'' then
        (if path_has_filename P ret then resolve_elements P es (path_remove_filename P ret) else None)
      else resolve_elements P es (path_append P ret e))"

text \<open>The overload for strings splits at the slashes, the one for what converts to a path takes its elements.\<close>

datatype 'p path_argument = Path_string bytes | Path_value 'p

definition resolve_dots :: "'p path_api \<Rightarrow> 'p path_argument \<Rightarrow> 'p option" where
  "resolve_dots P ipath =
     (case ipath of
        Path_string v \<Rightarrow> resolve_elements P (split_on 0x2F v) (path_empty P)
      | Path_value p \<Rightarrow> resolve_elements P (path_elements P p) (path_empty P))"

definition path_contains_file :: "'p path_api \<Rightarrow> 'p \<Rightarrow> 'p \<Rightarrow> bool" where
  "path_contains_file P dir file =
     (let dir_len = length (path_elements P dir); file_len = length (path_elements P file)
      in if dir_len > file_len then False
         else path_elements P dir = take dir_len (path_elements P file))"

section \<open>The file system\<close>

text \<open>The left side of a sum is the error code of a \<open>filesystem_error\<close>; a file that cannot be opened has no contents.\<close>

record ('p, 't) file_system =
  fsys_canonical :: "'p \<Rightarrow> nat + 'p"
  fsys_exists :: "'p \<Rightarrow> nat + bool"
  fsys_is_regular_file :: "'p \<Rightarrow> nat + bool"
  fsys_last_write_time :: "'p \<Rightarrow> nat + 't"
  fsys_file_size :: "'p \<Rightarrow> nat + u64"
  fsys_open :: "'p \<Rightarrow> bytes option"

text \<open>\<open>HTTP-date\<close> goes to seconds.\<close>

definition last_modified_http_date :: "('d, 't) time_api \<Rightarrow> ('p, 't) file_system \<Rightarrow> 'p \<Rightarrow> nat + 't" where
  "last_modified_http_date T F file =
     (case fsys_last_write_time F file of
        Inl e \<Rightarrow> Inl e
      | Inr t \<Rightarrow> Inr (make_time T (time_date T t) (time_of_day T t)))"

section \<open>Conditional requests\<close>

text \<open>
  The entity tag of the response: its opaque part, and whether it is strong. For the three bytes \<open>W/"\<close> the
  length \<open>value.size() - 4\<close> wraps around: \<open>None\<close>.
\<close>

definition etag_of :: "headers \<Rightarrow> (bytes \<times> bool) option" where
  "etag_of h =
     (case equal_range h (asc ''etag'') of
        [v] \<Rightarrow>
          (if length v < 2 \<or> last v \<noteq> 0x22 then Some ([], False)
           else if hd v = 0x22 then Some (take (length v - 2) (drop 1 v), True)
           else if length v > 2 \<and> v ! 0 = 0x57 \<and> v ! 1 = 0x2F \<and> v ! 2 = 0x22 then
             (if length v < 4 then None else Some (take (length v - 4) (drop 3 v), False))
           else Some ([], False))
      | _ \<Rightarrow> Some ([], False))"

text \<open>What a check of the conditional headers comes to.\<close>

datatype 'a checked = Checked 'a | Date_exception

definition header_time :: "('d, 't) time_api \<Rightarrow> bytes list \<Rightarrow> 't option checked" where
  "header_time T values =
     (case values of
        [v] \<Rightarrow> (case header_to_ptime T v of Returns r \<Rightarrow> Checked r | _ \<Rightarrow> Date_exception)
      | _ \<Rightarrow> Checked None)"

text \<open>Whether the response is 412; the arguments are the tag, the time of the last modification and the headers of the request.\<close>

definition precondition_fails :: "('d, 't) time_api \<Rightarrow> bytes \<times> bool \<Rightarrow> 't \<Rightarrow> headers \<Rightarrow> bool checked" where
  "precondition_fails T etag last_modified h =
     (let if_match = equal_range h (asc ''if-match'')
      in if if_match \<noteq> [] then
           Checked (length (fst etag) = 0 \<or> \<not> snd etag
             \<or> \<not> list_ex (\<lambda>v. header_value_any_of v (\<lambda>e. e = asc ''*'' \<or> etag_match_strong (fst etag) e)) if_match)
         else
           (case header_time T (equal_range h (asc ''if-unmodified-since'')) of
              Checked None \<Rightarrow> Checked False
            | Checked (Some query) \<Rightarrow> Checked (time_less T query last_modified)
            | Date_exception \<Rightarrow> Date_exception))"

text \<open>Whether the response is 304.\<close>

definition not_modified :: "('d, 't) time_api \<Rightarrow> bytes \<times> bool \<Rightarrow> 't \<Rightarrow> headers \<Rightarrow> bool checked" where
  "not_modified T etag last_modified h =
     (let if_none_match = equal_range h (asc ''if-none-match'')
      in if if_none_match \<noteq> [] then
           Checked (length (fst etag) \<noteq> 0
             \<and> list_ex (\<lambda>v. header_value_any_of v (\<lambda>e. e = asc ''*'' \<or> etag_match_weak (fst etag) e)) if_none_match)
         else
           (case header_time T (equal_range h (asc ''if-modified-since'')) of
              Checked None \<Rightarrow> Checked False
            | Checked (Some query) \<Rightarrow> Checked (\<not> time_less T query last_modified)
            | Date_exception \<Rightarrow> Date_exception))"

text \<open>Whether the \<open>range\<close> header is processed.\<close>

definition process_range :: "('d, 't) time_api \<Rightarrow> bool \<Rightarrow> 't \<Rightarrow> headers \<Rightarrow> bool checked" where
  "process_range T is_head_request last_modified h =
     (if is_head_request \<or> length (equal_range h (asc ''range'')) \<noteq> 1 then Checked False
      else case header_time T (equal_range h (asc ''if-range'')) of
             Checked None \<Rightarrow> Checked True
           | Checked (Some query) \<Rightarrow> Checked (last_modified = query)
           | Date_exception \<Rightarrow> Date_exception)"

section \<open>The response\<close>

text \<open>How a call ends: the handler is posted, a response was written, a loop was started behind the write of the metadata, or an exception leaves the function.\<close>

datatype file_response =
    Post transfer_error
  | Response write_outcome
  | Start_loop file_loop write_outcome
  | Start_multi_loop multi_loop write_outcome
  | Throws_filesystem_error nat
  | Throws_out_of_range
  | Undefined_length

text \<open>
  What the functions need of the libraries: \<open>iequals\<close>; of the body of the response, its greatest size and its
  capacity; and what a view into a header value reads after other headers were added to the container. The
  container of \<open>headers.hpp\<close> is a \<open>flat_multimap\<close>, which moves its elements: such a view reads the value only if
  the characters did not move with their string.
\<close>

record response_context =
  rc_iequals :: "bytes \<Rightarrow> bytes \<Rightarrow> bool"
  rc_max_size :: nat
  rc_capacity :: nat
  rc_view_after_emplace :: "bytes \<Rightarrow> bytes"

definition rc_buffer_size :: "response_context \<Rightarrow> nat" where
  "rc_buffer_size c = (if rc_capacity c \<noteq> 0 then rc_capacity c else 64)"

definition respond ::
  "response_context \<Rightarrow> nat \<Rightarrow> string \<Rightarrow> message \<Rightarrow> http_socket \<Rightarrow> message \<times> http_socket \<times> file_response" where
  "respond c status reason m s =
     (let (s, w) = async_write_response (rc_iequals c) status (asc reason) m s in (m, s, Response w))"

definition add_header :: "string \<Rightarrow> bytes \<Rightarrow> message \<Rightarrow> message" where
  "add_header name v m = m\<lparr>msg_headers := multimap_emplace (asc name) v (msg_headers m)\<rparr>"

text \<open>A range of the file, or all of it: in pieces, or read into the body of one response.\<close>

definition send_piece ::
  "response_context \<Rightarrow> nat \<Rightarrow> string \<Rightarrow> bytes option \<Rightarrow> nat \<Rightarrow> nat \<Rightarrow> message \<Rightarrow> http_socket \<Rightarrow>
     message \<times> http_socket \<times> file_response" where
  "send_piece c status reason contents first n m s =
     (if so_modern_http s then
        let m = m\<lparr>msg_body := replicate (rc_buffer_size c) 0\<rparr>
        in case contents of
             None \<Rightarrow> (m, s, Post (File_server Io_error))
           | Some v \<Rightarrow>
               let l = \<lparr>fl_stream = stream_seekg first \<lparr>fs_contents = v, fs_pos = 0\<rparr>, fl_remaining = n\<rparr>;
                   (s, w) = async_write_response_metadata (rc_iequals c) status (asc reason) m s
               in (m, s, Start_loop l w)
      else if n > rc_max_size c then (m, s, Post (File_server Io_error))
      else
        let m = m\<lparr>msg_body := replicate n 0\<rparr>
        in case contents of
             None \<Rightarrow> (m, s, Post (File_server Io_error))
           | Some v \<Rightarrow>
               (case stream_read n (stream_seekg first \<lparr>fs_contents = v, fs_pos = 0\<rparr>) of
                  None \<Rightarrow> (m, s, Post (File_server Io_error))
                | Some (data, _) \<Rightarrow> respond c status reason (m\<lparr>msg_body := data\<rparr>) s))"

definition respond_range ::
  "response_context \<Rightarrow> bytes option \<Rightarrow> u64 \<Rightarrow> byte_range \<Rightarrow> message \<Rightarrow> http_socket \<Rightarrow> message \<times> http_socket \<times> file_response" where
  "respond_range c contents file_size r m s =
     (let m = add_header ''content-range''
                (asc ''bytes '' @ to_string (unat (fst r)) @ asc ''-'' @ to_string (unat (snd r)) @ asc ''/'' @ to_string (unat file_size)) m;
          r = to_cpp_range r
      in send_piece c 206 ''Partial Content'' contents (unat (fst r)) (unat (snd r)) m s)"

text \<open>The body of a response with several ranges; \<open>None\<close>: the handler is posted with \<open>io_error\<close>.\<close>

fun multipart_body :: "bytes \<Rightarrow> bytes \<Rightarrow> u64 \<Rightarrow> byte_range list \<Rightarrow> bytes \<Rightarrow> bytes option" where
  "multipart_body content_type contents file_size [] body = Some (body @ final_boundary)"
| "multipart_body content_type contents file_size (r # rs) body =
     (let body = body @ boundary_line;
          body = (if content_type \<noteq> [] then body @ content_type_key @ content_type @ crlf else body);
          body = body @ content_range_key @ to_string (unat (fst r)) @ asc ''-'' @ to_string (unat (snd r))
                   @ asc ''/'' @ to_string (unat file_size);
          body = body @ crlf;
          r = to_cpp_range r;
          body = body @ crlf
      in case safe_add (of_nat (length body)) (snd r) of
           None \<Rightarrow> None
         | Some _ \<Rightarrow>
             (case stream_read (unat (snd r)) (stream_seekg (unat (fst r)) \<lparr>fs_contents = contents, fs_pos = 0\<rparr>) of
                None \<Rightarrow> None
              | Some (data, _) \<Rightarrow> multipart_body content_type contents file_size rs (body @ data)))"

definition respond_ranges ::
  "response_context \<Rightarrow> bytes option \<Rightarrow> u64 \<Rightarrow> byte_range list \<Rightarrow> message \<Rightarrow> http_socket \<Rightarrow> message \<times> http_socket \<times> file_response" where
  "respond_ranges c contents file_size range_set m s =
     (let content_type = (case equal_range (msg_headers m) (asc ''content-type'') of [v] \<Rightarrow> v | _ \<Rightarrow> []);
          m = m\<lparr>msg_headers := multimap_erase (asc ''content-type'') (msg_headers m)\<rparr>;
          m = add_header ''content-type'' (asc ''multipart/byteranges;boundary='' @ asc ''-'') m
      in if so_modern_http s then
           let m = m\<lparr>msg_body := replicate (rc_buffer_size c) 0\<rparr>
           in case contents of
                None \<Rightarrow> (m, s, Post (File_server Io_error))
              | Some v \<Rightarrow>
                  let l = new_multi_loop content_type v range_set (unat file_size);
                      (s, w) = async_write_response_metadata (rc_iequals c) 206 (asc ''Partial Content'') m s
                  in (m, s, Start_multi_loop l w)
         else
           (case contents of
              None \<Rightarrow> (m, s, Post (File_server Io_error))
            | Some v \<Rightarrow>
                (case multipart_body content_type v file_size range_set [] of
                   None \<Rightarrow> (m, s, Post (File_server Io_error))
                 | Some body \<Rightarrow> respond c 206 ''Partial Content'' (m\<lparr>msg_body := body\<rparr>) s)))"

section \<open>Sending a file\<close>

text \<open>The headers that depend on nothing but the file; \<open>None\<close>: \<open>to_http_date\<close> throws.\<close>

definition add_file_headers :: "('d, 't) time_api \<Rightarrow> 't \<Rightarrow> 't \<Rightarrow> message \<Rightarrow> message option" where
  "add_file_headers T now last_modified m =
     (let m = add_header ''accept-ranges'' (asc ''bytes'') m
      in case (to_http_date T now, to_http_date T last_modified) of
           (Some d, Some l) \<Rightarrow> Some (add_header ''last-modified'' l (add_header ''date'' d m))
         | _ \<Rightarrow> None)"

text \<open>The part behind the conditional headers: a range request, a \<open>HEAD\<close> request, or the whole file.\<close>

definition respond_file ::
  "response_context \<Rightarrow> ('d, 't) time_api \<Rightarrow> bytes option \<Rightarrow> u64 \<Rightarrow> 't \<Rightarrow> headers \<Rightarrow> bool \<Rightarrow> message \<Rightarrow> http_socket \<Rightarrow>
     message \<times> http_socket \<times> file_response" where
  "respond_file c T contents file_size last_modified request is_head_request m s =
     (case process_range T is_head_request last_modified request of
        Date_exception \<Rightarrow> (m, s, Throws_out_of_range)
      | Checked True \<Rightarrow>
          (let (range_set, valid) = is_valid_range (hd (equal_range request (asc ''range''))) file_size []
           in if \<not> valid then
                respond c 416 ''Range Not Satisfiable''
                  (add_header ''content-range'' (asc ''bytes */'' @ to_string (unat file_size)) m) s
              else if length range_set = 1 then respond_range c contents file_size (hd range_set) m s
              else respond_ranges c contents file_size range_set m s)
      | Checked False \<Rightarrow>
          (if is_head_request then respond c 200 ''OK'' (add_header ''content-length'' (to_string (unat file_size)) m) s
           else send_piece c 200 ''OK'' contents 0 (unat file_size) m s))"

definition async_response_transmit_file ::
  "response_context \<Rightarrow> ('d, 't) time_api \<Rightarrow> 't \<Rightarrow> ('p, 't) file_system \<Rightarrow> headers \<Rightarrow> 'p \<Rightarrow> bool \<Rightarrow> message \<Rightarrow> http_socket \<Rightarrow>
     message \<times> http_socket \<times> file_response" where
  "async_response_transmit_file c T now F request file is_head_request m s =
     (if so_writer s \<noteq> Write_empty \<and> so_writer s \<noteq> Continue_issued then
        (m, s, Post (File_server Write_state_not_supported))
      else case last_modified_http_date T F file of
        Inl e \<Rightarrow> (m, s, Throws_filesystem_error e)
      | Inr last_modified \<Rightarrow>
          (case fsys_file_size F file of
             Inl e \<Rightarrow> (m, s, Throws_filesystem_error e)
           | Inr file_size \<Rightarrow>
               let m = m\<lparr>msg_body := []\<rparr>
               in if file_size = 0 then respond c 200 ''OK'' m s
                  else case etag_of (msg_headers m) of
                    None \<Rightarrow> (m, s, Undefined_length)
                  | Some etag \<Rightarrow>
                      let etag = (rc_view_after_emplace c (fst etag), snd etag);
                          last_modified = (if time_less T now last_modified then now else last_modified)
                      in case add_file_headers T now last_modified m of
                           None \<Rightarrow> (m, s, Throws_out_of_range)
                         | Some m \<Rightarrow>
                             (case precondition_fails T etag last_modified request of
                                Date_exception \<Rightarrow> (m, s, Throws_out_of_range)
                              | Checked True \<Rightarrow> respond c 412 ''Precondition Failed'' m s
                              | Checked False \<Rightarrow>
                                  (case not_modified T etag last_modified request of
                                     Date_exception \<Rightarrow> (m, s, Throws_out_of_range)
                                   | Checked True \<Rightarrow> respond c 304 ''Not Modified'' m s
                                   | Checked False \<Rightarrow>
                                       respond_file c T (fsys_open F file) file_size last_modified request is_head_request m s))))"

section \<open>Sending a file of a directory\<close>

definition async_response_transmit_dir ::
  "response_context \<Rightarrow> ('d, 't) time_api \<Rightarrow> 't \<Rightarrow> ('p, 't) file_system \<Rightarrow> 'p path_api \<Rightarrow> bytes \<Rightarrow> 'p path_argument \<Rightarrow> headers
   \<Rightarrow> 'p \<Rightarrow> ('p \<Rightarrow> bool) \<Rightarrow> message \<Rightarrow> http_socket \<Rightarrow> message \<times> http_socket \<times> file_response" where
  "async_response_transmit_dir c T now F P method ipath request root_dir user_filter m s =
     (if method \<noteq> asc ''GET'' \<and> method \<noteq> asc ''HEAD'' then
        respond c 405 ''Method Not Allowed'' (add_header ''allow'' (asc ''GET, HEAD'') m) s
      else case fsys_canonical F root_dir of
        Inl e \<Rightarrow> (m, s, Post (Filesystem e))
      | Inr canonical_root \<Rightarrow>
          (case resolve_dots P ipath of
             None \<Rightarrow> (m, s, Post (File_server File_not_found))
           | Some resolved \<Rightarrow>
               let canonical_file = path_join P canonical_root resolved
               in if \<not> path_contains_file P canonical_root canonical_file then (m, s, Post (File_server File_not_found))
                  else case fsys_exists F canonical_file of
                    Inl e \<Rightarrow> (m, s, Post (Filesystem e))
                  | Inr False \<Rightarrow> (m, s, Post (File_server File_not_found))
                  | Inr True \<Rightarrow>
                      (case fsys_is_regular_file F canonical_file of
                         Inl e \<Rightarrow> (m, s, Post (Filesystem e))
                       | Inr False \<Rightarrow> (m, s, Post (File_server File_type_not_supported))
                       | Inr True \<Rightarrow>
                           (if \<not> user_filter canonical_file then (m, s, Post (File_server Filter_set))
                            else case async_response_transmit_file c T now F request canonical_file (method = asc ''HEAD'') m s of
                                   (m, s, Throws_filesystem_error e) \<Rightarrow> (m, s, Post (Filesystem e))
                                 | response \<Rightarrow> response))))"

end
