(* ===== verification/FileServerProperties.thy ===== *)
theory FileServerProperties
  imports FileServer
begin

text \<open>
  What holds of the responses of \<open>FileServer\<close>: a request reaches only files below the root, both ways of sending
  ranges deliver the same bytes, a client can revalidate with the date it was sent, and a quoted entity
  tag never matches.
\<close>

section \<open>Paths stay below the root\<close>

text \<open>An element that is neither a dot nor appended does not appear; a slash at the end shows as a dot.\<close>

definition path_laws :: "'p path_api \<Rightarrow> bool" where
  "path_laws P \<longleftrightarrow>
     set (path_elements P (path_empty P)) \<subseteq> {asc ''.''}
     \<and> (\<forall>p e. set (path_elements P (path_append P p e)) \<subseteq> insert e (insert (asc ''.'') (set (path_elements P p))))
     \<and> (\<forall>p. set (path_elements P (path_remove_filename P p)) \<subseteq> insert (asc ''.'') (set (path_elements P p)))
     \<and> (\<forall>p q. set (path_elements P (path_join P p q)) \<subseteq> insert (asc ''.'') (set (path_elements P p) \<union> set (path_elements P q)))"

lemma dots_differ [simp]: "asc ''..'' \<noteq> asc ''.''"
  by (simp add: asc_def)

definition no_dots :: "'p path_api \<Rightarrow> 'p \<Rightarrow> bool" where
  "no_dots P p \<longleftrightarrow> asc ''..'' \<notin> set (path_elements P p)"

lemma no_dots_intros:
  assumes "path_laws P"
  shows "no_dots P (path_empty P)"
    and "no_dots P p \<Longrightarrow> e \<noteq> asc ''..'' \<Longrightarrow> no_dots P (path_append P p e)"
    and "no_dots P p \<Longrightarrow> no_dots P (path_remove_filename P p)"
    and "no_dots P p \<Longrightarrow> no_dots P q \<Longrightarrow> no_dots P (path_join P p q)"
  using assms dots_differ unfolding path_laws_def no_dots_def by blast+

lemma resolve_elements_no_dots:
  assumes "path_laws P"
  shows "resolve_elements P es ret = Some p \<Longrightarrow> no_dots P ret \<Longrightarrow> no_dots P p"
proof (induction es arbitrary: ret)
  case (Cons e es)
  then show ?case
    using no_dots_intros [OF assms] by (auto split: if_splits)
qed simp

lemma resolve_dots_no_dots:
  assumes "path_laws P" and "resolve_dots P ipath = Some p"
  shows "no_dots P p"
  using assms(2) resolve_elements_no_dots [OF assms(1)] no_dots_intros(1) [OF assms(1)]
  by (cases ipath) (auto simp: resolve_dots_def)



section \<open>Both kinds of connection deliver the same range\<close>

lemma write_response_accepted:
  assumes "so_writer s \<in> {Write_empty, Continue_issued}"
  shows "\<exists>s'. async_write_response ieq status reason m s = (s', Sent (response_bytes (so_modern_http s) (so_connect_request s)
    (so_keep_alive s' = KEEP_ALIVE_CLOSE_READ \<and> \<not> has_connection_close ieq (msg_headers m)) status reason m))"
  using assms by (auto simp: async_write_response_def write_message_def Let_def)

lemma write_metadata_accepted:
  assumes "so_writer s \<in> {Write_empty, Continue_issued}" and "so_modern_http s"
  shows "\<exists>s' bs. async_write_response_metadata ieq status reason m s = (s', Sent bs) \<and> so_writer s' = Metadata_issued"
  using assms by (auto simp: async_write_response_metadata_def write_metadata_def Let_def)

lemma send_piece_delivers:
  assumes "so_writer s \<in> {Write_empty, Continue_issued}" and "first + n \<le> length v" and "n \<le> rc_max_size c"
    and "send_piece c status reason (Some v) first n m s = (m', s', response)"
  shows "msg_headers m' = msg_headers m \<and> (if so_modern_http s then
      \<exists>l w chunks. response = Start_loop l (Sent w)
        \<and> run_transfer (n + 1) transmit_process No_error l m' s' []
          = Handler_called (Channel No_error) (on_response_written (s'\<lparr>so_writer := Finished\<rparr>)) (concat (map chunk_bytes chunks) @ end_of_message_bytes)
        \<and> concat chunks = take n (drop first v)
    else msg_body m' = take n (drop first v)
      \<and> (\<exists>close. response = Response (Sent (response_bytes False (so_connect_request s) close status (asc reason) m'))))"
proof (cases "so_modern_http s")
  case True
  let ?m = "m\<lparr>msg_body := replicate (rc_buffer_size c) 0\<rparr>"
  obtain s1 w where w: "async_write_response_metadata (rc_iequals c) status (asc reason) ?m s = (s1, Sent w)" "so_writer s1 = Metadata_issued"
    using write_metadata_accepted [OF assms(1) True] by blast
  have r: "m' = ?m" "s' = s1" "response = Start_loop \<lparr>fl_stream = \<lparr>fs_contents = v, fs_pos = first\<rparr>, fl_remaining = n\<rparr> (Sent w)"
    using assms(4) True by (simp_all add: send_piece_def w(1) stream_seekg_def)
  have b: "msg_body ?m \<noteq> []"
    by (simp add: rc_buffer_size_def)
  have "concat (pieces (length (msg_body ?m)) (take n (drop first v))) = take n (drop first v)"
    using b by (intro concat_pieces) simp
  with range_transfer [OF w(2) b assms(2), of "[]"] True r show ?thesis
    by auto
next
  case False
  have "stream_read n (stream_seekg first \<lparr>fs_contents = v, fs_pos = 0\<rparr>) =
      Some (take n (drop first v), \<lparr>fs_contents = v, fs_pos = first + n\<rparr>)"
    using assms(2) by (simp add: stream_read_def stream_seekg_def)
  then have "respond c status reason (m\<lparr>msg_body := take n (drop first v)\<rparr>) s = (m', s', response)"
    using assms(3,4) False by (simp add: send_piece_def)
  then show ?thesis
    using write_response_accepted [OF assms(1), of "rc_iequals c" status "asc reason" "m\<lparr>msg_body := take n (drop first v)\<rparr>"] False
    by (auto simp: respond_def split: prod.splits)
qed

text \<open>
  C15: a request for one range gets exactly these bytes of the file, on a connection that streams as on one that
  does not: streamed, the chunks the loop sends are the range and the handler is called without an error;
  otherwise the body of the one response is the range. The header \<open>content-range\<close> carries the range and the
  size of the file.
\<close>

theorem single_range_delivered:
  assumes "is_valid_range v file_size [] = ([r], True)" and "file_size \<noteq> 0" and "length contents = unat file_size"
    and "so_writer s \<in> {Write_empty, Continue_issued}" and "length contents \<le> rc_max_size c"
    and "respond_range c (Some contents) file_size r m s = (m', s', response)"
  shows "let first = unat (fst r); n = unat (snd r) - first + 1; piece = take n (drop first contents)
    in length piece = n
      \<and> msg_headers m' = multimap_emplace (asc ''content-range'')
          (asc ''bytes '' @ to_string first @ asc ''-'' @ to_string (unat (snd r)) @ asc ''/'' @ to_string (length contents)) (msg_headers m)
      \<and> (if so_modern_http s then
           \<exists>l w chunks. response = Start_loop l (Sent w)
             \<and> run_transfer (n + 1) transmit_process No_error l m' s' []
               = Handler_called (Channel No_error) (on_response_written (s'\<lparr>so_writer := Finished\<rparr>)) (concat (map chunk_bytes chunks) @ end_of_message_bytes)
             \<and> concat chunks = piece
         else msg_body m' = piece
           \<and> (\<exists>close. response = Response (Sent (response_bytes False (so_connect_request s) close 206 (asc ''Partial Content'') m'))))"
proof -
  let ?first = "unat (fst r)" and ?n = "unat (snd r) - unat (fst r) + 1"
  have r: "fst r \<le> snd r" "snd r < file_size"
    using valid_range_inside [OF assms(2,1), of r] by simp_all
  note d = to_cpp_range_length [OF r]
  have n: "unat (snd (to_cpp_range r)) = ?n" "fst (to_cpp_range r) = fst r"
    using d(1) by (simp_all add: to_cpp_range_def)
  have inside: "?first + ?n \<le> length contents" "?n \<le> rc_max_size c"
    using d(2) assms(3,5) by (simp_all add: n)
  note send = assms(6) [unfolded respond_range_def Let_def n add_header_def, folded assms(3)]
  note delivered = send_piece_delivers [OF assms(4) inside send]
  have "length (take ?n (drop ?first contents)) = ?n"
    using inside(1) by simp
  then show ?thesis
    unfolding Let_def using delivered [THEN conjunct1] delivered [THEN conjunct2]
    by (intro conjI) (assumption | simp)+
qed


section \<open>Both kinds of connection deliver the same parts\<close>

lemma unat_fits: "n < 2 ^ 64 \<Longrightarrow> unat (of_nat n :: u64) = n"
  by (simp add: unat_of_nat)

lemma safe_add_fits:
  assumes "unat a + unat b < 2 ^ 64"
  shows "safe_add a b = Some (a + b)"
proof -
  have "unat (- 1 :: u64) = 2 ^ 64 - 1"
    by (simp add: unat_max)
  then have "unat (- 1 - a) = 2 ^ 64 - 1 - unat a"
    by (simp add: unat_sub)
  then have "\<not> - 1 - a < b"
    using assms by (simp add: word_less_nat_alt)
  then show ?thesis
    by (simp add: safe_add_def)
qed

lemma multipart_body_pieces:
  assumes "\<forall>r \<in> set rs. range_ok (length contents) r" and "length contents < 2 ^ 64"
    and "length body + sum_list (map piece_length (later_pieces ct (to_string (unat file_size)) rs)) < 2 ^ 64"
  shows "multipart_body ct contents file_size rs body =
    Some (body @ concat (map (\<lambda>p. emit contents p 0 (piece_length p)) (later_pieces ct (to_string (unat file_size)) rs)))"
  using assms(1,3)
proof (induction rs arbitrary: body)
  case Nil
  then show ?case
    by (simp add: later_pieces_def)
next
  case (Cons r rs)
  let ?sz = "to_string (unat file_size)" and ?r = "to_cpp_range r"
  let ?head = "boundary_line @ (if ct \<noteq> [] then content_type_key @ ct @ crlf else []) @ content_range_key
    @ to_string (unat (fst r)) @ asc ''-'' @ to_string (unat (snd r)) @ asc ''/'' @ ?sz @ double_crlf"
  let ?data = "take (unat (snd ?r)) (drop (unat (fst ?r)) contents)"
  have "cpp_range_ok (length contents) ?r"
    using Cons.prems(1) assms(2) to_cpp_range_ok by auto
  then have inside: "unat (fst ?r) + unat (snd ?r) \<le> length contents"
    by (simp add: cpp_range_ok_def)
  then have read: "stream_read (unat (snd ?r)) (stream_seekg (unat (fst ?r)) \<lparr>fs_contents = contents, fs_pos = 0\<rparr>) =
      Some (?data, \<lparr>fs_contents = contents, fs_pos = unat (fst ?r) + unat (snd ?r)\<rparr>)" and data: "length ?data = unat (snd ?r)"
    by (simp_all add: stream_read_def stream_seekg_def)
  have part: "concat (map (\<lambda>p. emit contents p 0 (piece_length p)) (part_pieces STATE_BOUNDARY_LINE ct ?sz r)) = ?head @ ?data"
    "sum_list (map piece_length (part_pieces STATE_BOUNDARY_LINE ct ?sz r)) = length ?head + length ?data"
    using data by (simp_all add: Let_def)
  have pieces: "later_pieces ct ?sz (r # rs) = part_pieces STATE_BOUNDARY_LINE ct ?sz r @ later_pieces ct ?sz rs"
    by (simp add: later_pieces_def)
  have room: "length ((body @ ?head) @ ?data) + sum_list (map piece_length (later_pieces ct ?sz rs)) < 2 ^ 64"
    using Cons.prems(2) part(2) unfolding pieces by simp
  have "unat (of_nat (length (body @ ?head)) :: u64) = length (body @ ?head)"
    using room by (intro unat_fits) simp
  then have "safe_add (of_nat (length (body @ ?head))) (snd ?r) \<noteq> None"
    using safe_add_fits [of "of_nat (length (body @ ?head))" "snd ?r"] room data by simp
  then obtain w where w: "safe_add (of_nat (length (body @ ?head))) (snd ?r) = Some w"
    by blast
  have body: "(let body = body @ boundary_line;
          body = (if ct \<noteq> [] then body @ content_type_key @ ct @ crlf else body);
          body = body @ content_range_key @ to_string (unat (fst r)) @ asc ''-'' @ to_string (unat (snd r)) @ asc ''/'' @ ?sz;
          body = body @ crlf
      in body @ crlf) = body @ ?head"
    by (simp add: Let_def)
  have "multipart_body ct contents file_size (r # rs) body = multipart_body ct contents file_size rs ((body @ ?head) @ ?data)"
    using w read by (simp only: multipart_body.simps Let_def body [unfolded Let_def] option.case prod.case)
  also have "\<dots> = Some (((body @ ?head) @ ?data) @ concat (map (\<lambda>p. emit contents p 0 (piece_length p)) (later_pieces ct ?sz rs)))"
    using Cons.IH [OF _ room] Cons.prems(1) by simp
  finally show ?case
    unfolding pieces map_append concat_append part(1) by (simp only: append_assoc)
qed

text \<open>
  A request for several ranges gets the same multipart body on both kinds of connection as long as it fits
  the buffer of the loop: the plain path builds it, and the loop sends it as one chunk.
\<close>

theorem both_send_multipart:
  assumes "rs \<noteq> []" and "\<forall>r \<in> set rs. fst r \<le> snd r \<and> unat (snd r) < length contents" and "length contents < 2 ^ 64"
    and "so_writer s = Metadata_issued" and "length (msg_body m) < 2 ^ 64"
    and "sum_list (map piece_length (later_pieces ct (to_string (unat file_size)) rs)) \<le> length (msg_body m)"
  shows "\<exists>body n. multipart_body ct contents file_size rs [] = Some body
    \<and> run_transfer n multi_process No_error (new_multi_loop ct contents rs (unat file_size)) m s []
      = Handler_called (Channel No_error) (on_response_written (s\<lparr>so_writer := Finished\<rparr>)) (chunk_bytes body @ end_of_message_bytes)"
proof -
  let ?ps = "later_pieces ct (to_string (unat file_size)) rs"
  let ?body = "concat (map (\<lambda>p. emit contents p 0 (piece_length p)) ?ps)"
  have "0 < sum_list (map piece_length ?ps)"
    by (simp add: later_pieces_def text_texts)
  then have b: "msg_body m \<noteq> []"
    using assms(6) by (metis list.size(3) not_less)
  have "multipart_body ct contents file_size rs [] = Some ?body"
    using multipart_body_pieces [of rs contents "[]"] assms by (simp add: range_ok_def)
  moreover have "fill_all contents (length (msg_body m)) ?ps (piece_length (hd ?ps)) = [?body]"
    by (rule multipart_fits [OF multi_transfer_sends(2,3) [OF assms(1-4) b] assms(6)])
  ultimately show ?thesis
    using multi_transfer_sends(1) [OF assms(1-4) b, of ct "unat file_size"] by auto
qed


section \<open>Revalidation\<close>

text \<open>
  A client that sends back the date it was given revalidates: when the request has no entity tags and its
  \<open>if-modified-since\<close> is the \<open>last-modified\<close> the server sends for the file, the response is 304, and carries that
  date again.
\<close>

theorem last_modified_revalidates:
  assumes "time_laws T" and "\<And>t. \<not> time_less T t t"
    and "make_date T y mo d = Some dt" and "h \<le> 23" and "mi \<le> 59" and "sec \<le> 59"
    and "fsys_last_write_time F file = Inr t" and "time_date T t = dt" and "time_of_day T t = (h, mi, sec)"
    and "\<not> time_less T now (make_time T dt (h, mi, sec))" and "to_http_date T now \<noteq> None"
    and "fsys_file_size F file = Inr file_size" and "file_size \<noteq> 0" and "etag_of (msg_headers m) \<noteq> None"
    and "multimap_ok (msg_headers m)" and "so_writer s \<in> {Write_empty, Continue_issued}"
    and "equal_range request (asc ''if-match'') = []" and "equal_range request (asc ''if-unmodified-since'') = []"
    and "equal_range request (asc ''if-none-match'') = []"
    and "equal_range request (asc ''if-modified-since'') = [date]"
    and "to_http_date T (make_time T dt (h, mi, sec)) = Some date"
  shows "\<exists>m'. async_response_transmit_file c T now F request file is_head_request m s = respond c 304 ''Not Modified'' m' s
    \<and> date \<in> set (equal_range (msg_headers m') (asc ''last-modified'')) \<and> msg_body m' = []"
proof -
  let ?lm = "make_time T dt (h, mi, sec)"
  obtain etag now_date where etag: "etag_of (msg_headers m) = Some etag" and now_date: "to_http_date T now = Some now_date"
    using assms(11,14) by auto
  have read: "header_to_ptime T date = Returns (Some ?lm)"
    using http_date_read_back [OF assms(1,3-6)] assms(21) by auto
  define m' where "m' = add_header ''last-modified'' date (add_header ''date'' now_date (add_header ''accept-ranges'' (asc ''bytes'') (m\<lparr>msg_body := []\<rparr>)))"
  have "add_file_headers T now ?lm (m\<lparr>msg_body := []\<rparr>) = Some m'"
    using now_date assms(21) by (simp add: add_file_headers_def m'_def Let_def)
  moreover have "precondition_fails T e ?lm request = Checked False" "not_modified T e ?lm request = Checked True" for e
    using assms(2,17-20) read by (simp_all add: precondition_fails_def not_modified_def header_time_def Let_def)
  ultimately have "async_response_transmit_file c T now F request file is_head_request m s = respond c 304 ''Not Modified'' m' s"
    using assms(7-10,12,13,16) etag
    by (auto simp: async_response_transmit_file_def last_modified_http_date_def Let_def)
  moreover have "date \<in> set (equal_range (msg_headers m') (asc ''last-modified''))"
    using assms(15) by (simp add: m'_def add_header_def equal_range_emplace multimap_ok_emplace)
  moreover have "msg_body m' = []"
    by (simp add: m'_def add_header_def)
  ultimately show ?thesis
    by blast
qed

section \<open>Entity tags\<close>

text \<open>An entity tag as a client writes it: in quotes, with \<open>W/\<close> in front if it is weak.\<close>

definition entity_tag :: "bytes \<Rightarrow> bool" where
  "entity_tag e \<longleftrightarrow> (\<exists>w. e = 0x22 # w) \<or> (\<exists>w. e = 0x57 # 0x2F # 0x22 # w)"

lemma unquoted_never_matches:
  assumes "0x22 \<notin> set tag" and "entity_tag e" and "tag \<noteq> []"
  shows "\<not> etag_match_strong tag e" and "\<not> etag_match_weak tag e"
proof -
  show "\<not> etag_match_strong tag e"
  proof
    assume "etag_match_strong tag e"
    then have "tag = e"
      by (simp add: etag_match_strong_def split: if_splits)
    moreover have "0x22 \<in> set e"
      using assms(2) by (auto simp: entity_tag_def)
    ultimately show False
      using assms(1) by simp
  qed
  have t: "0x22 \<notin> set (if 2 < length tag \<and> tag ! 0 = 0x57 then drop 2 tag else tag)"
    using assms(1) by (auto dest: in_set_dropD)
  have "0x22 \<in> set (if 2 < length e \<and> e ! 0 = 0x57 then drop 2 e else e)"
    using assms(2) by (auto simp: entity_tag_def)
  with t have "(if 2 < length tag \<and> tag ! 0 = 0x57 then drop 2 tag else tag) \<noteq> (if 2 < length e \<and> e ! 0 = 0x57 then drop 2 e else e)"
    by (intro notI) (simp only: simp_thms)
  then show "\<not> etag_match_weak tag e"
    by (simp only: etag_match_weak_def Let_def not_False_eq_True simp_thms)
qed

text \<open>
  The entity tag of a response never matches the one a client sends back, although they are the same: the tag
  of the response is compared without its quotes, the tags of the request with theirs. So every request with
  \<open>if-match\<close> and entity tags is answered with 412, and no request with \<open>if-none-match\<close> and entity tags is found
  unmodified.
\<close>

theorem quoted_tags_never_match:
  assumes "etag_of (msg_headers m) = Some (tag, strong)" and "0x22 \<notin> set tag" and "rc_view_after_emplace c tag = tag"
    and "so_writer s \<in> {Write_empty, Continue_issued}" and "last_modified_http_date T F file = Inr t"
    and "fsys_file_size F file = Inr file_size" and "file_size \<noteq> 0"
    and "to_http_date T now \<noteq> None \<and> to_http_date T t \<noteq> None"
    and "\<And>v e. v \<in> set (equal_range request (asc ''if-match'') @ equal_range request (asc ''if-none-match'')) \<Longrightarrow>
      e \<in> set (list_elements v) \<Longrightarrow> entity_tag e"
    and "equal_range request (asc ''if-match'') \<noteq> [] \<or> equal_range request (asc ''if-none-match'') \<noteq> []"
  shows "if equal_range request (asc ''if-match'') \<noteq> [] then
      \<exists>m'. async_response_transmit_file c T now F request file is_head_request m s = respond c 412 ''Precondition Failed'' m' s
    else not_modified T (tag, strong) t request = Checked False"
proof -
  have never: "\<not> header_value_any_of v (\<lambda>e. e = asc ''*'' \<or> match tag e)"
    if "match \<in> {etag_match_strong, etag_match_weak}" "tag \<noteq> []"
      "v \<in> set (equal_range request (asc ''if-match'') @ equal_range request (asc ''if-none-match''))" for v match
  proof -
    have "\<not> (e = asc ''*'' \<or> match tag e)" if e: "e \<in> set (list_elements v)" for e
    proof -
      have "entity_tag e"
        using assms(9) that(1) \<open>v \<in> _\<close> by blast
      moreover from this have "e \<noteq> asc ''*''"
        by (auto simp: entity_tag_def asc_def)
      ultimately show ?thesis
        using unquoted_never_matches [OF assms(2)] \<open>match \<in> _\<close> \<open>tag \<noteq> []\<close> by auto
    qed
    then show ?thesis
      by (simp add: header_value_any_of_def any_of_state_visit visit_any list_ex_iff)
  qed
  show ?thesis
  proof (cases "equal_range request (asc ''if-match'') = []")
    case False
    have "precondition_fails T (tag, strong) lm request = Checked True" for lm
      using False never [of etag_match_strong] by (auto simp: precondition_fails_def Let_def list_ex_iff)
    moreover obtain m' where "add_file_headers T now (if time_less T now t then now else t) (m\<lparr>msg_body := []\<rparr>) = Some m'"
    proof -
      obtain d l where "to_http_date T now = Some d" "to_http_date T (if time_less T now t then now else t) = Some l"
        using assms(8) by (cases "time_less T now t") auto
      then show ?thesis
        using that by (simp add: add_file_headers_def Let_def)
    qed
    ultimately have "async_response_transmit_file c T now F request file is_head_request m s = respond c 412 ''Precondition Failed'' m' s"
      using assms(1,3-7) by (auto simp: async_response_transmit_file_def Let_def)
    with False show ?thesis
      by auto
  next
    case True
    then show ?thesis
      using assms(10) never [of etag_match_weak] by (auto simp: not_modified_def Let_def list_ex_iff)
  qed
qed


section \<open>Instances\<close>

text \<open>Paths as lists of names, and a file system with one file.\<close>

definition plain_path :: "bytes list path_api" where
  "plain_path =
     \<lparr>path_empty = [], path_append = (\<lambda>p e. if e = [] then p else p @ [e]), path_has_filename = (\<lambda>p. p \<noteq> []),
      path_remove_filename = butlast, path_elements = (\<lambda>p. p), path_join = (@)\<rparr>"

lemma plain_path_laws: "path_laws plain_path"
  by (auto simp: path_laws_def plain_path_def dest: in_set_butlastD)

definition one_file :: "(bytes list, plain_date \<times> nat \<times> nat \<times> nat) file_system" where
  "one_file =
     \<lparr>fsys_canonical = Inr, fsys_exists = (\<lambda>p. Inr (p = [asc ''srv'', asc ''a''])), fsys_is_regular_file = (\<lambda>p. Inr True),
      fsys_last_write_time = (\<lambda>p. Inr ((1994, 11, 6), 8, 49, 37)), fsys_file_size = (\<lambda>p. Inr 6), fsys_open = (\<lambda>p. Some (asc ''abcdef''))\<rparr>"

definition plain_context :: response_context where
  "plain_context = \<lparr>rc_iequals = ascii_iequals, rc_max_size = 1000, rc_capacity = 0, rc_view_after_emplace = (\<lambda>v. v)\<rparr>"


lemma single_range_delivered_witness:
  "\<exists>m' s' response. respond_range plain_context (Some (asc ''abcdef'')) 6 (1, 3) empty_message idle_socket = (m', s', response)
     \<and> (\<exists>l w chunks. response = Start_loop l (Sent w) \<and> concat chunks = asc ''bcd''
        \<and> run_transfer 4 transmit_process No_error l m' s' []
          = Handler_called (Channel No_error) (on_response_written (s'\<lparr>so_writer := Finished\<rparr>)) (concat (map chunk_bytes chunks) @ end_of_message_bytes))"
proof -
  obtain m' s' response where r: "respond_range plain_context (Some (asc ''abcdef'')) 6 (1, 3) empty_message idle_socket = (m', s', response)"
    by (metis prod_cases3)
  have es: "list_elements (drop 6 (asc ''bytes=1-3'')) = [asc ''1-3'']"
    by code_simp
  have "is_valid_range (asc ''bytes=1-3'') 6 [] = ([(1, 3)], True)"
  proof -
    have "regex_match [Capture_digit_run, Literal (asc ''-''), Capture_digit_run] (asc ''1-3'') = Some [asc ''1'', asc ''3'']"
      by (simp only: digit_runs) (simp add: asc_def isdigit_def)
    then have "read_range 6 [] (asc ''1-3'') = ([(1, 3)], False)"
      by (simp add: read_range_def) (simp add: from_decimal_submatch_exact asc_def decimal_value_def insert_new_range_def word_le_nat_alt)
    then show ?thesis
      by (simp add: is_valid_range_def any_of_state_visit es) (simp add: asc_def)
  qed
  note d = single_range_delivered [OF this _ _ _ _ r]
  have i: "so_modern_http idle_socket" "so_writer idle_socket = Write_empty"
    by (simp_all add: idle_socket_def)
  have piece: "take 3 (drop 1 (asc ''abcdef'')) = asc ''bcd''"
    by (simp add: asc_def)
  have "\<exists>l w chunks. response = Start_loop l (Sent w)
      \<and> run_transfer (2 + 1 + 1) transmit_process No_error l m' s' []
        = Handler_called (Channel No_error) (on_response_written (s'\<lparr>so_writer := Finished\<rparr>)) (concat (map chunk_bytes chunks) @ end_of_message_bytes)
      \<and> concat chunks = take (2 + 1) (drop 1 (asc ''abcdef''))"
    using d i by (simp add: plain_context_def Let_def del: run_transfer.simps)
  then show ?thesis
    using r piece by (auto simp del: run_transfer.simps)
qed


lemma both_send_multipart_witness:
  "\<exists>body n. multipart_body [] (asc ''abcdef'') 6 [(0, 1), (3, 5)] [] = Some body
     \<and> run_transfer n multi_process No_error (new_multi_loop [] (asc ''abcdef'') [(0, 1), (3, 5)] (unat (6 :: u64))) (buffer_message 200) streaming_socket []
       = Handler_called (Channel No_error) (on_response_written (streaming_socket\<lparr>so_writer := Finished\<rparr>)) (chunk_bytes body @ end_of_message_bytes)"
proof -
  have m: "so_writer streaming_socket = Metadata_issued" "length (msg_body (buffer_message 200)) < 2 ^ 64"
    "length (msg_body (buffer_message 200)) = 200"
    by (simp_all add: streaming_socket_def buffer_message_def)
  have p: "print_base 10 0 = [0x30]" "print_base 10 1 = [0x31]" "print_base 10 (Suc 0) = [0x31]" "print_base 10 3 = [0x33]" "print_base 10 5 = [0x35]" "print_base 10 6 = [0x36]"
    by (subst print_base.simps, simp add: digit_char_def)+
  have "sum_list (map piece_length (later_pieces [] (to_string (unat (6 :: u64))) [(0, 1), (3, 5)])) \<le> 200"
    by (simp add: later_pieces_def text_texts to_string_def p to_cpp_range_def)
  with both_send_multipart [OF _ _ _ m(1,2), of "[(0, 1), (3, 5)]" "asc ''abcdef''" "[]" 6] show ?thesis
    by (simp add: m(3))
qed

lemma last_modified_revalidates_witness:
  "\<exists>m'. async_response_transmit_file plain_context plain_time ((1999, 1, 1), 0, 0, 0) one_file
       [(asc ''if-modified-since'', asc ''Sun, 06 Nov 1994 08:49:37 GMT'')] [] False empty_message idle_socket
     = respond plain_context 304 ''Not Modified'' m' idle_socket"
proof -
  let ?t = "((1994, 11, 6), 8, 49, 37) :: plain_date \<times> nat \<times> nat \<times> nat"
  let ?h = "[(asc ''if-modified-since'', asc ''Sun, 06 Nov 1994 08:49:37 GMT'')] :: headers"
  have mk: "make_time plain_time dt hms = (dt, hms)" "time_date plain_time t = fst t" "time_of_day plain_time t = snd t" for dt hms t
    by (simp_all add: plain_time_def)
  have date: "to_http_date plain_time ?t = Some (asc ''Sun, 06 Nov 1994 08:49:37 GMT'')" "to_http_date plain_time ((1999, 1, 1), 0, 0, 0) \<noteq> None"
    by (simp_all add: to_http_date_def plain_time_def plain_day_of_week_def month_names_def asc_def append_number_2 append_number_4)
  have irreflexive: "\<not> time_less plain_time t t" for t
    by (simp add: plain_time_def split: prod.splits)
  have day: "make_date plain_time 1994 11 6 = Some (1994, 11, 6)"
    by (simp add: plain_time_def days_of_month_def)
  have range: "equal_range ?h (asc n) = (if asc n = asc ''if-modified-since'' then [asc ''Sun, 06 Nov 1994 08:49:37 GMT''] else [])" for n
    by (simp add: equal_range_def eq_commute)
  have other: "asc ''if-match'' \<noteq> asc ''if-modified-since''" "asc ''if-unmodified-since'' \<noteq> asc ''if-modified-since''"
    "asc ''if-none-match'' \<noteq> asc ''if-modified-since''"
    by (simp_all add: asc_def)
  have answers: "fsys_last_write_time one_file p = Inr ?t" "fsys_file_size one_file p = Inr 6" for p
    by (simp_all add: one_file_def)
  have message: "etag_of (msg_headers empty_message) \<noteq> None" "multimap_ok (msg_headers empty_message)" "so_writer idle_socket \<in> {Write_empty, Continue_issued}"
    by (simp_all add: empty_message_def etag_of_def equal_range_def multimap_ok_def idle_socket_def)
  have past: "\<not> time_less plain_time ((1999, 1, 1), 0, 0, 0) (make_time plain_time (1994, 11, 6) (8, 49, 37))"
    by (simp add: plain_time_def)
  have "\<exists>m'. async_response_transmit_file plain_context plain_time ((1999, 1, 1), 0, 0, 0) one_file ?h [] False empty_message idle_socket
      = respond plain_context 304 ''Not Modified'' m' idle_socket
    \<and> asc ''Sun, 06 Nov 1994 08:49:37 GMT'' \<in> set (equal_range (msg_headers m') (asc ''last-modified'')) \<and> msg_body m' = []"
    using other by (intro last_modified_revalidates [OF plain_time_laws irreflexive day _ _ _ answers(1) _ _ past date(2) answers(2) _ message])
      (simp_all only: mk fst_conv snd_conv range if_True if_False date(1), simp_all)
  then show ?thesis
    by blast
qed

lemma quoted_tags_never_match_witness:
  "\<exists>m'. async_response_transmit_file plain_context plain_time ((1999, 1, 1), 0, 0, 0) one_file
       [(asc ''if-match'', asc [CHR 0x22, CHR ''x'', CHR 0x22])] [] False
       (empty_message\<lparr>msg_headers := [(asc ''etag'', asc [CHR 0x22, CHR ''x'', CHR 0x22])]\<rparr>) idle_socket
     = respond plain_context 412 ''Precondition Failed'' m' idle_socket"
proof -
  let ?q = "asc [CHR 0x22, CHR ''x'', CHR 0x22]"
  let ?h = "[(asc ''if-match'', ?q)] :: headers"
  let ?m = "empty_message\<lparr>msg_headers := [(asc ''etag'', ?q)]\<rparr>"
  have es: "list_elements ?q = [?q]"
    by code_simp
  have tag: "etag_of (msg_headers ?m) = Some (asc ''x'', True)"
    by (simp add: etag_of_def equal_range_def) (simp add: asc_def)
  have date: "to_http_date plain_time ((1994, 11, 6), 8, 49, 37) \<noteq> None" "to_http_date plain_time ((1999, 1, 1), 0, 0, 0) \<noteq> None"
    by (simp_all add: to_http_date_def plain_time_def plain_day_of_week_def month_names_def asc_def append_number_2 append_number_4)
  have answers: "last_modified_http_date plain_time one_file p = Inr ((1994, 11, 6), 8, 49, 37)" "fsys_file_size one_file p = Inr 6" for p
    by (simp_all add: last_modified_http_date_def one_file_def plain_time_def)
  have range: "equal_range ?h (asc ''if-match'') = [?q]" "equal_range ?h (asc ''if-none-match'') = []"
    by (simp add: equal_range_def) (simp add: equal_range_def asc_def)
  have q: "entity_tag ?q"
    by (simp add: entity_tag_def asc_def)
  note never = quoted_tags_never_match [OF tag, where c = plain_context and T = plain_time and F = one_file and request = ?h
      and s = idle_socket and now = "((1999, 1, 1), 0, 0, 0)" and is_head_request = False]
  show ?thesis
    using never [OF _ _ _ answers(1) answers(2)] date range es q
    by (simp add: plain_context_def idle_socket_def) (simp add: asc_def)
qed

end
