(* ===== verification/Descriptors.thy ===== *)
theory Descriptors
  imports StdMap
begin

text \<open>
  How the process library starts a child on a POSIX system: \<open>detail/file_handle.hpp\<close>, \<open>detail/pipe.hpp\<close>,
  \<open>stream_behavior.hpp\<close>, \<open>detail/stream_info.hpp\<close>, \<open>detail/posix_ops.hpp\<close>, and \<open>posix_launch\<close> with the child
  object it returns (\<open>posix_operations.hpp\<close>, \<open>posix_child.hpp\<close>).

  The state is what the kernel knows of the calling process: its table of descriptors, its credentials, and
  the children it started. The system calls have their POSIX meaning on it; whether a file can be opened, a
  directory entered, a program executed, and what \<open>fork\<close> returns, are the answers \<open>os\<close>, a parameter. A
  descriptor is a \<open>nat\<close>, a \<open>file_handle\<close> an optional one (\<open>None\<close> is -1): copying a handle moves it, and its
  destructor closes it, so each definition returns the handles it leaves behind.
\<close>

section \<open>The kernel\<close>

datatype open_file = Read_end nat | Write_end nat | File bytes bool | Inherited nat

record credentials =
  c_ruid :: nat
  c_euid :: nat
  c_suid :: nat
  c_rgid :: nat
  c_egid :: nat
  c_sgid :: nat

type_synonym descriptors = "nat \<rightharpoonup> open_file"

record image =
  im_exe :: bytes
  im_argv :: "bytes list"
  im_envp :: "bytes list"
  im_table :: descriptors
  im_creds :: credentials

text \<open>What becomes of a forked child: it executes a program, exits with \<open>EXIT_FAILURE\<close>, or fails an assertion.\<close>

datatype child_end = Executes image | Exits string | Child_aborts

record kernel =
  k_table :: descriptors
  k_limit :: nat
  k_creds :: credentials
  k_pipes :: nat
  k_forks :: nat
  k_started :: "(nat \<times> child_end) list"

record os =
  os_open_max :: "nat option"
  os_opens :: "bytes \<Rightarrow> bool \<Rightarrow> bool"
  os_fork :: "nat \<Rightarrow> nat option"
  os_chroot :: "bytes \<Rightarrow> bool"
  os_chdir :: "bytes \<Rightarrow> bool"
  os_executes :: "bytes \<Rightarrow> bool"

definition free_descriptors :: "kernel \<Rightarrow> nat list" where
  "free_descriptors k = filter (\<lambda>d. k_table k d = None) [0..<k_limit k]"

definition sys_close :: "nat \<Rightarrow> kernel \<Rightarrow> bool \<times> kernel" where
  "sys_close h k = (k_table k h \<noteq> None, k\<lparr>k_table := (k_table k)(h := None)\<rparr>)"

definition sys_dup2 :: "nat \<Rightarrow> nat \<Rightarrow> kernel \<Rightarrow> bool \<times> kernel" where
  "sys_dup2 h1 h2 k =
     (if k_table k h1 = None \<or> k_limit k \<le> h2 then (False, k)
      else (True, k\<lparr>k_table := (k_table k)(h2 := k_table k h1)\<rparr>))"

definition sys_pipe :: "kernel \<Rightarrow> (nat \<times> nat) option \<times> kernel" where
  "sys_pipe k =
     (case free_descriptors k of
        r # w # _ \<Rightarrow>
          (Some (r, w), k\<lparr>k_table := (k_table k)(r \<mapsto> Read_end (k_pipes k), w \<mapsto> Write_end (k_pipes k)), k_pipes := k_pipes k + 1\<rparr>)
      | _ \<Rightarrow> (None, k))"

definition sys_open :: "os \<Rightarrow> bytes \<Rightarrow> bool \<Rightarrow> kernel \<Rightarrow> nat option \<times> kernel" where
  "sys_open A path for_writing k =
     (case free_descriptors k of
        d # _ \<Rightarrow>
          if os_opens A path for_writing then (Some d, k\<lparr>k_table := (k_table k)(d \<mapsto> File path for_writing)\<rparr>) else (None, k)
      | _ \<Rightarrow> (None, k))"

text \<open>A step of the code: a result or an exception, and the kernel it leaves.\<close>

datatype failure = System_error string | Failed_assertion

type_synonym 'a step = "kernel \<Rightarrow> (failure + 'a) \<times> kernel"

definition ret :: "'a \<Rightarrow> 'a step" where
  "ret x k = (Inr x, k)"

definition throw :: "failure \<Rightarrow> 'a step" where
  "throw e k = (Inl e, k)"

definition and_then :: "'a step \<Rightarrow> ('a \<Rightarrow> 'b step) \<Rightarrow> 'b step" where
  "and_then f g k = (case f k of (Inl e, k) \<Rightarrow> (Inl e, k) | (Inr x, k) \<Rightarrow> g x k)"

text \<open>A destructor that runs whether \<open>f\<close> returns or throws.\<close>

definition finally_do :: "'a step \<Rightarrow> (kernel \<Rightarrow> kernel) \<Rightarrow> 'a step" where
  "finally_do f g k = (let (r, k) = f k in (r, g k))"

section \<open>Handles and pipes\<close>

type_synonym file_handle = "nat option"

definition fh_close :: "file_handle \<Rightarrow> file_handle step" where
  "fh_close h =
     (case h of
        None \<Rightarrow> throw Failed_assertion
      | Some d \<Rightarrow> \<lambda>k. (Inr None, snd (sys_close d k)))"

definition fh_destroy :: "file_handle \<Rightarrow> kernel \<Rightarrow> kernel" where
  "fh_destroy h k = (case h of None \<Rightarrow> k | Some d \<Rightarrow> snd (sys_close d k))"

text \<open>\<open>release\<close>: the descriptor, and the handle that no longer owns it.\<close>

definition fh_release :: "file_handle \<Rightarrow> (nat \<times> file_handle) step" where
  "fh_release h = (case h of None \<Rightarrow> throw Failed_assertion | Some d \<Rightarrow> ret (d, None))"

definition fh_get :: "file_handle \<Rightarrow> nat step" where
  "fh_get h = (case h of None \<Rightarrow> throw Failed_assertion | Some d \<Rightarrow> ret d)"

definition posix_remap :: "file_handle \<Rightarrow> nat \<Rightarrow> file_handle step" where
  "posix_remap fh h =
     (case fh of
        None \<Rightarrow> throw Failed_assertion
      | Some d \<Rightarrow> \<lambda>k.
          let (ok, k) = sys_dup2 d h k
          in if \<not> ok then (Inl (System_error ''posix_remap: dup2(2) failed''), k)
             else let (ok, k) = sys_close d k
                  in if \<not> ok then (Inl (System_error ''posix_remap: close(2) failed''), snd (sys_close h k))
                     else (Inr (Some h), k))"

definition posix_dup :: "nat \<Rightarrow> nat \<Rightarrow> file_handle step" where
  "posix_dup h1 h2 k =
     (let (ok, k) = sys_dup2 h1 h2 k
      in if \<not> ok then (Inl (System_error ''posix_dup: dup2(2) failed''), k) else (Inr (Some h2), k))"

record pipe =
  p_rend :: file_handle
  p_wend :: file_handle

definition new_pipe :: "pipe step" where
  "new_pipe k =
     (case sys_pipe k of
        (None, k) \<Rightarrow> (Inl (System_error ''pipe: pipe(2) failed''), k)
      | (Some (r, w), k) \<Rightarrow> (Inr \<lparr>p_rend = Some r, p_wend = Some w\<rparr>, k))"

definition destroy_pipe :: "pipe \<Rightarrow> kernel \<Rightarrow> kernel" where
  "destroy_pipe p k = fh_destroy (p_rend p) (fh_destroy (p_wend p) k)"

section \<open>What a stream is to be\<close>

datatype stream_behavior = Capture | Close | Inherit | Redirect_to_stdout | Silence | Posix_redirect nat

datatype info_type = Type_close | Type_inherit | Type_redirect | Use_file | Use_handle | Use_pipe

record stream_info =
  si_type :: info_type
  si_desc_to :: nat
  si_file :: bytes
  si_handle :: file_handle
  si_pipe :: "pipe option"

definition plain_info :: "info_type \<Rightarrow> stream_info" where
  "plain_info t = \<lparr>si_type = t, si_desc_to = 0, si_file = [], si_handle = None, si_pipe = None\<rparr>"

text \<open>The constructor of \<open>stream_info\<close>; \<open>out\<close> tells output streams.\<close>

definition new_stream_info :: "stream_behavior \<Rightarrow> bool \<Rightarrow> stream_info step" where
  "new_stream_info sb out =
     (case sb of
        Close \<Rightarrow> ret (plain_info Type_close)
      | Inherit \<Rightarrow> ret (plain_info Type_inherit)
      | Redirect_to_stdout \<Rightarrow> ret ((plain_info Type_redirect)\<lparr>si_desc_to := 1\<rparr>)
      | Posix_redirect d \<Rightarrow> ret ((plain_info Type_redirect)\<lparr>si_desc_to := d\<rparr>)
      | Silence \<Rightarrow> ret ((plain_info Use_file)\<lparr>si_file := asc (if out then ''/dev/null'' else ''/dev/zero'')\<rparr>)
      | Capture \<Rightarrow> and_then new_pipe (\<lambda>p. ret ((plain_info Use_pipe)\<lparr>si_pipe := Some p\<rparr>)))"

definition destroy_info :: "stream_info \<Rightarrow> kernel \<Rightarrow> kernel" where
  "destroy_info si k = fh_destroy (si_handle si) (case si_pipe si of None \<Rightarrow> k | Some p \<Rightarrow> destroy_pipe p k)"

type_synonym info_map = "(nat, stream_info) std_map"

definition destroy_infos :: "info_map \<Rightarrow> kernel \<Rightarrow> kernel" where
  "destroy_infos m k = foldl (\<lambda>k (d, si). destroy_info si k) k m"



section \<open>The streams of the child\<close>

text \<open>\<open>if (h.get() != d) h.posix_remap(d)\<close>\<close>

definition move_to :: "file_handle \<Rightarrow> nat \<Rightarrow> unit step" where
  "move_to h d = and_then (fh_get h) (\<lambda>f. if f \<noteq> d then and_then (posix_remap h d) (\<lambda>_. ret ()) else ret ())"

definition open_at :: "os \<Rightarrow> bytes \<Rightarrow> bool \<Rightarrow> nat \<Rightarrow> unit step" where
  "open_at A path for_writing d k =
     (case sys_open A path for_writing k of
        (None, k) \<Rightarrow> (Inl (System_error (if for_writing then ''setup_output: open(2) failed'' else ''setup_input: open(2) failed'')), k)
      | (Some fd, k) \<Rightarrow> (if fd \<noteq> d then and_then (posix_remap (Some fd) d) (\<lambda>_. ret ()) k else (Inr (), k)))"

definition input_entry :: "os \<Rightarrow> nat \<Rightarrow> stream_info \<Rightarrow> unit step" where
  "input_entry A d si =
     (case si_type si of
        Use_file \<Rightarrow> open_at A (si_file si) False d
      | Use_handle \<Rightarrow> move_to (si_handle si) d
      | Use_pipe \<Rightarrow>
          (case si_pipe si of
             None \<Rightarrow> throw Failed_assertion
           | Some p \<Rightarrow> and_then (fh_close (p_wend p)) (\<lambda>_. move_to (p_rend p) d))
      | Type_inherit \<Rightarrow> ret ()
      | _ \<Rightarrow> throw Failed_assertion)"

definition output_entry :: "os \<Rightarrow> nat \<Rightarrow> stream_info \<Rightarrow> unit step" where
  "output_entry A d si =
     (case si_type si of
        Type_redirect \<Rightarrow> ret ()
      | Use_file \<Rightarrow> open_at A (si_file si) True d
      | Use_handle \<Rightarrow> move_to (si_handle si) d
      | Use_pipe \<Rightarrow>
          (case si_pipe si of
             None \<Rightarrow> throw Failed_assertion
           | Some p \<Rightarrow> and_then (fh_close (p_rend p)) (\<lambda>_. move_to (p_wend p) d))
      | Type_inherit \<Rightarrow> ret ()
      | _ \<Rightarrow> throw Failed_assertion)"

text \<open>The loop over a map; the array \<open>closeflags\<close> has \<open>maxdescs\<close> elements. The child does not read its maps again.\<close>

fun setup_entries :: "(nat \<Rightarrow> stream_info \<Rightarrow> unit step) \<Rightarrow> info_map \<Rightarrow> bool list \<Rightarrow> bool list step" where
  "setup_entries entry [] closeflags = ret closeflags"
| "setup_entries entry ((d, si) # info) closeflags =
     (if length closeflags \<le> d then throw Failed_assertion
      else and_then (entry d si) (\<lambda>_. setup_entries entry info (closeflags[d := False])))"

definition setup_input :: "os \<Rightarrow> info_map \<Rightarrow> bool list \<Rightarrow> bool list step" where
  "setup_input A info closeflags = setup_entries (input_entry A) info closeflags"

fun redirect_entries :: "info_map \<Rightarrow> unit step" where
  "redirect_entries [] = ret ()"
| "redirect_entries ((d, si) # info) =
     and_then (if si_type si = Type_redirect then and_then (posix_dup (si_desc_to si) d) (\<lambda>_. ret ()) else ret ())
       (\<lambda>_. redirect_entries info)"

definition setup_output :: "os \<Rightarrow> info_map \<Rightarrow> bool list \<Rightarrow> bool list step" where
  "setup_output A info closeflags =
     and_then (setup_entries (output_entry A) info closeflags)
       (\<lambda>closeflags. and_then (redirect_entries info) (\<lambda>_. ret closeflags))"

definition close_flagged :: "bool list \<Rightarrow> kernel \<Rightarrow> kernel" where
  "close_flagged closeflags k =
     foldl (\<lambda>k i. if closeflags ! i then snd (sys_close i k) else k) k [0..<length closeflags]"

definition max_descriptors :: "os \<Rightarrow> nat" where
  "max_descriptors A = (case os_open_max A of None \<Rightarrow> 1024 | Some n \<Rightarrow> n)"

definition setup_streams :: "os \<Rightarrow> info_map \<Rightarrow> info_map \<Rightarrow> unit step" where
  "setup_streams A infoin infoout =
     and_then (setup_input A infoin (replicate (max_descriptors A) True)) (\<lambda>closeflags.
     and_then (setup_output A infoout closeflags) (\<lambda>closeflags k.
     (Inr (), close_flagged closeflags k)))"

section \<open>The credentials of the child\<close>

definition sys_setgid :: "nat \<Rightarrow> credentials \<Rightarrow> credentials option" where
  "sys_setgid g c =
     (if c_euid c = 0 then Some (c\<lparr>c_rgid := g, c_egid := g, c_sgid := g\<rparr>)
      else if g = c_rgid c \<or> g = c_sgid c then Some (c\<lparr>c_egid := g\<rparr>)
      else None)"

definition sys_setegid :: "nat \<Rightarrow> credentials \<Rightarrow> credentials option" where
  "sys_setegid g c =
     (if c_euid c = 0 \<or> g = c_rgid c \<or> g = c_sgid c then Some (c\<lparr>c_egid := g\<rparr>) else None)"

definition sys_setuid :: "nat \<Rightarrow> credentials \<Rightarrow> credentials option" where
  "sys_setuid u c =
     (if c_euid c = 0 then Some (c\<lparr>c_ruid := u, c_euid := u, c_suid := u\<rparr>)
      else if u = c_ruid c \<or> u = c_suid c then Some (c\<lparr>c_euid := u\<rparr>)
      else None)"

definition sys_seteuid :: "nat \<Rightarrow> credentials \<Rightarrow> credentials option" where
  "sys_seteuid u c =
     (if c_euid c = 0 \<or> u = c_ruid c \<or> u = c_suid c then Some (c\<lparr>c_euid := u\<rparr>) else None)"

record posix_setup =
  ps_work_directory :: bytes
  ps_chroot :: bytes
  ps_uid :: nat
  ps_euid :: nat
  ps_gid :: nat
  ps_egid :: nat

text \<open>\<open>posix_setup()\<close> takes the ids of the caller.\<close>

definition new_posix_setup :: "credentials \<Rightarrow> posix_setup" where
  "new_posix_setup c =
     \<lparr>ps_work_directory = [], ps_chroot = [], ps_uid = c_ruid c, ps_euid = c_euid c, ps_gid = c_rgid c, ps_egid = c_egid c\<rparr>"

definition set_credential :: "bool \<Rightarrow> (credentials \<Rightarrow> credentials option) \<Rightarrow> string \<Rightarrow> unit step" where
  "set_credential needed call what k =
     (if needed then
        (case call (k_creds k) of
           None \<Rightarrow> (Inl (System_error what), k)
         | Some c \<Rightarrow> (Inr (), k\<lparr>k_creds := c\<rparr>))
      else (Inr (), k))"

definition run_setup :: "os \<Rightarrow> posix_setup \<Rightarrow> unit step" where
  "run_setup A s =
     and_then (if ps_chroot s \<noteq> [] \<and> \<not> os_chroot A (ps_chroot s) then throw (System_error ''posix_setup: chroot(2) failed'') else ret ()) (\<lambda>_.
     and_then (\<lambda>k. set_credential (ps_gid s \<noteq> c_rgid (k_creds k)) (sys_setgid (ps_gid s)) ''posix_setup: setgid(2) failed'' k) (\<lambda>_.
     and_then (\<lambda>k. set_credential (ps_egid s \<noteq> c_egid (k_creds k)) (sys_setegid (ps_egid s)) ''posix_setup: setegid(2) failed'' k) (\<lambda>_.
     and_then (\<lambda>k. set_credential (ps_uid s \<noteq> c_ruid (k_creds k)) (sys_setuid (ps_uid s)) ''posix_setup: setuid(2) failed'' k) (\<lambda>_.
     and_then (\<lambda>k. set_credential (ps_euid s \<noteq> c_euid (k_creds k)) (sys_seteuid (ps_euid s)) ''posix_setup: seteuid(2) failed'' k) (\<lambda>_.
     if ps_work_directory s = [] then throw Failed_assertion
     else if \<not> os_chdir A (ps_work_directory s) then throw (System_error ''posix_setup: chdir(2) failed'')
     else ret ())))))"


section \<open>Starting the child\<close>

text \<open>The bytes of a string that a C program sees: up to the first zero.\<close>

definition c_string :: "bytes \<Rightarrow> bytes" where
  "c_string s = takeWhile (\<lambda>b. b \<noteq> 0) s"

definition collection_to_posix_argv :: "bytes list \<Rightarrow> bytes list" where
  "collection_to_posix_argv args = map c_string args"

type_synonym environment = "(bytes, bytes) std_map"

definition environment_to_envp :: "environment \<Rightarrow> bytes list" where
  "environment_to_envp env = map (\<lambda>(name, v). c_string (name @ asc ''='' @ v)) env"

text \<open>The branch of the child: its streams, its credentials, its program.\<close>

definition run_child ::
  "os \<Rightarrow> bytes \<Rightarrow> bytes list \<Rightarrow> environment \<Rightarrow> info_map \<Rightarrow> info_map \<Rightarrow> posix_setup \<Rightarrow> kernel \<Rightarrow> child_end" where
  "run_child A exe args env infoin infoout s k =
     (case and_then (setup_streams A infoin infoout) (\<lambda>_. run_setup A s) k of
        (Inl (System_error what), _) \<Rightarrow> Exits what
      | (Inl Failed_assertion, _) \<Rightarrow> Child_aborts
      | (Inr _, k) \<Rightarrow>
          if args = [] then Child_aborts
          else if os_executes A (c_string exe) then
            Executes \<lparr>im_exe = c_string exe, im_argv = collection_to_posix_argv args, im_envp = environment_to_envp env,
              im_table = k_table k, im_creds = k_creds k\<rparr>
          else Exits ''posix_start: execve(2) failed'')"

text \<open>The loops of the parent: the ends of the pipes that belong to the child are closed.\<close>

fun close_child_ends :: "bool \<Rightarrow> info_map \<Rightarrow> info_map step" where
  "close_child_ends out [] = ret []"
| "close_child_ends out ((d, si) # info) =
     and_then
       (if si_type si = Use_pipe then
          (case si_pipe si of
             None \<Rightarrow> throw Failed_assertion
           | Some p \<Rightarrow>
               if out then and_then (fh_close (p_wend p)) (\<lambda>h. ret (si\<lparr>si_pipe := Some (p\<lparr>p_wend := h\<rparr>)\<rparr>))
               else and_then (fh_close (p_rend p)) (\<lambda>h. ret (si\<lparr>si_pipe := Some (p\<lparr>p_rend := h\<rparr>)\<rparr>)))
        else ret si)
       (\<lambda>si. and_then (close_child_ends out info) (\<lambda>info. ret ((d, si) # info)))"

text \<open>The child's id, and the maps as the parent has them afterwards.\<close>

definition posix_start ::
  "os \<Rightarrow> bytes \<Rightarrow> bytes list \<Rightarrow> environment \<Rightarrow> info_map \<Rightarrow> info_map \<Rightarrow> posix_setup \<Rightarrow> (nat \<times> info_map \<times> info_map) step" where
  "posix_start A exe args env infoin infoout s k =
     (case os_fork A (k_forks k) of
        None \<Rightarrow> (Inl (System_error ''posix_start: fork(2) failed''), k\<lparr>k_forks := k_forks k + 1\<rparr>)
      | Some pid \<Rightarrow>
          let k' = k\<lparr>k_forks := k_forks k + 1, k_started := k_started k @ [(pid, run_child A exe args env infoin infoout s k)]\<rparr>
          in if pid = 0 then (Inl Failed_assertion, k')
             else and_then (close_child_ends False infoin) (\<lambda>infoin.
                  and_then (close_child_ends True infoout) (\<lambda>infoout. ret (pid, infoin, infoout))) k')"

definition posix_info_locate_pipe :: "info_map \<Rightarrow> nat \<Rightarrow> bool \<Rightarrow> (file_handle \<times> info_map) step" where
  "posix_info_locate_pipe info desc out =
     (case map_find info desc of
        None \<Rightarrow> ret (None, info)
      | Some si \<Rightarrow>
          and_then
            (if si_type si = Use_pipe then
               (case si_pipe si of
                  None \<Rightarrow> throw Failed_assertion
                | Some p \<Rightarrow>
                    if out then and_then (fh_release (p_rend p)) (\<lambda>(d, h). ret (Some d, si\<lparr>si_pipe := Some (p\<lparr>p_rend := h\<rparr>)\<rparr>))
                    else and_then (fh_release (p_wend p)) (\<lambda>(d, h). ret (Some d, si\<lparr>si_pipe := Some (p\<lparr>p_wend := h\<rparr>)\<rparr>)))
             else ret (None, si))
            (\<lambda>(fh, si) k. (Inr (fh, map_erase desc info), destroy_info si k)))"

section \<open>The child object\<close>

text \<open>\<open>child\<close> and \<open>posix_child\<close>: the id and the handles its streams own.\<close>

record child =
  ch_id :: nat
  ch_stdin :: file_handle
  ch_stdout :: file_handle
  ch_stderr :: file_handle

record posix_child = child +
  pc_input :: "(nat, nat) std_map"
  pc_output :: "(nat, nat) std_map"

text \<open>The loops of the constructor over the pipes that are left; the handle moves into the stream.\<close>

fun take_ends :: "bool \<Rightarrow> info_map \<Rightarrow> ((nat, nat) std_map \<times> info_map) step" where
  "take_ends out [] = ret ([], [])"
| "take_ends out ((d, si) # info) =
     and_then
       (if si_type si = Use_pipe then
          (case si_pipe si of
             None \<Rightarrow> throw Failed_assertion
           | Some p \<Rightarrow>
               if out then and_then (fh_release (p_rend p)) (\<lambda>(f, h). ret ([(d, f)], si\<lparr>si_pipe := Some (p\<lparr>p_rend := h\<rparr>)\<rparr>))
               else and_then (fh_release (p_wend p)) (\<lambda>(f, h). ret ([(d, f)], si\<lparr>si_pipe := Some (p\<lparr>p_wend := h\<rparr>)\<rparr>)))
        else ret ([], si))
       (\<lambda>(stream, si). and_then (take_ends out info) (\<lambda>(streams, info). ret (stream @ streams, (d, si) # info)))"

definition new_posix_child :: "nat \<Rightarrow> info_map \<Rightarrow> info_map \<Rightarrow> (posix_child \<times> info_map \<times> info_map) step" where
  "new_posix_child pid infoin infoout =
     and_then (posix_info_locate_pipe infoin 0 False) (\<lambda>(fhstdin, infoin).
     and_then (posix_info_locate_pipe infoout 1 True) (\<lambda>(fhstdout, infoout).
     and_then (posix_info_locate_pipe infoout 2 True) (\<lambda>(fhstderr, infoout).
     and_then (take_ends False infoin) (\<lambda>(inputs, infoin).
     and_then (take_ends True infoout) (\<lambda>(outputs, infoout).
     ret (\<lparr>ch_id = pid, ch_stdin = fhstdin, ch_stdout = fhstdout, ch_stderr = fhstderr, pc_input = inputs, pc_output = outputs\<rparr>,
          infoin, infoout))))))"

definition get_input :: "posix_child \<Rightarrow> nat \<Rightarrow> nat option" where
  "get_input c desc = (if desc = 0 then ch_stdin c else map_find (pc_input c) desc)"

definition get_output :: "posix_child \<Rightarrow> nat \<Rightarrow> nat option" where
  "get_output c desc =
     (if desc = 1 then ch_stdout c else if desc = 2 then ch_stderr c else map_find (pc_output c) desc)"


section \<open>\<open>posix_launch\<close>\<close>

type_synonym behavior_map = "(nat, stream_behavior) std_map"

record posix_context =
  ctx_work_directory :: bytes
  ctx_environment :: environment
  ctx_input_behavior :: behavior_map
  ctx_output_behavior :: behavior_map
  ctx_uid :: nat
  ctx_euid :: nat
  ctx_gid :: nat
  ctx_egid :: nat
  ctx_chroot :: bytes

text \<open>The constructors of a context: the directory and the ids of the caller.\<close>

definition new_posix_context :: "bytes \<Rightarrow> credentials \<Rightarrow> posix_context" where
  "new_posix_context cwd c =
     \<lparr>ctx_work_directory = cwd, ctx_environment = [], ctx_input_behavior = [], ctx_output_behavior = [],
      ctx_uid = c_ruid c, ctx_euid = c_euid c, ctx_gid = c_rgid c, ctx_egid = c_egid c, ctx_chroot = []\<rparr>"

text \<open>
  The loop that fills a map of descriptors; \<open>insert\<close> drops an element whose key is there. When a pipe cannot be
  made, the map is destroyed on the way out.
\<close>

fun build_infos :: "bool \<Rightarrow> behavior_map \<Rightarrow> info_map \<Rightarrow> info_map step" where
  "build_infos out [] infos = ret infos"
| "build_infos out ((d, sb) # behaviors) infos =
     (if sb = Close then build_infos out behaviors infos
      else (\<lambda>k.
        case new_stream_info sb out k of
          (Inl e, k) \<Rightarrow> (Inl e, destroy_infos infos k)
        | (Inr si, k) \<Rightarrow>
            (if map_find infos d = None then build_infos out behaviors (map_assign d si infos) k
             else build_infos out behaviors infos (destroy_info si k))))"

text \<open>The end of \<open>posix_launch\<close>: the child is started and its object made, and the maps are destroyed.\<close>

definition start_posix_child ::
  "os \<Rightarrow> bytes \<Rightarrow> bytes list \<Rightarrow> environment \<Rightarrow> info_map \<Rightarrow> info_map \<Rightarrow> posix_setup \<Rightarrow> posix_child step" where
  "start_posix_child A exe args env infoin infoout s k =
     (case posix_start A exe args env infoin infoout s k of
        (Inl e, k) \<Rightarrow> (Inl e, destroy_infos infoin (destroy_infos infoout k))
      | (Inr (pid, infoin, infoout), k) \<Rightarrow>
          (case new_posix_child pid infoin infoout k of
             (Inl e, k) \<Rightarrow> (Inl e, k)
           | (Inr (c, infoin, infoout), k) \<Rightarrow> (Inr c, destroy_infos infoin (destroy_infos infoout k))))"

definition posix_launch :: "os \<Rightarrow> bytes \<Rightarrow> bytes list \<Rightarrow> posix_context \<Rightarrow> posix_child step" where
  "posix_launch A exe args ctx k =
     (case build_infos False (ctx_input_behavior ctx) [] k of
        (Inl e, k) \<Rightarrow> (Inl e, k)
      | (Inr infoin, k) \<Rightarrow>
          (case build_infos True (ctx_output_behavior ctx) [] k of
             (Inl e, k) \<Rightarrow> (Inl e, destroy_infos infoin k)
           | (Inr infoout, k) \<Rightarrow>
               let s = (new_posix_setup (k_creds k))\<lparr>ps_work_directory := ctx_work_directory ctx, ps_uid := ctx_uid ctx,
                         ps_euid := ctx_euid ctx, ps_gid := ctx_gid ctx, ps_egid := ctx_egid ctx, ps_chroot := ctx_chroot ctx\<rparr>
               in start_posix_child A exe args (ctx_environment ctx) infoin infoout s k))"

text \<open>The context in which \<open>process::run\<close> of the service starts a worker.\<close>

definition worker_context :: "bytes \<Rightarrow> credentials \<Rightarrow> environment \<Rightarrow> posix_context" where
  "worker_context cwd c env =
     (new_posix_context cwd c)\<lparr>ctx_output_behavior := map_assign 3 Capture (map_assign 2 Inherit (map_assign 1 Inherit [])),
        ctx_environment := env\<rparr>"

end
