(* ===== verification/DescriptorProperties.thy ===== *)
theory DescriptorProperties
  imports Descriptors
begin

text \<open>
  What a child gets and what its parent keeps: the descriptors of the child are the ones its maps ask for and no
  others, as long as the maps do not claim a descriptor twice; a launch gives back every descriptor it took,
  except the ends its child object owns.
\<close>

section \<open>Steps\<close>

named_theorems steps \<comment> \<open>the operations of handles, pipes and streams on the kernel\<close>

declare ret_def [steps] throw_def [steps] and_then_def [steps] sys_close_def [steps] sys_dup2_def [steps]
  fh_close_def [steps] fh_release_def [steps] fh_get_def [steps] posix_remap_def [steps] posix_dup_def [steps] move_to_def [steps]

text \<open>What a step changes is the table only.\<close>

definition same_process :: "kernel \<Rightarrow> kernel \<Rightarrow> bool" where
  "same_process k k' \<longleftrightarrow> (\<exists>t. k' = k\<lparr>k_table := t\<rparr>)"

lemma same_processI [intro]: "same_process k (k\<lparr>k_table := t\<rparr>)"
  by (auto simp: same_process_def)

lemma same_process_refl [simp]: "same_process k k"
  unfolding same_process_def by (rule exI [of _ "k_table k"]) simp

lemma same_process_trans [trans]: "same_process k k' \<Longrightarrow> same_process k' k'' \<Longrightarrow> same_process k k''"
  by (auto simp: same_process_def)

lemma same_processD:
  "same_process k k' \<Longrightarrow> k_limit k' = k_limit k \<and> k_creds k' = k_creds k \<and> k_pipes k' = k_pipes k
     \<and> k_forks k' = k_forks k \<and> k_started k' = k_started k"
  by (auto simp: same_process_def)

section \<open>What the maps ask for\<close>

definition handle_fds :: "file_handle \<Rightarrow> nat list" where
  "handle_fds h = (case h of None \<Rightarrow> [] | Some d \<Rightarrow> [d])"

definition info_fds :: "stream_info \<Rightarrow> nat list" where
  "info_fds si = handle_fds (si_handle si)
     @ (case si_pipe si of None \<Rightarrow> [] | Some p \<Rightarrow> handle_fds (p_rend p) @ handle_fds (p_wend p))"

text \<open>An entry is ready: the descriptors it names are open, and it owns nothing else.\<close>

definition info_ready :: "os \<Rightarrow> descriptors \<Rightarrow> bool \<Rightarrow> stream_info \<Rightarrow> bool" where
  "info_ready A T out si =
     (case si_type si of
        Type_close \<Rightarrow> False
      | Type_inherit \<Rightarrow> si_handle si = None \<and> si_pipe si = None
      | Type_redirect \<Rightarrow> out \<and> si_handle si = None \<and> si_pipe si = None
      | Use_file \<Rightarrow> si_handle si = None \<and> si_pipe si = None \<and> os_opens A (si_file si) out
      | Use_handle \<Rightarrow> si_pipe si = None \<and> (case si_handle si of None \<Rightarrow> False | Some h \<Rightarrow> T h \<noteq> None)
      | Use_pipe \<Rightarrow> si_handle si = None
          \<and> (case si_pipe si of
               Some p \<Rightarrow> (case (p_rend p, p_wend p) of (Some r, Some w) \<Rightarrow> r \<noteq> w \<and> T r \<noteq> None \<and> T w \<noteq> None | _ \<Rightarrow> False)
             | None \<Rightarrow> False))"

text \<open>The file an entry puts at its descriptor; a redirection is settled afterwards.\<close>

definition entry_file :: "descriptors \<Rightarrow> bool \<Rightarrow> nat \<Rightarrow> stream_info \<Rightarrow> open_file option" where
  "entry_file T out d si =
     (case si_type si of
        Type_inherit \<Rightarrow> T d
      | Use_file \<Rightarrow> Some (File (si_file si) out)
      | Use_handle \<Rightarrow> T (the (si_handle si))
      | Use_pipe \<Rightarrow> T (the (if out then p_wend (the (si_pipe si)) else p_rend (the (si_pipe si))))
      | _ \<Rightarrow> T d)"

text \<open>The descriptors an entry touches.\<close>

definition claim :: "nat \<times> stream_info \<Rightarrow> nat list" where
  "claim e = remdups (fst e # info_fds (snd e))"

definition spare :: "kernel \<Rightarrow> nat set \<Rightarrow> bool" where
  "spare k used \<longleftrightarrow> (\<exists>q < k_limit k. k_table k q = None \<and> q \<notin> used)"

lemma open_at_result:
  assumes "os_opens A path out" and "spare k used" and "d \<in> used" and "d < k_limit k"
  shows "open_at A path out d k = (Inr (), k\<lparr>k_table := (k_table k)(d \<mapsto> File path out)\<rparr>)"
proof -
  obtain q where q: "q < k_limit k" "k_table k q = None" "q \<noteq> d"
    using assms(2,3) by (auto simp: spare_def)
  then have "q \<in> set (free_descriptors k)"
    by (simp add: free_descriptors_def)
  then obtain f fs where f: "free_descriptors k = f # fs"
    by (cases "free_descriptors k") auto
  then have free: "f \<in> set (free_descriptors k)"
    by simp
  then have "k_table k f = None" "f < k_limit k"
    by (simp_all add: free_descriptors_def)
  then have "(k_table k)(f \<mapsto> File path out, d \<mapsto> File path out, f := None) = (k_table k)(d \<mapsto> File path out)" if "f \<noteq> d"
    using that by (auto simp: fun_eq_iff)
  then show ?thesis
    using assms(1,4) f by (auto simp: open_at_def sys_open_def steps fun_upd_twist)
qed

text \<open>One entry: its descriptor gets the file it asks for, the others it claims are closed, the rest stays.\<close>

definition entry_done :: "descriptors \<Rightarrow> nat \<Rightarrow> nat list \<Rightarrow> open_file option \<Rightarrow> kernel \<Rightarrow> kernel \<Rightarrow> bool" where
  "entry_done T d fds f k k' \<longleftrightarrow> same_process k k' \<and> k_table k' d = f \<and> (\<forall>x. x \<notin> set fds \<longrightarrow> k_table k' x = k_table k x)"

abbreviation entry_step :: "os \<Rightarrow> bool \<Rightarrow> nat \<Rightarrow> stream_info \<Rightarrow> unit step" where
  "entry_step A out \<equiv> (if out then output_entry A else input_entry A)"

lemma entry_result:
  assumes "info_ready A T out si" and "d < k_limit k" and "\<forall>x \<in> set (claim (d, si)). k_table k x = T x"
    and "si_type si = Use_file \<longrightarrow> spare k used" and "d \<in> used"
  shows "\<exists>k'. entry_step A out d si k = (Inr (), k') \<and> entry_done T d (claim (d, si)) (entry_file T out d si) k k'"
proof (cases "si_type si")
  case Use_file
  then show ?thesis
    using assms open_at_result [of A "si_file si" out k used d]
    by (auto simp: info_ready_def input_entry_def output_entry_def entry_done_def entry_file_def claim_def)
next
  case Use_handle
  then show ?thesis
    using assms
    by (auto simp: info_ready_def input_entry_def output_entry_def entry_done_def entry_file_def claim_def info_fds_def handle_fds_def
        steps Let_def split: option.splits)
next
  case Use_pipe
  then show ?thesis
    using assms
    by (auto simp: info_ready_def input_entry_def output_entry_def entry_done_def entry_file_def claim_def info_fds_def handle_fds_def
        steps Let_def split: option.splits)
qed (use assms in \<open>auto simp: info_ready_def input_entry_def output_entry_def entry_done_def entry_file_def claim_def steps\<close>)


section \<open>The child's table\<close>

definition claims :: "info_map \<Rightarrow> nat list" where
  "claims m = concat (map claim m)"

lemma claims_simps [simp]: "claims [] = []" "claims (e # m) = claim e @ claims m"
  by (simp_all add: claims_def)

lemma key_in_claim [simp]: "d \<in> set (claim (d, si))"
  by (simp add: claim_def)

lemma key_in_claims: "(d, si) \<in> set m \<Longrightarrow> d \<in> set (claims m)"
  unfolding claims_def by (auto intro!: bexI [of _ "(d, si)"])

text \<open>What holds behind the loop over a map.\<close>

definition entries_done :: "descriptors \<Rightarrow> bool \<Rightarrow> info_map \<Rightarrow> kernel \<Rightarrow> kernel \<Rightarrow> bool" where
  "entries_done T out m k k' \<longleftrightarrow> same_process k k'
     \<and> (\<forall>(d, si) \<in> set m. k_table k' d = entry_file T out d si)
     \<and> (\<forall>x. x \<notin> set (claims m) \<longrightarrow> k_table k' x = k_table k x)"

lemma setup_entries_result:
  assumes "\<forall>(d, si) \<in> set m. info_ready A T out si \<and> d < k_limit k" and "k_limit k \<le> length flags"
    and "distinct (claims m)" and "\<forall>x \<in> set (claims m). k_table k x = T x"
    and "list_ex (\<lambda>e. si_type (snd e) = Use_file) m \<longrightarrow> spare k used" and "set (claims m) \<subseteq> used"
  shows "\<exists>k'. setup_entries (entry_step A out) m flags k = (Inr (foldl (\<lambda>f e. f[fst e := False]) flags m), k') \<and> entries_done T out m k k'"
  using assms
proof (induction m arbitrary: k flags)
  case Nil
  then show ?case
    by (simp add: ret_def entries_done_def)
next
  case (Cons e m)
  obtain d si where e: "e = (d, si)"
    by (cases e)
  have "info_ready A T out si" "d < k_limit k" "\<forall>x \<in> set (claim (d, si)). k_table k x = T x"
    "si_type si = Use_file \<longrightarrow> spare k used" "d \<in> used"
    using Cons.prems by (auto simp: e)
  from entry_result [OF this] obtain k1 where
    s: "entry_step A out d si k = (Inr (), k1)" and k1: "entry_done T d (claim (d, si)) (entry_file T out d si) k k1"
    by blast
  have same: "k_limit k1 = k_limit k" "same_process k k1"
    using k1 same_processD by (auto simp: entry_done_def)
  have kept: "k_table k1 x = k_table k x" if "x \<notin> set (claim (d, si))" for x
    using k1 that by (auto simp: entry_done_def)
  have "spare k1 used" if spare: "spare k used"
  proof -
    obtain q where q: "q < k_limit k" "k_table k q = None" "q \<notin> used"
      using spare by (auto simp: spare_def)
    moreover have "q \<notin> set (claim (d, si))"
      using q(3) Cons.prems(6) by (auto simp: e)
    ultimately show ?thesis
      using kept [of q] same(1) by (auto simp: spare_def)
  qed
  moreover have "\<forall>x \<in> set (claims m). k_table k1 x = T x"
  proof
    fix x
    assume x: "x \<in> set (claims m)"
    then have "x \<notin> set (claim (d, si))"
      using Cons.prems(3) by (auto simp: e)
    then show "k_table k1 x = T x"
      using kept [of x] Cons.prems(4) x by (simp add: e)
  qed
  ultimately have "\<exists>k'. setup_entries (entry_step A out) m (flags[d := False]) k1
      = (Inr (foldl (\<lambda>f e. f[fst e := False]) (flags[d := False]) m), k') \<and> entries_done T out m k1 k'"
    using Cons.prems by (intro Cons.IH) (auto simp: e same)
  then obtain k2 where k2: "setup_entries (entry_step A out) m (flags[d := False]) k1
      = (Inr (foldl (\<lambda>f e. f[fst e := False]) (flags[d := False]) m), k2)" "entries_done T out m k1 k2"
    by blast
  have "d \<notin> set (claims m)"
    using Cons.prems(3) key_in_claim [of d si] by (auto simp: e simp del: key_in_claim)
  then have "k_table k2 d = entry_file T out d si"
    using k1 k2(2) by (auto simp: entry_done_def entries_done_def)
  then have "entries_done T out (e # m) k k2"
    using k2(2) kept same_process_trans [OF same(2)] by (auto simp: entries_done_def e)
  moreover have "d < length flags"
    using Cons.prems(1,2) by (auto simp: e)
  ultimately show ?case
    using s k2(1) by (auto simp: e and_then_def)
qed

text \<open>The second pass of the output streams; the descriptors it copies from are not its own targets.\<close>

lemma redirect_entries_result:
  assumes "\<forall>(d, si) \<in> set m. d < k_limit k \<and> (si_type si = Type_redirect \<longrightarrow> k_table k (si_desc_to si) \<noteq> None
      \<and> (\<forall>(e, sj) \<in> set m. si_type sj = Type_redirect \<longrightarrow> e \<noteq> si_desc_to si))" and "distinct (map fst m)"
  shows "\<exists>k'. redirect_entries m k = (Inr (), k') \<and> same_process k k'
    \<and> (\<forall>x. k_table k' x = (case map_of m x of Some si \<Rightarrow> if si_type si = Type_redirect then k_table k (si_desc_to si) else k_table k x
                             | None \<Rightarrow> k_table k x))"
  using assms
proof (induction m arbitrary: k)
  case Nil
  then show ?case
    by (simp add: ret_def)
next
  case (Cons e m)
  obtain d si where e: "e = (d, si)"
    by (cases e)
  define k1 where "k1 = (if si_type si = Type_redirect then k\<lparr>k_table := (k_table k)(d := k_table k (si_desc_to si))\<rparr> else k)"
  have s: "(if si_type si = Type_redirect then and_then (posix_dup (si_desc_to si) d) (\<lambda>_. ret ()) else ret ()) k = (Inr (), k1)"
    using Cons.prems(1) by (auto simp: e k1_def steps)
  have "\<forall>(d', sj) \<in> set m. d' < k_limit k1 \<and> (si_type sj = Type_redirect \<longrightarrow> k_table k1 (si_desc_to sj) \<noteq> None
      \<and> (\<forall>(e, sj') \<in> set m. si_type sj' = Type_redirect \<longrightarrow> e \<noteq> si_desc_to sj))"
    using Cons.prems(1) by (fastforce simp: e k1_def)
  with Cons.prems(2) obtain k2 where k2: "redirect_entries m k1 = (Inr (), k2)" "same_process k1 k2"
    "\<And>x. k_table k2 x = (case map_of m x of Some si \<Rightarrow> if si_type si = Type_redirect then k_table k1 (si_desc_to si) else k_table k1 x
                             | None \<Rightarrow> k_table k1 x)"
    using Cons.IH [of k1] by auto
  have "same_process k k1"
    by (auto simp: k1_def)
  from same_process_trans [OF this k2(2)] have "same_process k k2" .
  moreover have none: "map_of m d = None"
    using Cons.prems(2) by (simp add: e map_of_eq_None_iff)
  have "si_desc_to sj \<noteq> d" if "map_of m x = Some sj" "si_type sj = Type_redirect" "si_type si = Type_redirect" for x sj
    using Cons.prems(1) map_of_SomeD [OF that(1)] that(2,3) by (fastforce simp: e)
  then have "k_table k2 x = (case map_of (e # m) x of Some si \<Rightarrow> if si_type si = Type_redirect then k_table k (si_desc_to si) else k_table k x
                             | None \<Rightarrow> k_table k x)" for x
    unfolding k2(3) using none by (auto simp: e k1_def split: option.splits)
  ultimately show ?case
    using s k2(1) by (auto simp: e and_then_def)
qed

lemma close_flagged_table:
  "same_process k (close_flagged flags k)
   \<and> k_table (close_flagged flags k) x = (if x < length flags \<and> flags ! x then None else k_table k x)"
proof -
  have "same_process k (foldl (\<lambda>k i. if flags ! i then snd (sys_close i k) else k) k is)
      \<and> k_table (foldl (\<lambda>k i. if flags ! i then snd (sys_close i k) else k) k is) x = (if x \<in> set is \<and> flags ! x then None else k_table k x)" for "is"
    by (induction "is" arbitrary: k) (auto simp: sys_close_def intro: same_process_trans [OF same_processI])
  then show ?thesis
    by (simp add: close_flagged_def)
qed


lemma flags_after:
  "length (foldl (\<lambda>f e. f[fst e := False]) flags m) = length flags
   \<and> (x < length flags \<longrightarrow> foldl (\<lambda>f e. f[fst e := False]) flags m ! x = (flags ! x \<and> x \<notin> fst ` set m))"
proof (induction m arbitrary: flags)
  case (Cons e m)
  then show ?case
    by (cases "fst e = x") auto
qed simp

lemma info_ready_open: "info_ready A T out si \<Longrightarrow> x \<in> set (info_fds si) \<Longrightarrow> T x \<noteq> None"
  by (auto simp: info_ready_def info_fds_def handle_fds_def split: info_type.splits option.splits)

lemma info_ready_not_redirect: "info_ready A T False si \<Longrightarrow> si_type si \<noteq> Type_redirect"
  by (auto simp: info_ready_def)

lemma claims_disjoint_keys: "distinct (claims m) \<Longrightarrow> distinct (map fst m)"
proof (induction m)
  case (Cons e m)
  moreover have "fst e \<in> set (claim e)"
    by (simp add: claim_def)
  ultimately show ?case
    using key_in_claims by fastforce
qed simp

text \<open>The table with every stream in place but the redirections, and the one the child is to run with.\<close>

definition plain_file :: "descriptors \<Rightarrow> info_map \<Rightarrow> info_map \<Rightarrow> nat \<Rightarrow> open_file option" where
  "plain_file T infoin infoout d =
     (case map_find infoin d of
        Some si \<Rightarrow> entry_file T False d si
      | None \<Rightarrow> (case map_find infoout d of Some si \<Rightarrow> entry_file T True d si | None \<Rightarrow> T d))"

definition intended_table :: "descriptors \<Rightarrow> info_map \<Rightarrow> info_map \<Rightarrow> descriptors" where
  "intended_table T infoin infoout d =
     (case map_find infoin d of
        Some si \<Rightarrow> entry_file T False d si
      | None \<Rightarrow>
          (case map_find infoout d of
             None \<Rightarrow> None
           | Some si \<Rightarrow> if si_type si = Type_redirect then plain_file T infoin infoout (si_desc_to si) else entry_file T True d si))"

text \<open>
  The kernel is as a process has it, every entry can be served, no descriptor is claimed twice, a file is
  opened only when a descriptor is free beside them, and a redirection copies from a descriptor that is open
  and not itself redirected.
\<close>

definition kernel_ok :: "os \<Rightarrow> kernel \<Rightarrow> bool" where
  "kernel_ok A k \<longleftrightarrow> max_descriptors A = k_limit k \<and> (\<forall>d. k_table k d \<noteq> None \<longrightarrow> d < k_limit k)"

definition redirect_ok :: "descriptors \<Rightarrow> info_map \<Rightarrow> info_map \<Rightarrow> stream_info \<Rightarrow> bool" where
  "redirect_ok T infoin infoout si \<longleftrightarrow> si_type si = Type_redirect \<longrightarrow>
     plain_file T infoin infoout (si_desc_to si) \<noteq> None
     \<and> list_all (\<lambda>(e, sj). si_type sj = Type_redirect \<longrightarrow> e \<noteq> si_desc_to si) infoout
     \<and> (si_desc_to si \<in> fst ` set (infoin @ infoout) \<or> si_desc_to si \<notin> set (claims (infoin @ infoout)))"

definition streams_ok :: "os \<Rightarrow> kernel \<Rightarrow> info_map \<Rightarrow> info_map \<Rightarrow> bool" where
  "streams_ok A k infoin infoout \<longleftrightarrow>
     list_all (\<lambda>(d, si). info_ready A (k_table k) False si \<and> d < k_limit k) infoin
     \<and> list_all (\<lambda>(d, si). info_ready A (k_table k) True si \<and> d < k_limit k \<and> redirect_ok (k_table k) infoin infoout si) infoout
     \<and> distinct (claims (infoin @ infoout))
     \<and> (list_ex (\<lambda>e. si_type (snd e) = Use_file) (infoin @ infoout) \<longrightarrow> spare k (set (claims (infoin @ infoout))))"

lemma claims_append [simp]: "claims (m @ m') = claims m @ claims m'"
  by (simp add: claims_def)

lemma setup_entries_both:
  assumes "kernel_ok A k" and "streams_ok A k infoin infoout"
  shows "\<exists>k1 k2 flags1. setup_input A infoin (replicate (max_descriptors A) True) k = (Inr flags1, k1)
    \<and> setup_entries (output_entry A) infoout flags1 k1 = (Inr (foldl (\<lambda>f e. f[fst e := False]) (replicate (max_descriptors A) True) (infoin @ infoout)), k2)
    \<and> same_process k k2
    \<and> (\<forall>x. x \<in> fst ` set (infoin @ infoout) \<or> x \<notin> set (claims (infoin @ infoout)) \<longrightarrow> k_table k2 x = plain_file (k_table k) infoin infoout x)"
proof -
  let ?T = "k_table k" and ?used = "set (claims (infoin @ infoout))"
  have lim: "max_descriptors A = k_limit k"
    using assms(1) by (simp add: kernel_ok_def)
  have ok: "\<forall>(d, si) \<in> set infoin. info_ready A ?T False si \<and> d < k_limit k"
    "\<forall>(d, si) \<in> set infoout. info_ready A ?T True si \<and> d < k_limit k"
    "distinct (claims infoin)" "distinct (claims infoout)" "set (claims infoin) \<inter> set (claims infoout) = {}"
    "list_ex (\<lambda>e. si_type (snd e) = Use_file) infoin \<longrightarrow> spare k ?used"
    "list_ex (\<lambda>e. si_type (snd e) = Use_file) infoout \<longrightarrow> spare k ?used"
    using assms(2) by (auto simp: streams_ok_def list_all_iff)
  obtain k1 where k1: "setup_entries (input_entry A) infoin (replicate (max_descriptors A) True) k
      = (Inr (foldl (\<lambda>f e. f[fst e := False]) (replicate (max_descriptors A) True) infoin), k1)" "entries_done ?T False infoin k k1"
    using setup_entries_result [of infoin A ?T False k "replicate (max_descriptors A) True" ?used] ok lim by auto
  have same: "same_process k k1" "k_limit k1 = k_limit k"
    using k1(2) same_processD by (auto simp: entries_done_def)
  have kept: "k_table k1 x = ?T x" if "x \<notin> set (claims infoin)" for x
    using k1(2) that by (auto simp: entries_done_def)
  have "spare k1 ?used" if "spare k ?used"
    using that kept same by (auto simp: spare_def)
  moreover have "k_table k1 x = ?T x" if "x \<in> set (claims infoout)" for x
    using kept ok(5) that by blast
  ultimately obtain k2 where k2: "setup_entries (output_entry A) infoout (foldl (\<lambda>f e. f[fst e := False]) (replicate (max_descriptors A) True) infoin) k1
      = (Inr (foldl (\<lambda>f e. f[fst e := False]) (foldl (\<lambda>f e. f[fst e := False]) (replicate (max_descriptors A) True) infoin) infoout), k2)"
    "entries_done ?T True infoout k1 k2"
    using setup_entries_result [of infoout A ?T True k1 "foldl (\<lambda>f e. f[fst e := False]) (replicate (max_descriptors A) True) infoin" ?used]
      ok lim same by (auto simp: flags_after)
  have "k_table k2 x = plain_file ?T infoin infoout x" if x: "x \<in> fst ` set (infoin @ infoout) \<or> x \<notin> set (claims (infoin @ infoout))" for x
  proof (cases "map_of infoin x")
    case (Some si)
    then have m: "(x, si) \<in> set infoin"
      by (rule map_of_SomeD)
    then have "k_table k1 x = entry_file ?T False x si" "x \<notin> set (claims infoout)"
      using k1(2) key_in_claims [OF m] ok(5) by (auto simp: entries_done_def)
    then show ?thesis
      using k2(2) Some by (auto simp: entries_done_def plain_file_def map_find_map_of)
  next
    case none: None
    then have not_in: "x \<notin> fst ` set infoin"
      by (simp add: map_of_eq_None_iff)
    show ?thesis
    proof (cases "map_of infoout x")
      case (Some si)
      then show ?thesis
        using k2(2) none map_of_SomeD [OF Some] by (auto simp: entries_done_def plain_file_def map_find_map_of)
    next
      case None
      then have "x \<notin> set (claims infoin)" "x \<notin> set (claims infoout)"
        using x not_in by (auto simp: map_of_eq_None_iff)
      then show ?thesis
        using k2(2) kept none None by (auto simp: entries_done_def plain_file_def map_find_map_of)
    qed
  qed
  moreover have "same_process k k2"
    using same(1) k2(2) same_process_trans by (auto simp: entries_done_def)
  ultimately show ?thesis
    using k1(1) k2(1) by (auto simp: setup_input_def)
qed


lemma child_descriptors_set_up:
  assumes "kernel_ok A k" and "streams_ok A k infoin infoout"
  shows "\<exists>k'. setup_streams A infoin infoout k = (Inr (), k') \<and> same_process k k' \<and> k_table k' = intended_table (k_table k) infoin infoout"
proof -
  let ?T = "k_table k" and ?keys = "fst ` set (infoin @ infoout)"
  let ?flags = "foldl (\<lambda>f e. f[fst e := False]) (replicate (max_descriptors A) True) (infoin @ infoout)"
  obtain k1 k2 flags1 where k12: "setup_input A infoin (replicate (max_descriptors A) True) k = (Inr flags1, k1)"
      "setup_entries (output_entry A) infoout flags1 k1 = (Inr ?flags, k2)" "same_process k k2"
    and t2: "\<And>x. x \<in> ?keys \<or> x \<notin> set (claims (infoin @ infoout)) \<Longrightarrow> k_table k2 x = plain_file ?T infoin infoout x"
    using setup_entries_both [OF assms] by blast
  have lim: "k_limit k2 = k_limit k"
    using k12(3) same_processD by blast
  have out: "\<forall>(d, si) \<in> set infoout. info_ready A ?T True si \<and> d < k_limit k \<and> redirect_ok ?T infoin infoout si"
    and "in": "\<forall>(d, si) \<in> set infoin. info_ready A ?T False si \<and> d < k_limit k"
    and disjoint: "distinct (claims (infoin @ infoout))"
    using assms(2) by (auto simp: streams_ok_def list_all_iff)
  have source: "k_table k2 (si_desc_to si) = plain_file ?T infoin infoout (si_desc_to si)"
    if "(d, si) \<in> set infoout" "si_type si = Type_redirect" for d si
    using out that by (intro t2) (auto simp: redirect_ok_def)
  have "\<forall>(d, si) \<in> set infoout. d < k_limit k2 \<and> (si_type si = Type_redirect \<longrightarrow> k_table k2 (si_desc_to si) \<noteq> None
      \<and> (\<forall>(e, sj) \<in> set infoout. si_type sj = Type_redirect \<longrightarrow> e \<noteq> si_desc_to si))"
    using out source lim by (fastforce simp: redirect_ok_def list_all_iff)
  moreover have keys: "distinct (map fst (infoin @ infoout))"
    using disjoint by (rule claims_disjoint_keys)
  ultimately obtain k3 where k3: "redirect_entries infoout k2 = (Inr (), k3)" "same_process k2 k3"
    and t3: "\<And>x. k_table k3 x = (case map_of infoout x of
        Some si \<Rightarrow> if si_type si = Type_redirect then k_table k2 (si_desc_to si) else k_table k2 x | None \<Rightarrow> k_table k2 x)"
    using redirect_entries_result [of infoout k2] by auto
  define k4 where "k4 = close_flagged ?flags k3"
  have run: "setup_streams A infoin infoout k = (Inr (), k4)"
    using k12 k3(1) by (simp add: setup_streams_def setup_output_def and_then_def ret_def k4_def)
  have same: "same_process k k4"
    unfolding k4_def using k12(3) k3(2) close_flagged_table same_process_trans by blast
  have flags: "x < length ?flags \<and> ?flags ! x \<longleftrightarrow> x < k_limit k \<and> x \<notin> ?keys" for x
    using assms(1) flags_after [of "replicate (max_descriptors A) True" "infoin @ infoout" x] by (auto simp: kernel_ok_def)
  have t4: "k_table k4 x = (if x < k_limit k \<and> x \<notin> ?keys then None else k_table k3 x)" for x
    unfolding k4_def flags [symmetric] using close_flagged_table by blast
  have "k_table k4 x = intended_table ?T infoin infoout x" for x
  proof (cases "x \<in> ?keys")
    case True
    then have "k_table k4 x = k_table k3 x"
      by (simp add: t4)
    moreover have "k_table k2 x = plain_file ?T infoin infoout x"
      using True by (intro t2) simp
    moreover have "map_of infoout x = None" if "map_of infoin x = Some si" for si
      using keys map_of_SomeD [OF that] by (force simp: map_of_eq_None_iff)
    moreover have "map_of infoin x \<noteq> None \<or> map_of infoout x \<noteq> None"
      using True by (auto simp: map_of_eq_None_iff)
    ultimately show ?thesis
      using t3 [of x] source map_of_SomeD [of infoout x]
      by (auto simp: intended_table_def plain_file_def map_find_map_of split: option.splits)
  next
    case False
    then have absent: "map_of infoin x = None" "map_of infoout x = None"
      by (auto simp: map_of_eq_None_iff)
    then have none: "intended_table ?T infoin infoout x = None"
      by (simp add: intended_table_def map_find_map_of)
    show ?thesis
    proof (cases "x < k_limit k")
      case True
      then show ?thesis
        using none False t4 [of x] by simp
    next
      case far: False
      then have closed: "?T x = None"
        using assms(1) by (auto simp: kernel_ok_def)
      have "x \<notin> set (claim e)" if member: "e \<in> set (infoin @ infoout)" for e
      proof -
        obtain d si where e0: "e = (d, si)"
          by (cases e)
        have "info_ready A ?T False si \<or> info_ready A ?T True si"
          using member out "in" by (auto simp: e0)
        then obtain out' where e: "e = (d, si)" "info_ready A ?T out' si"
          using e0 by blast
        moreover have "x \<noteq> d"
          using False member e(1) by (metis fst_conv image_eqI)
        ultimately show ?thesis
          using info_ready_open [OF e(2), of x] closed by (auto simp: claim_def)
      qed
      then have "x \<notin> set (claims (infoin @ infoout))"
        unfolding claims_def by auto
      then have "k_table k2 x = ?T x"
        using absent t2 [of x] by (simp add: plain_file_def map_find_map_of)
      then show ?thesis
        using none closed absent t3 [of x] t4 [of x] far by simp
    qed
  qed
  then show ?thesis
    using run same by (auto simp: fun_eq_iff)
qed


section \<open>Instances\<close>

definition plain_os :: os where
  "plain_os = \<lparr>os_open_max = Some 16, os_opens = (\<lambda>path out. path \<in> {asc ''/dev/null'', asc ''/dev/zero''}),
     os_fork = (\<lambda>n. Some (n + 100)), os_chroot = (\<lambda>_. True), os_chdir = (\<lambda>_. True), os_executes = (\<lambda>_. True)\<rparr>"

definition root_user :: credentials where
  "root_user = \<lparr>c_ruid = 0, c_euid = 0, c_suid = 0, c_rgid = 0, c_egid = 0, c_sgid = 0\<rparr>"

definition plain_kernel :: kernel where
  "plain_kernel = \<lparr>k_table = (\<lambda>d. if d < 3 then Some (Inherited d) else None), k_limit = 16, k_creds = root_user,
     k_pipes = 0, k_forks = 0, k_started = []\<rparr>"

lemma plain_kernel_ok [simp]: "kernel_ok plain_os plain_kernel"
  by (simp add: kernel_ok_def plain_os_def plain_kernel_def max_descriptors_def)

definition pipe_info :: "nat \<Rightarrow> nat \<Rightarrow> stream_info" where
  "pipe_info r w = (plain_info Use_pipe)\<lparr>si_pipe := Some \<lparr>p_rend = Some r, p_wend = Some w\<rparr>\<rparr>"


text \<open>
  Where the maps claim a descriptor twice it goes wrong. With input 5 and output 6 captured and 3 to 6 free in
  the caller, the pipes are (3, 4) and (5, 6): the read end of the first is moved to 5, over the read end of
  the second, and closed when that one's turn comes.
\<close>

lemma captured_descriptor_lost:
  "\<exists>k'. setup_streams plain_os [(5, pipe_info 3 4)] [(6, pipe_info 5 6)]
      (plain_kernel\<lparr>k_table := (k_table plain_kernel)(3 \<mapsto> Read_end 0, 4 \<mapsto> Write_end 0, 5 \<mapsto> Read_end 1, 6 \<mapsto> Write_end 1)\<rparr>) = (Inr (), k')
    \<and> k_table k' 5 = None \<and> k_table k' 6 = Some (Write_end 1)"
proof -
  let ?k = "plain_kernel\<lparr>k_table := (k_table plain_kernel)(3 \<mapsto> Read_end 0, 4 \<mapsto> Write_end 0, 5 \<mapsto> Read_end 1, 6 \<mapsto> Write_end 1)\<rparr>"
  let ?flags = "(replicate 16 True)[5 := False, 6 := False]"
  obtain k2 where k2: "setup_streams plain_os [(5, pipe_info 3 4)] [(6, pipe_info 5 6)] ?k = (Inr (), close_flagged ?flags k2)"
    "k_table k2 5 = None" "k_table k2 6 = Some (Write_end 1)"
    by (simp add: setup_streams_def max_descriptors_def plain_os_def setup_input_def setup_output_def input_entry_def output_entry_def
        pipe_info_def plain_info_def steps Let_def plain_kernel_def)
  have "k_table (close_flagged ?flags k2) 5 = None" "k_table (close_flagged ?flags k2) 6 = Some (Write_end 1)"
    using k2(2,3) close_flagged_table [of k2 ?flags] by simp_all
  with k2(1) show ?thesis
    by blast
qed

end
