(* ===== verification/LaunchProperties.thy ===== *)
theory LaunchProperties
  imports DescriptorProperties
begin

text \<open>
  What \<open>posix_launch\<close> does as a whole: it gives back every descriptor but the ones its child object owns, and the
  worker of the service writes into the pipe the service reads.
\<close>

section \<open>No descriptor is lost\<close>

text \<open>\<open>outside ds k\<close>: the table without the descriptors that \<open>ds\<close> names.\<close>

definition outside :: "nat list \<Rightarrow> kernel \<Rightarrow> descriptors" where
  "outside ds k = (\<lambda>x. if x \<in> set ds then None else k_table k x)"

definition infos_fds :: "info_map \<Rightarrow> nat list" where
  "infos_fds m = concat (map (info_fds \<circ> snd) m)"

lemma infos_fds_simps [simp]: "infos_fds [] = []" "infos_fds ((d, si) # m) = info_fds si @ infos_fds m"
  by (simp_all add: infos_fds_def)

lemma outside_Nil [simp]: "outside [] k = k_table k"
  by (simp add: outside_def)

lemma set_map_assign_new: "map_find m d = None \<Longrightarrow> set (map_assign d v m) = insert (d, v) (set m)"
  by (induction d v m rule: map_assign.induct) (auto split: if_splits)

lemma fh_destroy_table: "k_table (fh_destroy h k) = outside (handle_fds h) k \<and> same_process k (fh_destroy h k)"
  by (cases h) (auto simp: fh_destroy_def handle_fds_def outside_def sys_close_def fun_eq_iff)

lemma outside_cong: "k_table k1 = k_table k \<Longrightarrow> outside ds k1 = outside ds k"
  by (auto simp: outside_def fun_eq_iff)

lemma outside_outside:
  "k_table k1 = outside ds k \<Longrightarrow> outside ds' k1 = outside (ds @ ds') k"
  by (auto simp: outside_def fun_eq_iff)

lemma destroy_info_table: "k_table (destroy_info si k) = outside (info_fds si) k \<and> same_process k (destroy_info si k)"
proof -
  have p: "k_table (destroy_pipe p k) = outside (handle_fds (p_rend p) @ handle_fds (p_wend p)) k \<and> same_process k (destroy_pipe p k)" for p
    using fh_destroy_table [of "p_rend p" "fh_destroy (p_wend p) k"] fh_destroy_table [of "p_wend p" k] same_process_trans
    by (auto simp: destroy_pipe_def outside_def fun_eq_iff)
  show ?thesis
    using fh_destroy_table [of "si_handle si"] p
    by (cases "si_pipe si")
       (auto simp: destroy_info_def info_fds_def outside_def fun_eq_iff intro: same_process_trans [of k "destroy_pipe p k" for p])
qed

lemma destroy_infos_table: "k_table (destroy_infos m k) = outside (infos_fds m) k \<and> same_process k (destroy_infos m k)"
  unfolding destroy_infos_def
proof (induction m arbitrary: k)
  case (Cons e m)
  obtain d si where e: "e = (d, si)"
    by (cases e)
  from Cons.IH [of "destroy_info si k"] destroy_info_table [of si k] show ?case
    by (auto simp: e outside_def fun_eq_iff intro: same_process_trans)
qed simp

text \<open>Every captured stream has both ends of its pipe, then one of them.\<close>

definition pipes_have :: "bool \<Rightarrow> bool \<Rightarrow> info_map \<Rightarrow> bool" where
  "pipes_have rend wend m \<longleftrightarrow>
     (\<forall>(d, si) \<in> set m. si_type si = Use_pipe \<longrightarrow>
        (\<exists>p. si_pipe si = Some p \<and> (rend \<longrightarrow> p_rend p \<noteq> None) \<and> (wend \<longrightarrow> p_wend p \<noteq> None)))"

text \<open>Making pipes changes the table and the number of pipes only.\<close>

definition no_fork :: "kernel \<Rightarrow> kernel \<Rightarrow> bool" where
  "no_fork k k' \<longleftrightarrow> k_forks k' = k_forks k \<and> k_started k' = k_started k \<and> k_limit k' = k_limit k \<and> k_creds k' = k_creds k"

lemma same_process_no_fork: "same_process k k' \<Longrightarrow> no_fork k k'"
  by (auto simp: same_process_def no_fork_def)

lemma no_fork_trans: "no_fork k k' \<Longrightarrow> no_fork k' k'' \<Longrightarrow> no_fork k k''"
  by (simp add: no_fork_def)

lemma new_stream_info_result:
  "case new_stream_info sb out k of
     (Inl e, k') \<Rightarrow> k' = k \<and> e \<noteq> Failed_assertion
   | (Inr si, k') \<Rightarrow> no_fork k k' \<and> outside (info_fds si) k' = k_table k \<and> pipes_have True True [(d, si)]"
proof -
  have "k_table k r = None \<and> k_table k w = None" if "free_descriptors k = r # w # ds" for r w ds
  proof -
    have "{r, w} \<subseteq> set (free_descriptors k)"
      by (simp add: that)
    then show ?thesis
      by (simp add: free_descriptors_def)
  qed
  then show ?thesis
    by (auto simp: new_stream_info_def ret_def and_then_def new_pipe_def sys_pipe_def plain_info_def info_fds_def handle_fds_def
        outside_def fun_eq_iff pipes_have_def no_fork_def split: stream_behavior.splits list.splits)
qed

lemma build_infos_result:
  assumes "outside (infos_fds m) k = T" and "pipes_have True True m"
  shows "case build_infos out b m k of
      (Inl e, k') \<Rightarrow> k_table k' = T \<and> e \<noteq> Failed_assertion
    | (Inr m', k') \<Rightarrow> no_fork k k' \<and> outside (infos_fds m') k' = T \<and> pipes_have True True m'"
  using assms
proof (induction out b m arbitrary: k rule: build_infos.induct)
  case (1 out infos)
  then show ?case
    by (simp add: ret_def no_fork_def)
next
  case (2 out d sb b infos)
  obtain r k1 where r: "new_stream_info sb out k = (r, k1)"
    by fastforce
  note result = new_stream_info_result [where sb = sb and out = out and k = k and d = d, unfolded r]
  show ?case
  proof (cases "sb = Close")
    case True
    then show ?thesis
      using 2 by simp
  next
    case open_stream: False
    show ?thesis
    proof (cases r)
      case (Inl e)
      then show ?thesis
        using result open_stream 2(4) r destroy_infos_table [of infos k] by simp
    next
      case (Inr si)
      have k1: "outside (info_fds si) k1 = k_table k" "pipes_have True True [(d, si)]" "no_fork k k1"
        using result Inr by simp_all
      show ?thesis
      proof (cases "map_find infos d")
        case None
        have "outside (infos_fds (map_assign d si infos)) k1 = T"
          using k1(1) 2(4) set_map_assign_new [OF None, of si] by (fastforce simp: outside_def infos_fds_def fun_eq_iff)
        moreover have "pipes_have True True (map_assign d si infos)"
          using k1(2) 2(5) set_map_assign_new [OF None, of si] by (auto simp: pipes_have_def)
        ultimately show ?thesis
          using 2(2) [OF open_stream r [symmetric] Inr None, of k1] open_stream r Inr None no_fork_trans [OF k1(3)]
          by (auto split: sum.splits prod.splits)
      next
        case (Some sj)
        have "k_table (destroy_info si k1) = k_table k"
          using k1(1) destroy_info_table [of si k1] by simp
        then have "outside (infos_fds infos) (destroy_info si k1) = T"
          using 2(4) outside_cong by metis
        then show ?thesis
          using 2(3) [OF open_stream r [symmetric] Inr, of "destroy_info si k1"] 2(5) open_stream r Inr Some
            no_fork_trans [OF no_fork_trans [OF k1(3) same_process_no_fork [OF destroy_info_table [THEN conjunct2]]]]
          by (auto split: sum.splits prod.splits)
      qed
    qed
  qed
qed


text \<open>Moving or closing an end leaves the rest of the table.\<close>

lemma outside_append: "outside (a @ b) k = (\<lambda>x. if x \<in> set a then None else outside b k x)"
  by (auto simp: outside_def fun_eq_iff)

lemma outside_append_eq: "outside b k = outside c k' \<Longrightarrow> outside (a @ b) k = outside (a @ c) k'"
  by (auto simp: outside_append fun_eq_iff)

lemma outside_set: "set a = set b \<Longrightarrow> outside a k = outside b k"
  by (simp add: outside_def)

lemma outside_swap: "outside (a @ b) k = outside (b @ a) k"
  by (rule outside_set) auto

definition moves :: "kernel \<Rightarrow> nat list \<Rightarrow> kernel \<Rightarrow> nat list \<Rightarrow> bool" where
  "moves k ds k' ds' \<longleftrightarrow> same_process k k' \<and> outside ds' k' = outside ds k"

lemma moves_trans: "moves k ds k' ds' \<Longrightarrow> moves k' ds' k'' ds'' \<Longrightarrow> moves k ds k'' ds''"
  using same_process_trans by (auto simp: moves_def)

lemma moves_frame:
  assumes "moves k ds k' (a' @ b)" and "moves k' b k'' b'"
  shows "moves k ds k'' (a' @ b')"
  using assms same_process_trans outside_append_eq [of b' k'' b k' a'] by (auto simp: moves_def)

lemma moves_append:
  assumes "moves k a k' a'"
  shows "moves k (a @ b) k' (a' @ b)"
proof -
  have "outside (a' @ b) k' = outside (b @ a') k'" "outside (b @ a) k = outside (a @ b) k"
    by (rule outside_set, auto)+
  then show ?thesis
    using assms outside_append_eq [of a' k' a k b] by (auto simp: moves_def)
qed

lemma pipes_have_simps [simp]:
  "pipes_have rend wend []"
  "pipes_have rend wend ((d, si) # m) \<longleftrightarrow>
     (si_type si = Use_pipe \<longrightarrow> (\<exists>p. si_pipe si = Some p \<and> (rend \<longrightarrow> p_rend p \<noteq> None) \<and> (wend \<longrightarrow> p_wend p \<noteq> None)))
     \<and> pipes_have rend wend m"
  by (auto simp: pipes_have_def)

lemma close_child_ends_result:
  assumes "pipes_have True True m"
  shows "\<exists>m' k'. close_child_ends out m k = (Inr m', k') \<and> moves k (infos_fds m) k' (infos_fds m')
    \<and> pipes_have out (\<not> out) m' \<and> map fst m' = map fst m"
  using assms
proof (induction m arbitrary: k)
  case Nil
  then show ?case
    by (simp add: ret_def moves_def)
next
  case (Cons e m)
  obtain d si where e: "e = (d, si)"
    by (cases e)
  have "\<exists>si' k1. (if si_type si = Use_pipe then
          (case si_pipe si of
             None \<Rightarrow> throw Failed_assertion
           | Some p \<Rightarrow>
               if out then and_then (fh_close (p_wend p)) (\<lambda>h. ret (si\<lparr>si_pipe := Some (p\<lparr>p_wend := h\<rparr>)\<rparr>))
               else and_then (fh_close (p_rend p)) (\<lambda>h. ret (si\<lparr>si_pipe := Some (p\<lparr>p_rend := h\<rparr>)\<rparr>)))
        else ret si) k = (Inr si', k1)
     \<and> moves k (info_fds si @ infos_fds m) k1 (info_fds si' @ infos_fds m) \<and> pipes_have out (\<not> out) [(d, si')]"
    using Cons.prems
    by (auto simp: e ret_def and_then_def fh_close_def sys_close_def moves_def outside_def info_fds_def handle_fds_def fun_eq_iff)
  then obtain si' k1 where s: "(if si_type si = Use_pipe then
          (case si_pipe si of
             None \<Rightarrow> throw Failed_assertion
           | Some p \<Rightarrow>
               if out then and_then (fh_close (p_wend p)) (\<lambda>h. ret (si\<lparr>si_pipe := Some (p\<lparr>p_wend := h\<rparr>)\<rparr>))
               else and_then (fh_close (p_rend p)) (\<lambda>h. ret (si\<lparr>si_pipe := Some (p\<lparr>p_rend := h\<rparr>)\<rparr>)))
        else ret si) k = (Inr si', k1)"
    and m1: "moves k (info_fds si @ infos_fds m) k1 (info_fds si' @ infos_fds m)" "pipes_have out (\<not> out) [(d, si')]"
    by blast
  obtain m' k' where m': "close_child_ends out m k1 = (Inr m', k')" "moves k1 (infos_fds m) k' (infos_fds m')"
    "pipes_have out (\<not> out) m'" "map fst m' = map fst m"
    using Cons.IH [of k1] Cons.prems by (auto simp: e)
  show ?case
    using m1(2) m' moves_frame [OF m1(1) m'(2)] by (simp add: e s and_then_def ret_def)
qed

lemma map_erase_fds: "map_find m d = Some si \<Longrightarrow> set (infos_fds m) = set (info_fds si) \<union> set (infos_fds (map_erase d m))"
  by (induction m) (auto split: if_splits)

lemma pipes_have_erase: "pipes_have rend wend m \<Longrightarrow> pipes_have rend wend (map_erase d m)"
  using set_map_erase_sub [of d m] by (auto simp: pipes_have_def)

lemma locate_pipe_result:
  assumes "pipes_have out (\<not> out) m"
  shows "\<exists>fh m' k'. posix_info_locate_pipe m desc out k = (Inr (fh, m'), k')
    \<and> moves k (infos_fds m) k' (handle_fds fh @ infos_fds m') \<and> pipes_have out (\<not> out) m'"
proof (cases "map_find m desc")
  case None
  then show ?thesis
    using assms by (simp add: posix_info_locate_pipe_def ret_def moves_def handle_fds_def)
next
  case (Some si)
  then have "(desc, si) \<in> set m"
    by (simp add: map_find_map_of map_of_SomeD)
  then have p: "si_type si = Use_pipe \<Longrightarrow> \<exists>p. si_pipe si = Some p \<and> (out \<longrightarrow> p_rend p \<noteq> None) \<and> (\<not> out \<longrightarrow> p_wend p \<noteq> None)"
    using assms by (auto simp: pipes_have_def)
  have "\<exists>fh si'. posix_info_locate_pipe m desc out k = (Inr (fh, map_erase desc m), destroy_info si' k)
      \<and> set (info_fds si) = set (handle_fds fh) \<union> set (info_fds si')"
    using p Some
    by (auto simp: posix_info_locate_pipe_def ret_def and_then_def fh_release_def info_fds_def handle_fds_def split: option.splits)
  then obtain fh si' where r: "posix_info_locate_pipe m desc out k = (Inr (fh, map_erase desc m), destroy_info si' k)"
    and fds: "set (info_fds si) = set (handle_fds fh) \<union> set (info_fds si')"
    by blast
  have "outside (handle_fds fh @ infos_fds (map_erase desc m)) (destroy_info si' k)
      = outside (info_fds si' @ handle_fds fh @ infos_fds (map_erase desc m)) k"
    using destroy_info_table [of si' k] by (auto simp: outside_def fun_eq_iff)
  also have "\<dots> = outside (infos_fds m) k"
    using map_erase_fds [OF Some] fds by (intro outside_set) auto
  finally show ?thesis
    using r destroy_info_table pipes_have_erase [OF assms] by (auto simp: moves_def)
qed

lemma take_ends_result:
  assumes "pipes_have out (\<not> out) m"
  shows "\<exists>streams m'. take_ends out m k = (Inr (streams, m'), k)
    \<and> set (infos_fds m) = set (map snd streams) \<union> set (infos_fds m')"
  using assms
proof (induction m)
  case Nil
  then show ?case
    by (simp add: ret_def)
next
  case (Cons e m)
  obtain d si where e: "e = (d, si)"
    by (cases e)
  obtain streams m' where m': "take_ends out m k = (Inr (streams, m'), k)"
    "set (infos_fds m) = set (map snd streams) \<union> set (infos_fds m')"
    using Cons by (auto simp: e)
  show ?case
    using Cons.prems m'
    by (auto simp: e ret_def and_then_def fh_release_def info_fds_def handle_fds_def split: option.splits)
qed

text \<open>The descriptors a child object owns.\<close>

definition child_fds :: "posix_child \<Rightarrow> nat list" where
  "child_fds c = handle_fds (ch_stdin c) @ handle_fds (ch_stdout c) @ handle_fds (ch_stderr c) @ map snd (pc_input c) @ map snd (pc_output c)"

lemma new_posix_child_result:
  assumes "pipes_have False True infoin" and "pipes_have True False infoout"
  shows "\<exists>c infoin' infoout' k'. new_posix_child pid infoin infoout k = (Inr (c, infoin', infoout'), k') \<and> ch_id c = pid
    \<and> moves k (infos_fds infoin @ infos_fds infoout) k' (child_fds c @ infos_fds infoin' @ infos_fds infoout')"
proof -
  obtain h0 in1 k1 where s1: "posix_info_locate_pipe infoin 0 False k = (Inr (h0, in1), k1)"
    "moves k (infos_fds infoin) k1 (handle_fds h0 @ infos_fds in1)" "pipes_have False True in1"
    using locate_pipe_result [of False infoin] assms(1) by fastforce
  obtain h1 out1 k2 where s2: "posix_info_locate_pipe infoout 1 True k1 = (Inr (h1, out1), k2)"
    "moves k1 (infos_fds infoout) k2 (handle_fds h1 @ infos_fds out1)" "pipes_have True False out1"
    using locate_pipe_result [of True infoout] assms(2) by fastforce
  obtain h2 out2 k3 where s3: "posix_info_locate_pipe out1 2 True k2 = (Inr (h2, out2), k3)"
    "moves k2 (infos_fds out1) k3 (handle_fds h2 @ infos_fds out2)" "pipes_have True False out2"
    using locate_pipe_result [of True out1] s2(3) by fastforce
  obtain ins in2 where s4: "take_ends False in1 k3 = (Inr (ins, in2), k3)" "set (infos_fds in1) = set (map snd ins) \<union> set (infos_fds in2)"
    using take_ends_result [of False in1 k3] s1(3) by auto
  obtain outs out3 where s5: "take_ends True out2 k3 = (Inr (outs, out3), k3)" "set (infos_fds out2) = set (map snd outs) \<union> set (infos_fds out3)"
    using take_ends_result [of True out2 k3] s3(3) by auto
  let ?c = "\<lparr>ch_id = pid, ch_stdin = h0, ch_stdout = h1, ch_stderr = h2, pc_input = ins, pc_output = outs\<rparr>"
  have "new_posix_child pid infoin infoout k = (Inr (?c, in2, out3), k3)"
    using s1 s2 s3 s4 s5 by (simp add: new_posix_child_def and_then_def ret_def)
  moreover have "moves k (infos_fds infoin @ infos_fds infoout) k3 (((handle_fds h0 @ infos_fds in1) @ handle_fds h1) @ handle_fds h2 @ infos_fds out2)"
  proof -
    have "moves k (infos_fds infoin @ infos_fds infoout) k2 (((handle_fds h0 @ infos_fds in1) @ handle_fds h1) @ infos_fds out1)"
      using moves_frame [OF moves_append [OF s1(2), of "infos_fds infoout"] s2(2)] by simp
    then show ?thesis
      by (rule moves_frame [OF _ s3(2)])
  qed
  moreover have "outside (((handle_fds h0 @ infos_fds in1) @ handle_fds h1) @ handle_fds h2 @ infos_fds out2) k3
      = outside (child_fds ?c @ infos_fds in2 @ infos_fds out3) k3"
    using s4(2) s5(2) by (intro outside_set) (auto simp: child_fds_def)
  ultimately show ?thesis
    by (auto simp: moves_def)
qed

lemma posix_start_result:
  assumes "pipes_have True True infoin" and "pipes_have True True infoout" and "os_fork A (k_forks k) \<noteq> Some 0"
  shows "case os_fork A (k_forks k) of
      None \<Rightarrow> posix_start A exe args env infoin infoout s k = (Inl (System_error ''posix_start: fork(2) failed''), k\<lparr>k_forks := k_forks k + 1\<rparr>)
    | Some pid \<Rightarrow> \<exists>in' out' k'. posix_start A exe args env infoin infoout s k = (Inr (pid, in', out'), k')
        \<and> moves (k\<lparr>k_forks := k_forks k + 1, k_started := k_started k @ [(pid, run_child A exe args env infoin infoout s k)]\<rparr>)
            (infos_fds infoin @ infos_fds infoout) k' (infos_fds in' @ infos_fds out')
        \<and> pipes_have False True in' \<and> pipes_have True False out'"
proof (cases "os_fork A (k_forks k)")
  case None
  then show ?thesis
    by (simp add: posix_start_def)
next
  case (Some pid)
  define k0 where "k0 = k\<lparr>k_forks := k_forks k + 1, k_started := k_started k @ [(pid, run_child A exe args env infoin infoout s k)]\<rparr>"
  obtain in' k1 where s1: "close_child_ends False infoin k0 = (Inr in', k1)" "moves k0 (infos_fds infoin) k1 (infos_fds in')"
    "pipes_have False True in'"
    using close_child_ends_result [OF assms(1), of False k0] by auto
  obtain out' k2 where s2: "close_child_ends True infoout k1 = (Inr out', k2)" "moves k1 (infos_fds infoout) k2 (infos_fds out')"
    "pipes_have True False out'"
    using close_child_ends_result [OF assms(2), of True k1] by auto
  have "posix_start A exe args env infoin infoout s k = (Inr (pid, in', out'), k2)"
    using assms(3) Some s1(1) s2(1) by (simp add: posix_start_def Let_def and_then_def ret_def k0_def)
  moreover have "moves k0 (infos_fds infoin @ infos_fds infoout) k2 (infos_fds in' @ infos_fds out')"
    by (rule moves_frame [OF moves_append [OF s1(2)] s2(2)])
  ultimately show ?thesis
    using Some s1(3) s2(3) by (auto simp: k0_def)
qed

lemma start_posix_child_result:
  assumes "pipes_have True True infoin" and "pipes_have True True infoout" and "os_fork A (k_forks k) \<noteq> Some 0"
    and f: "os_fork A (k_forks k) = f" and T: "outside (infos_fds infoin @ infos_fds infoout) k = T"
  shows "case start_posix_child A exe args env infoin infoout s k of
      (Inl e, k') \<Rightarrow> e \<noteq> Failed_assertion \<and> k_table k' = T
    | (Inr c, k') \<Rightarrow> f = Some (ch_id c) \<and> outside (child_fds c) k' = T"
proof (cases "os_fork A (k_forks k)")
  case None
  let ?k = "k\<lparr>k_forks := k_forks k + 1\<rparr>"
  have "k_table (destroy_infos infoin (destroy_infos infoout ?k)) = outside (infos_fds infoout @ infos_fds infoin) ?k"
    using destroy_infos_table [of infoin "destroy_infos infoout ?k"] destroy_infos_table [of infoout ?k]
      outside_outside [of "destroy_infos infoout ?k" "infos_fds infoout" ?k "infos_fds infoin"] by simp
  also have "\<dots> = T"
    unfolding T [symmetric] by (subst outside_swap, rule outside_cong) simp
  finally show ?thesis
    using None f by (simp add: start_posix_child_def posix_start_def)
next
  case (Some pid)
  define k0 where "k0 = k\<lparr>k_forks := k_forks k + 1, k_started := k_started k @ [(pid, run_child A exe args env infoin infoout s k)]\<rparr>"
  obtain in' out' k1 where s1: "posix_start A exe args env infoin infoout s k = (Inr (pid, in', out'), k1)"
    "moves k0 (infos_fds infoin @ infos_fds infoout) k1 (infos_fds in' @ infos_fds out')"
    "pipes_have False True in'" "pipes_have True False out'"
    using posix_start_result [OF assms(1-3), of exe args env s] Some by (auto simp: k0_def)
  obtain c in2 out2 k2 where s2: "new_posix_child pid in' out' k1 = (Inr (c, in2, out2), k2)" "ch_id c = pid"
    "moves k1 (infos_fds in' @ infos_fds out') k2 (child_fds c @ infos_fds in2 @ infos_fds out2)"
    using new_posix_child_result [OF s1(3,4)] by blast
  let ?k = "destroy_infos in2 (destroy_infos out2 k2)"
  have "k_table ?k = outside (infos_fds out2 @ infos_fds in2) k2"
    using destroy_infos_table [of in2 "destroy_infos out2 k2"] destroy_infos_table [of out2 k2]
      outside_outside [of "destroy_infos out2 k2" "infos_fds out2" k2 "infos_fds in2"] by simp
  then have "outside (child_fds c) ?k = outside ((infos_fds out2 @ infos_fds in2) @ child_fds c) k2"
    by (rule outside_outside)
  also have "\<dots> = outside (child_fds c @ infos_fds in2 @ infos_fds out2) k2"
    by (rule outside_set) auto
  also have "\<dots> = outside (infos_fds infoin @ infos_fds infoout) k0"
    using moves_trans [OF s1(2) s2(3)] by (simp add: moves_def)
  also have "\<dots> = T"
    unfolding T [symmetric] by (rule outside_cong) (simp add: k0_def)
  finally show ?thesis
    using s1(1) s2(1,2) Some f by (simp add: start_posix_child_def)
qed

text \<open>With both maps of streams built, the child is started and what the parent keeps is that of its streams.\<close>

lemma launch_with_infos:
  assumes "os_fork A (k_forks k) \<noteq> Some 0"
    and i: "no_fork k k1" "outside (infos_fds infoin) k1 = k_table k" "pipes_have True True infoin"
    and o: "no_fork k1 k2" "outside (infos_fds infoout) k2 = k_table k1" "pipes_have True True infoout"
  shows "case start_posix_child A exe args env infoin infoout s k2 of
      (Inl e, k') \<Rightarrow> e \<noteq> Failed_assertion \<and> k_table k' = k_table k
    | (Inr c, k') \<Rightarrow> os_fork A (k_forks k) = Some (ch_id c) \<and> outside (child_fds c) k' = k_table k"
proof (rule start_posix_child_result [OF i(3) o(3)])
  show "outside (infos_fds infoin @ infos_fds infoout) k2 = k_table k"
    using i(2) o(2) outside_outside [of k1 "infos_fds infoout" k2 "infos_fds infoin"] outside_swap [of "infos_fds infoin"]
    by simp
  show "os_fork A (k_forks k2) = os_fork A (k_forks k)" "os_fork A (k_forks k2) \<noteq> Some 0"
    using assms(1) i(1) o(1) by (simp_all add: no_fork_def)
qed

text \<open>
  C10: \<open>posix_launch\<close> loses no descriptor and fails no assertion: for every context, when it throws, at whatever
  point a pipe or the process could not be made, the caller's table is what it was; when it returns, it is
  what it was but for the ends of pipes that the child object owns.
\<close>

theorem launch_keeps_descriptors:
  assumes "os_fork A (k_forks k) \<noteq> Some 0"
  shows "case posix_launch A exe args ctx k of
      (Inl e, k') \<Rightarrow> e \<noteq> Failed_assertion \<and> k_table k' = k_table k
    | (Inr c, k') \<Rightarrow> os_fork A (k_forks k) = Some (ch_id c) \<and> outside (child_fds c) k' = k_table k"
proof -
  have b1: "case build_infos False (ctx_input_behavior ctx) [] k of
      (Inl e, k') \<Rightarrow> k_table k' = k_table k \<and> e \<noteq> Failed_assertion
    | (Inr m', k') \<Rightarrow> no_fork k k' \<and> outside (infos_fds m') k' = k_table k \<and> pipes_have True True m'"
    by (rule build_infos_result) simp_all
  show ?thesis
  proof (cases "build_infos False (ctx_input_behavior ctx) [] k")
    case in_built: (Pair r1 k1)
    show ?thesis
    proof (cases r1)
      case (Inl e)
      then show ?thesis
        using b1 in_built by (simp add: posix_launch_def)
    next
      case infoin: (Inr infoin)
      have i: "no_fork k k1" "outside (infos_fds infoin) k1 = k_table k" "pipes_have True True infoin"
        using b1 in_built infoin by simp_all
      have b2: "case build_infos True (ctx_output_behavior ctx) [] k1 of
          (Inl e, k') \<Rightarrow> k_table k' = k_table k1 \<and> e \<noteq> Failed_assertion
        | (Inr m', k') \<Rightarrow> no_fork k1 k' \<and> outside (infos_fds m') k' = k_table k1 \<and> pipes_have True True m'"
        by (rule build_infos_result) simp_all
      show ?thesis
      proof (cases "build_infos True (ctx_output_behavior ctx) [] k1")
        case out_built: (Pair r2 k2)
        show ?thesis
        proof (cases r2)
          case (Inl e)
          then show ?thesis
            using b2 in_built infoin out_built i(2) destroy_infos_table [of infoin k2] outside_cong [of k2 k1]
            by (simp add: posix_launch_def)
        next
          case infoout: (Inr infoout)
          have o: "no_fork k1 k2" "outside (infos_fds infoout) k2 = k_table k1" "pipes_have True True infoout"
            using b2 out_built infoout by simp_all
          note launch_with_infos [OF assms i o]
          then show ?thesis
            using in_built infoin out_built infoout by (simp add: posix_launch_def Let_def)
        qed
      qed
    qed
  qed
qed

section \<open>The worker of the service\<close>

text \<open>The maps with which \<open>process::run\<close> starts a worker, when the pipe it makes has the ends \<open>r\<close> and \<open>w\<close>.\<close>

definition worker_infos :: "nat \<Rightarrow> nat \<Rightarrow> info_map" where
  "worker_infos r w =
     [(1, plain_info Type_inherit), (2, plain_info Type_inherit),
      (3, (plain_info Use_pipe)\<lparr>si_pipe := Some \<lparr>p_rend = Some r, p_wend = Some w\<rparr>\<rparr>)]"

definition with_pipe :: "nat \<Rightarrow> nat \<Rightarrow> kernel \<Rightarrow> kernel" where
  "with_pipe r w k =
     k\<lparr>k_table := (k_table k)(r \<mapsto> Read_end (k_pipes k), w \<mapsto> Write_end (k_pipes k)), k_pipes := k_pipes k + 1\<rparr>"

lemma free_descriptorsD:
  assumes "free_descriptors k = r # w # ds"
  shows "k_table k r = None" "k_table k w = None" "r < w" "w < k_limit k"
proof -
  have m: "{r, w} \<subseteq> set (free_descriptors k)"
    by (simp add: assms)
  show "k_table k r = None" "k_table k w = None" "w < k_limit k"
    using m by (simp_all add: free_descriptors_def)
  have "sorted_wrt (<) (free_descriptors k)"
    by (simp add: free_descriptors_def sorted_wrt_filter)
  then show "r < w"
    by (simp add: assms)
qed

lemma start_worker:
  assumes "os_fork A (k_forks k) = Some pid" and "0 < pid"
  shows "start_posix_child A exe args env [] (worker_infos r w) s k =
    (Inr \<lparr>ch_id = pid, ch_stdin = None, ch_stdout = None, ch_stderr = None, pc_input = [], pc_output = [(3, r)]\<rparr>,
     k\<lparr>k_table := (k_table k)(w := None), k_forks := k_forks k + 1,
       k_started := k_started k @ [(pid, run_child A exe args env [] (worker_infos r w) s k)]\<rparr>)"
  using assms
  by (simp add: start_posix_child_def posix_start_def worker_infos_def plain_info_def and_then_def ret_def fh_close_def sys_close_def
      new_posix_child_def posix_info_locate_pipe_def fh_release_def destroy_infos_def destroy_info_def destroy_pipe_def fh_destroy_def)

lemma build_worker_infos:
  assumes "free_descriptors k = r # w # ds"
  shows "build_infos True (ctx_output_behavior (worker_context cwd c env)) [] k = (Inr (worker_infos r w), with_pipe r w k)"
  using assms
  by (simp add: worker_context_def new_stream_info_def ret_def and_then_def new_pipe_def sys_pipe_def worker_infos_def with_pipe_def)

lemma worker_streams_ok:
  assumes "kernel_ok A k" and "free_descriptors k = r # w # ds" and "k_table k 1 \<noteq> None" and "k_table k 2 \<noteq> None"
  shows "streams_ok A (with_pipe r w k) [] (worker_infos r w)" and "kernel_ok A (with_pipe r w k)"
    and "intended_table (k_table (with_pipe r w k)) [] (worker_infos r w)
      = (\<lambda>d. if d = 3 then Some (Write_end (k_pipes k)) else if d = 1 \<or> d = 2 then k_table k d else None)"
proof -
  note d = free_descriptorsD [OF assms(2)]
  have "r \<noteq> 1" "r \<noteq> 2" "w \<noteq> 1" "w \<noteq> 2"
    using d(1,2) assms(3,4) by auto
  then have "3 < k_limit k" "1 < k_limit k" "2 < k_limit k"
    using d(3,4) by linarith+
  then show "streams_ok A (with_pipe r w k) [] (worker_infos r w)"
    using d \<open>r \<noteq> 1\<close> \<open>r \<noteq> 2\<close> \<open>w \<noteq> 1\<close> \<open>w \<noteq> 2\<close>
    by (simp add: streams_ok_def worker_infos_def with_pipe_def info_ready_def plain_info_def redirect_ok_def claim_def
        info_fds_def handle_fds_def)
  show "kernel_ok A (with_pipe r w k)"
    using assms(1) d(3,4) by (simp add: kernel_ok_def with_pipe_def)
  show "intended_table (k_table (with_pipe r w k)) [] (worker_infos r w)
      = (\<lambda>d. if d = 3 then Some (Write_end (k_pipes k)) else if d = 1 \<or> d = 2 then k_table k d else None)"
    using d \<open>r \<noteq> 1\<close> \<open>r \<noteq> 2\<close> \<open>w \<noteq> 1\<close> \<open>w \<noteq> 2\<close>
    by (auto simp: intended_table_def worker_infos_def with_pipe_def plain_info_def entry_file_def fun_eq_iff)
qed

lemma run_setup_same_ids:
  assumes "ps_chroot s = []" and "ps_work_directory s \<noteq> []" and "os_chdir A (ps_work_directory s)"
    and "ps_uid s = c_ruid (k_creds k)" "ps_euid s = c_euid (k_creds k)" "ps_gid s = c_rgid (k_creds k)" "ps_egid s = c_egid (k_creds k)"
  shows "run_setup A s k = (Inr (), k)"
  using assms by (simp add: run_setup_def and_then_def ret_def set_credential_def)

text \<open>A child whose streams can be set up, and whose ids are its parent's, executes its program.\<close>

lemma run_child_executes:
  assumes "kernel_ok A k" and "streams_ok A k infoin infoout" and "args \<noteq> []" and "os_executes A (c_string exe)"
    and "ps_chroot s = []" and "ps_work_directory s \<noteq> []" and "os_chdir A (ps_work_directory s)"
    and "ps_uid s = c_ruid (k_creds k)" "ps_euid s = c_euid (k_creds k)" "ps_gid s = c_rgid (k_creds k)" "ps_egid s = c_egid (k_creds k)"
  shows "run_child A exe args env infoin infoout s k = Executes
    \<lparr>im_exe = c_string exe, im_argv = map c_string args, im_envp = environment_to_envp env,
     im_table = intended_table (k_table k) infoin infoout, im_creds = k_creds k\<rparr>"
proof -
  obtain k1 where k1: "setup_streams A infoin infoout k = (Inr (), k1)" "same_process k k1"
    "k_table k1 = intended_table (k_table k) infoin infoout"
    using child_descriptors_set_up [OF assms(1,2)] by blast
  have creds: "k_creds k1 = k_creds k"
    using same_processD [OF k1(2)] by simp
  have "run_setup A s k1 = (Inr (), k1)"
    using assms by (intro run_setup_same_ids) (simp_all add: creds)
  then show ?thesis
    using k1(1) assms(3,4) by (simp add: run_child_def and_then_def k1(3) creds collection_to_posix_argv_def)
qed

text \<open>
  C11: a worker is connected to the service: when the process has its standard output and error, two free
  descriptors, and the kernel grants what it is asked for, the child that \<open>process::run\<close> starts executes the
  program with the arguments, the environment and the ids it was given, and with exactly three descriptors:
  the service's output and error streams, and on 3 the write end of a new pipe. The service has the read end
  of that pipe, as the stream \<open>get_output(3)\<close>, and no other descriptor it did not have before.
\<close>

theorem worker_is_connected:
  assumes "kernel_ok A k" and "k_table k 1 \<noteq> None" and "k_table k 2 \<noteq> None" and "free_descriptors k = r # w # ds"
    and "os_fork A (k_forks k) = Some pid" and "0 < pid"
    and "cwd \<noteq> []" and "os_chdir A cwd" and "args \<noteq> []" and "os_executes A (c_string exe)"
  shows "\<exists>c k'. posix_launch A exe args (worker_context cwd (k_creds k) env) k = (Inr c, k')
    \<and> ch_id c = pid \<and> get_output c 3 = Some r \<and> k_table k' = (k_table k)(r \<mapsto> Read_end (k_pipes k))
    \<and> k_started k' = k_started k @ [(pid, Executes
         \<lparr>im_exe = c_string exe, im_argv = map c_string args, im_envp = environment_to_envp env,
          im_table = (\<lambda>d. if d = 3 then Some (Write_end (k_pipes k)) else if d = 1 \<or> d = 2 then k_table k d else None),
          im_creds = k_creds k\<rparr>)]"
proof -
  let ?ctx = "worker_context cwd (k_creds k) env" and ?k = "with_pipe r w k"
  let ?s = "(new_posix_setup (k_creds ?k))\<lparr>ps_work_directory := ctx_work_directory ?ctx, ps_uid := ctx_uid ?ctx,
                         ps_euid := ctx_euid ?ctx, ps_gid := ctx_gid ?ctx, ps_egid := ctx_egid ?ctx, ps_chroot := ctx_chroot ?ctx\<rparr>"
  note d = free_descriptorsD [OF assms(4)]
  have "run_child A exe args env [] (worker_infos r w) ?s ?k = Executes
      \<lparr>im_exe = c_string exe, im_argv = map c_string args, im_envp = environment_to_envp env,
       im_table = (\<lambda>d. if d = 3 then Some (Write_end (k_pipes k)) else if d = 1 \<or> d = 2 then k_table k d else None), im_creds = k_creds ?k\<rparr>"
    unfolding worker_streams_ok(3) [OF assms(1,4,2,3), symmetric]
    using assms(7,8) by (intro run_child_executes worker_streams_ok(2,1) [OF assms(1,4,2,3)] assms(9,10))
      (simp_all add: with_pipe_def worker_context_def new_posix_context_def new_posix_setup_def)
  moreover have "k_creds ?k = k_creds k"
    by (simp add: with_pipe_def)
  moreover have "build_infos False (ctx_input_behavior ?ctx) [] k = (Inr [], k)"
    by (simp add: worker_context_def new_posix_context_def ret_def)
  moreover have "os_fork A (k_forks ?k) = Some pid" "ctx_environment ?ctx = env"
    using assms(5) by (simp_all add: with_pipe_def worker_context_def)
  moreover have "(k_table ?k)(w := None) = (k_table k)(r \<mapsto> Read_end (k_pipes k))"
    using d by (auto simp: with_pipe_def fun_eq_iff)
  moreover have "k_started ?k = k_started k"
    by (simp add: with_pipe_def)
  ultimately show ?thesis
    using build_worker_infos [OF assms(4), of cwd "k_creds k" env] start_worker [of A ?k pid] assms(6)
    by (simp add: posix_launch_def Let_def get_output_def)
qed

section \<open>Instances\<close>

lemma free_in_plain_kernel: "free_descriptors plain_kernel = 3 # 4 # [5..<16]"
proof -
  have "[0..<16] = 0 # 1 # 2 # 3 # 4 # [5..<16]"
    by (simp add: upt_conv_Cons)
  then show ?thesis
    by (simp add: free_descriptors_def plain_kernel_def)
qed

lemma launch_keeps_descriptors_witness:
  "\<exists>c k'. posix_launch plain_os (asc ''/bin/cat'') [asc ''cat'']
      ((new_posix_context (asc ''/'') root_user)\<lparr>ctx_input_behavior := [(0, Capture)], ctx_output_behavior := [(1, Capture), (2, Redirect_to_stdout)]\<rparr>)
      plain_kernel = (Inr c, k') \<and> set (child_fds c) = {5, 4} \<and> outside (child_fds c) k' = k_table plain_kernel"
proof -
  let ?ctx = "(new_posix_context (asc ''/'') root_user)\<lparr>ctx_input_behavior := [(0, Capture)], ctx_output_behavior := [(1, Capture), (2, Redirect_to_stdout)]\<rparr>"
  have "os_fork plain_os (k_forks plain_kernel) \<noteq> Some 0"
    by (simp add: plain_os_def)
  note kept = launch_keeps_descriptors [OF this, of "asc ''/bin/cat''" "[asc ''cat'']" ?ctx]
  have upt: "[0..<16] = [0, 1, 2, 3, 4, 5, 6] @ [7..<16]"
    by (simp add: upt_conv_Cons)
  have "\<exists>c k'. posix_launch plain_os (asc ''/bin/cat'') [asc ''cat''] ?ctx plain_kernel = (Inr c, k') \<and> set (child_fds c) = {5, 4}"
    by (simp add: posix_launch_def new_posix_context_def new_stream_info_def ret_def and_then_def new_pipe_def sys_pipe_def
        free_descriptors_def plain_kernel_def upt plain_info_def Let_def start_posix_child_def posix_start_def plain_os_def
        fh_close_def sys_close_def new_posix_child_def posix_info_locate_pipe_def fh_release_def child_fds_def handle_fds_def)
  with kept show ?thesis
    by fastforce
qed

lemma worker_is_connected_witness:
  "\<exists>c k'. posix_launch plain_os (asc ''python'') [asc ''python'', asc ''-c''] (worker_context (asc ''/'') root_user []) plain_kernel = (Inr c, k')
    \<and> get_output c 3 = Some 3 \<and> k_table k' = (k_table plain_kernel)(3 \<mapsto> Read_end 0)"
proof -
  have k: "k_table plain_kernel 1 \<noteq> None" "k_table plain_kernel 2 \<noteq> None" "k_creds plain_kernel = root_user" "k_pipes plain_kernel = 0"
    and os: "os_fork plain_os (k_forks plain_kernel) = Some 100" "os_chdir plain_os (asc ''/'')" "os_executes plain_os (c_string (asc ''python''))"
    by (simp_all add: plain_kernel_def plain_os_def)
  have "asc ''/'' \<noteq> []"
    by (simp add: asc_def)
  from worker_is_connected [OF plain_kernel_ok k(1,2) free_in_plain_kernel os(1) _ this os(2) _ os(3), of "[asc ''python'', asc ''-c'']" "[]"]
  show ?thesis
    by (auto simp: k(3,4))
qed

end
