(* ===== verification/Pipeline.thy ===== *)
theory Pipeline
  imports LaunchProperties
begin

text \<open>
  The generic operations of \<open>operations.hpp\<close>: \<open>launch\<close>, \<open>launch_shell\<close>, \<open>launch_pipeline\<close>, \<open>wait_children\<close>,
  with the statuses of \<open>status.hpp\<close> and \<open>posix_status.hpp\<close>; and what holds of them. The three blocks of
  \<open>launch_pipeline\<close> (first, middle and last process) differ in where the two ends of an entry come from, so they
  are one definition with the index and a flag for the last entry.
\<close>

section \<open>\<open>launch\<close>\<close>

record launch_context =
  cx_work_directory :: bytes
  cx_environment :: environment
  cx_stdin :: stream_behavior
  cx_stdout :: stream_behavior
  cx_stderr :: stream_behavior

text \<open>\<open>if (... == stream_behavior::capture)\<close>: the end of the pipe that the child object gets.\<close>

definition captured :: "bool \<Rightarrow> info_map \<Rightarrow> nat \<Rightarrow> bool \<Rightarrow> (file_handle \<times> info_map) step" where
  "captured c info desc out =
     (if c then
        and_then (posix_info_locate_pipe info desc out) (\<lambda>(fh, info). if fh = None then throw Failed_assertion else ret (fh, info))
      else ret (None, info))"

definition new_child :: "nat \<Rightarrow> file_handle \<Rightarrow> file_handle \<Rightarrow> file_handle \<Rightarrow> child" where
  "new_child pid fhstdin fhstdout fhstderr = \<lparr>ch_id = pid, ch_stdin = fhstdin, ch_stdout = fhstdout, ch_stderr = fhstderr\<rparr>"

definition start_child ::
  "os \<Rightarrow> bytes \<Rightarrow> bytes list \<Rightarrow> launch_context \<Rightarrow> bool \<Rightarrow> bool \<Rightarrow> bool \<Rightarrow> info_map \<Rightarrow> info_map \<Rightarrow> child step" where
  "start_child A exe args ctx cin cout cerr infoin infoout k =
     (let s = (new_posix_setup (k_creds k))\<lparr>ps_work_directory := cx_work_directory ctx\<rparr>
      in case posix_start A exe args (cx_environment ctx) infoin infoout s k of
           (Inl e, k) \<Rightarrow> (Inl e, destroy_infos infoin (destroy_infos infoout k))
         | (Inr (pid, infoin, infoout), k) \<Rightarrow>
             (case and_then (captured cin infoin 0 False) (\<lambda>(fhstdin, infoin).
                   and_then (captured cout infoout 1 True) (\<lambda>(fhstdout, infoout).
                   and_then (captured cerr infoout 2 True) (\<lambda>(fhstderr, infoout).
                   ret (new_child pid fhstdin fhstdout fhstderr, infoin, infoout)))) k of
                (Inl e, k) \<Rightarrow> (Inl e, k)
              | (Inr (c, infoin, infoout), k) \<Rightarrow> (Inr c, destroy_infos infoin (destroy_infos infoout k))))"

definition launch :: "os \<Rightarrow> bytes \<Rightarrow> bytes list \<Rightarrow> launch_context \<Rightarrow> child step" where
  "launch A exe args ctx k =
     (if args = [] \<or> cx_work_directory ctx = [] then (Inl Failed_assertion, k)
      else case build_infos False [(0, cx_stdin ctx)] [] k of
        (Inl e, k) \<Rightarrow> (Inl e, k)
      | (Inr infoin, k) \<Rightarrow>
          (case build_infos True [(1, cx_stdout ctx), (2, cx_stderr ctx)] [] k of
             (Inl e, k) \<Rightarrow> (Inl e, destroy_infos infoin k)
           | (Inr infoout, k) \<Rightarrow>
               start_child A exe args ctx (cx_stdin ctx = Capture) (cx_stdout ctx = Capture) (cx_stderr ctx = Capture) infoin infoout k))"

definition launch_shell :: "os \<Rightarrow> bytes \<Rightarrow> launch_context \<Rightarrow> child step" where
  "launch_shell A command ctx = launch A (asc ''/bin/sh'') [asc ''sh'', asc ''-c'', command] ctx"

section \<open>\<open>launch_pipeline\<close>\<close>

record pipeline_entry =
  pe_executable :: bytes
  pe_arguments :: "bytes list"
  pe_context :: launch_context

text \<open>\<open>new detail::pipe[n]\<close>: when one cannot be made, the ones before are destroyed.\<close>

fun make_pipes :: "nat \<Rightarrow> pipe list step" where
  "make_pipes 0 k = (Inr [], k)"
| "make_pipes (Suc n) k =
     (case new_pipe k of
        (Inl e, k) \<Rightarrow> (Inl e, k)
      | (Inr p, k) \<Rightarrow>
          (case make_pipes n k of
             (Inl e, k) \<Rightarrow> (Inl e, destroy_pipe p k)
           | (Inr ps, k) \<Rightarrow> (Inr (p # ps), k)))"

definition handle_info :: "nat \<Rightarrow> stream_info" where
  "handle_info h = (plain_info Use_handle)\<lparr>si_handle := Some h\<rparr>"

text \<open>
  The maps of the entry \<open>i\<close>, and the pipes without the ends that were released into them. The left end is the
  context's for the first entry, the right end for the last.
\<close>

definition pipeline_input :: "nat \<Rightarrow> launch_context \<Rightarrow> pipe list \<Rightarrow> (info_map \<times> pipe list) step" where
  "pipeline_input i ctx pipes =
     (if i = 0 then and_then (build_infos False [(0, cx_stdin ctx)] []) (\<lambda>infoin. ret (infoin, pipes))
      else if cx_stdin ctx \<noteq> Close then throw Failed_assertion
      else and_then (fh_release (p_rend (pipes ! (i - 1)))) (\<lambda>(r, h).
        ret ([(0, handle_info r)], pipes[i - 1 := (pipes ! (i - 1))\<lparr>p_rend := h\<rparr>])))"

definition pipeline_output :: "bool \<Rightarrow> nat \<Rightarrow> launch_context \<Rightarrow> pipe list \<Rightarrow> kernel \<Rightarrow> (failure + info_map) \<times> pipe list \<times> kernel" where
  "pipeline_output is_last i ctx pipes k =
     (if is_last then (let (r, k) = build_infos True [(1, cx_stdout ctx), (2, cx_stderr ctx)] [] k in (r, pipes, k))
      else if cx_stdout ctx \<noteq> Close then (Inl Failed_assertion, pipes, k)
      else case fh_release (p_wend (pipes ! i)) k of
        (Inl e, k) \<Rightarrow> (Inl e, pipes, k)
      | (Inr (w, h), k) \<Rightarrow>
          (let (r, k) = build_infos True [(2, cx_stderr ctx)] [(1, handle_info w)] k
           in (r, pipes[i := (pipes ! i)\<lparr>p_wend := h\<rparr>], k)))"

definition pipeline_start ::
  "os \<Rightarrow> bool \<Rightarrow> nat \<Rightarrow> pipeline_entry \<Rightarrow> pipe list \<Rightarrow> kernel \<Rightarrow> (failure + child) \<times> pipe list \<times> kernel" where
  "pipeline_start A is_last i e pipes k =
     (let ctx = pe_context e
      in case pipeline_input i ctx pipes k of
           (Inl f, k) \<Rightarrow> (Inl f, pipes, k)
         | (Inr (infoin, pipes), k) \<Rightarrow>
             (case pipeline_output is_last i ctx pipes k of
                (Inl f, pipes, k) \<Rightarrow> (Inl f, pipes, destroy_infos infoin k)
              | (Inr infoout, pipes, k) \<Rightarrow>
                  (let (r, k) = start_child A (pe_executable e) (pe_arguments e) ctx (i = 0 \<and> cx_stdin ctx = Capture)
                                  (is_last \<and> cx_stdout ctx = Capture) (is_last \<and> cx_stderr ctx = Capture) infoin infoout k
                   in (r, pipes, k))))"

definition destroy_child :: "child \<Rightarrow> kernel \<Rightarrow> kernel" where
  "destroy_child c k = fh_destroy (ch_stdin c) (fh_destroy (ch_stdout c) (fh_destroy (ch_stderr c) k))"

definition destroy_all :: "('a \<Rightarrow> kernel \<Rightarrow> kernel) \<Rightarrow> 'a list \<Rightarrow> kernel \<Rightarrow> kernel" where
  "destroy_all destroy xs k = foldl (\<lambda>k x. destroy x k) k xs"

text \<open>The entries from the index \<open>i\<close>; an exception destroys the children's streams and the pipes.\<close>

fun pipeline_rest ::
  "os \<Rightarrow> nat \<Rightarrow> pipeline_entry list \<Rightarrow> pipe list \<Rightarrow> child list \<Rightarrow> child list step" where
  "pipeline_rest A i [] pipes cs k = (Inr cs, destroy_all destroy_pipe pipes k)"
| "pipeline_rest A i (e # es) pipes cs k =
     (case pipeline_start A (es = []) i e pipes k of
        (Inl f, pipes, k) \<Rightarrow> (Inl f, destroy_all destroy_pipe pipes (destroy_all destroy_child cs k))
      | (Inr c, pipes, k) \<Rightarrow> pipeline_rest A (i + 1) es pipes (cs @ [c]) k)"

definition launch_pipeline :: "os \<Rightarrow> pipeline_entry list \<Rightarrow> child list step" where
  "launch_pipeline A entries k =
     (if length entries < 2 then (Inl Failed_assertion, k)
      else case make_pipes (length entries - 1) k of
        (Inl e, k) \<Rightarrow> (Inl e, k)
      | (Inr pipes, k) \<Rightarrow> pipeline_rest A 0 entries pipes [] k)"

section \<open>Statuses, and waiting\<close>

text \<open>The bits of a wait status, as the macros of \<open>sys/wait.h\<close> read them.\<close>

type_synonym status = "32 word"

definition status_exited :: "status \<Rightarrow> bool" where
  "status_exited flags = (and flags 0x7F = 0)"

text \<open>\<open>None\<close> is the failed assertion.\<close>

definition status_exit_status :: "status \<Rightarrow> nat option" where
  "status_exit_status flags = (if status_exited flags then Some (unat (and (drop_bit 8 flags) 0xFF)) else None)"

definition status_signaled :: "status \<Rightarrow> bool" where
  "status_signaled flags = (and flags 0x7F \<noteq> 0 \<and> and flags 0x7F \<noteq> 0x7F)"

definition status_term_signal :: "status \<Rightarrow> nat option" where
  "status_term_signal flags = (if status_signaled flags then Some (unat (and flags 0x7F)) else None)"

definition status_dumped_core :: "status \<Rightarrow> bool option" where
  "status_dumped_core flags = (if status_signaled flags then Some (and flags 0x80 \<noteq> 0) else None)"

definition status_stopped :: "status \<Rightarrow> bool" where
  "status_stopped flags = (and flags 0xFF = 0x7F)"

definition status_stop_signal :: "status \<Rightarrow> nat option" where
  "status_stop_signal flags = (if status_stopped flags then Some (unat (and (drop_bit 8 flags) 0xFF)) else None)"

text \<open>
  The loops of \<open>wait_children\<close>: \<open>wait\<close> is \<open>child::wait\<close> on a state, with \<open>None\<close> for the exception. The first
  failure is returned once the children behind it were waited for.
\<close>

fun wait_rest :: "('c \<Rightarrow> 's \<Rightarrow> (status \<times> 's) option) \<Rightarrow> 'c list \<Rightarrow> 's \<Rightarrow> 's option" where
  "wait_rest wait [] s = Some s"
| "wait_rest wait (c # cs) s = (case wait c s of None \<Rightarrow> None | Some (_, s) \<Rightarrow> wait_rest wait cs s)"

fun wait_loop :: "('c \<Rightarrow> 's \<Rightarrow> (status \<times> 's) option) \<Rightarrow> 'c list \<Rightarrow> 's \<Rightarrow> (status \<times> 's) option" where
  "wait_loop wait [] s = None"
| "wait_loop wait (c # cs) s =
     (case wait c s of
        None \<Rightarrow> None
      | Some (st, s) \<Rightarrow>
          (if cs = [] then Some (st, s)
           else if \<not> status_exited st \<or> status_exit_status st \<noteq> Some 0 then
             (case wait_rest wait cs s of None \<Rightarrow> None | Some s \<Rightarrow> Some (st, s))
           else wait_loop wait cs s))"

text \<open>The outer \<open>None\<close> is the assertion on the number of children.\<close>

definition wait_children :: "('c \<Rightarrow> 's \<Rightarrow> (status \<times> 's) option) \<Rightarrow> 'c list \<Rightarrow> 's \<Rightarrow> (status \<times> 's) option option" where
  "wait_children wait cs s = (if length cs < 2 then None else Some (wait_loop wait cs s))"

end
