(* ===== verification/PipelineProperties.thy ===== *)
theory PipelineProperties
  imports Pipeline
begin

text \<open>
  What \<open>launch_pipeline\<close> connects: the output of each process is the input of the next, nothing else of the pipes
  stays open in a child or in the caller. And what \<open>wait_children\<close> answers.
\<close>

section \<open>One process of the pipeline\<close>

text \<open>The map of one end: the handle of a pipe when there is one, else what the context says, \<open>Inherit\<close> or \<open>Close\<close>.\<close>

definition end_infos :: "nat \<Rightarrow> nat option \<Rightarrow> stream_behavior \<Rightarrow> info_map" where
  "end_infos d handle sb =
     (case handle of
        Some h \<Rightarrow> [(d, handle_info h)]
      | None \<Rightarrow> if sb = Inherit then [(d, plain_info Type_inherit)] else [])"

definition end_file :: "descriptors \<Rightarrow> nat \<Rightarrow> nat option \<Rightarrow> stream_behavior \<Rightarrow> open_file option" where
  "end_file T d handle sb = (case handle of Some h \<Rightarrow> T h | None \<Rightarrow> if sb = Inherit then T d else None)"

lemma build_infos_plain:
  assumes "sb \<in> {Close, Inherit}" and "map_find m d = None" and "\<forall>e \<in> set m. fst e < d"
  shows "build_infos out ((d, sb) # b) m k = build_infos out b (m @ end_infos d None sb) k"
  using assms by (auto simp: new_stream_info_def ret_def end_infos_def map_assign_last)

lemma close_child_ends_plain: "\<forall>e \<in> set m. si_type (snd e) \<noteq> Use_pipe \<Longrightarrow> close_child_ends out m k = (Inr m, k)"
  by (induction m) (auto simp: ret_def and_then_def)

lemma end_infos_plain: "e \<in> set (end_infos x h sb) \<Longrightarrow> si_type (snd e) \<noteq> Use_pipe"
  by (auto simp: end_infos_def handle_info_def plain_info_def split: option.splits if_splits)

lemma end_infos_fds [simp]: "infos_fds (end_infos d h sb) = handle_fds h"
  by (auto simp: end_infos_def handle_info_def plain_info_def info_fds_def handle_fds_def split: option.splits)

lemma infos_fds_append [simp]: "infos_fds (m @ m') = infos_fds m @ infos_fds m'"
  by (simp add: infos_fds_def)

lemma pipeline_streams_ok:
  assumes "kernel_ok A k" and "\<forall>d \<le> 2. k_table k d \<noteq> None"
    and "\<forall>r. h0 = Some r \<longrightarrow> 2 < r \<and> k_table k r \<noteq> None" and "\<forall>r. h1 = Some r \<longrightarrow> 2 < r \<and> k_table k r \<noteq> None"
    and "\<forall>r. h0 = Some r \<longrightarrow> h1 \<noteq> Some r"
  shows "streams_ok A k (end_infos 0 h0 s0) (end_infos 1 h1 s1 @ end_infos 2 None s2)" (is ?ok)
    and "intended_table (k_table k) (end_infos 0 h0 s0) (end_infos 1 h1 s1 @ end_infos 2 None s2)
      = (\<lambda>d. if d = 0 then end_file (k_table k) 0 h0 s0 else if d = 1 then end_file (k_table k) 1 h1 s1
             else if d = 2 then end_file (k_table k) 2 None s2 else None)" (is ?table)
proof -
  have limits: "0 < k_limit k" "1 < k_limit k" "2 < k_limit k"
    using assms(1,2) by (auto simp: kernel_ok_def)
  have T: "k_table k 0 \<noteq> None" "k_table k 1 \<noteq> None" "k_table k 2 \<noteq> None"
    using assms(2) by auto
  show ?ok
    using assms(3-5) limits T
    by (cases h0; cases h1)
       (auto simp: streams_ok_def end_infos_def claim_def info_fds_def handle_fds_def info_ready_def handle_info_def plain_info_def redirect_ok_def list_all_iff list_ex_iff
          split: if_splits)
  show ?table
    by (cases h0; cases h1)
       (auto simp: intended_table_def end_infos_def end_file_def entry_file_def handle_info_def plain_info_def fun_eq_iff)
qed


definition entry_image :: "pipeline_entry \<Rightarrow> descriptors \<Rightarrow> credentials \<Rightarrow> image" where
  "entry_image e t c =
     \<lparr>im_exe = c_string (pe_executable e), im_argv = map c_string (pe_arguments e),
      im_envp = environment_to_envp (cx_environment (pe_context e)), im_table = t, im_creds = c\<rparr>"

text \<open>What the entries and the kernel must have for a process to start.\<close>

definition can_start :: "os \<Rightarrow> pipeline_entry \<Rightarrow> bool" where
  "can_start A e \<longleftrightarrow> pe_arguments e \<noteq> [] \<and> os_executes A (c_string (pe_executable e))
     \<and> cx_work_directory (pe_context e) \<noteq> [] \<and> os_chdir A (cx_work_directory (pe_context e))"

lemma start_child_ends:
  assumes "kernel_ok A k" and "\<forall>d \<le> 2. k_table k d \<noteq> None"
    and "\<forall>r. h0 = Some r \<longrightarrow> 2 < r \<and> k_table k r \<noteq> None" and "\<forall>r. h1 = Some r \<longrightarrow> 2 < r \<and> k_table k r \<noteq> None"
    and "\<forall>r. h0 = Some r \<longrightarrow> h1 \<noteq> Some r" and "os_fork A (k_forks k) = Some pid" and "0 < pid" and "can_start A e"
  shows "\<exists>k'. start_child A (pe_executable e) (pe_arguments e) (pe_context e) False False False
      (end_infos 0 h0 s0) (end_infos 1 h1 s1 @ end_infos 2 None s2) k = (Inr (new_child pid None None None), k')
    \<and> k_table k' = outside (handle_fds h0 @ handle_fds h1) k \<and> k_forks k' = k_forks k + 1 \<and> k_limit k' = k_limit k
    \<and> k_creds k' = k_creds k
    \<and> k_started k' = k_started k @ [(pid, Executes (entry_image e
         (\<lambda>d. if d = 0 then end_file (k_table k) 0 h0 s0 else if d = 1 then end_file (k_table k) 1 h1 s1
              else if d = 2 then end_file (k_table k) 2 None s2 else None) (k_creds k)))]"
proof -
  let ?in = "end_infos 0 h0 s0" and ?out = "end_infos 1 h1 s1 @ end_infos 2 None s2"
  let ?s = "(new_posix_setup (k_creds k))\<lparr>ps_work_directory := cx_work_directory (pe_context e)\<rparr>"
  note ok = pipeline_streams_ok [OF assms(1-5), of s0 s1 s2]
  have child: "run_child A (pe_executable e) (pe_arguments e) (cx_environment (pe_context e)) ?in ?out ?s k
      = Executes (entry_image e (intended_table (k_table k) ?in ?out) (k_creds k))"
    unfolding entry_image_def
    using assms(8) by (intro run_child_executes [OF assms(1) ok(1)]) (simp_all add: can_start_def new_posix_setup_def)
  define k0 where "k0 = k\<lparr>k_forks := k_forks k + 1, k_started := k_started k @ [(pid, Executes (entry_image e
      (intended_table (k_table k) ?in ?out) (k_creds k)))]\<rparr>"
  have "close_child_ends False ?in k' = (Inr ?in, k')" "close_child_ends True ?out k' = (Inr ?out, k')" for k'
    using end_infos_plain by (auto intro!: close_child_ends_plain)
  then have start: "start_child A (pe_executable e) (pe_arguments e) (pe_context e) False False False ?in ?out k
      = (Inr (new_child pid None None None), destroy_infos ?in (destroy_infos ?out k0))"
    using assms(6,7) child
    by (simp add: start_child_def posix_start_def and_then_def ret_def captured_def k0_def Let_def)
  have "k_table (destroy_infos ?in (destroy_infos ?out k0)) = outside (infos_fds ?out @ infos_fds ?in) k0"
    using destroy_infos_table [of ?in "destroy_infos ?out k0"] destroy_infos_table [of ?out k0]
      outside_outside [of "destroy_infos ?out k0" "infos_fds ?out" k0 "infos_fds ?in"] by simp
  also have "\<dots> = outside (handle_fds h0 @ handle_fds h1) k"
    by (simp add: handle_fds_def [of None] outside_swap [of "handle_fds h0"] k0_def) (rule outside_cong, simp)
  finally have "k_table (destroy_infos ?in (destroy_infos ?out k0)) = outside (handle_fds h0 @ handle_fds h1) k" .
  moreover have "same_process k0 (destroy_infos ?in (destroy_infos ?out k0))"
    using destroy_infos_table same_process_trans by blast
  note same_processD [OF this]
  ultimately show ?thesis
    unfolding start ok(2) [symmetric] by (intro exI [of _ "destroy_infos ?in (destroy_infos ?out k0)"]) (simp add: k0_def)
qed

section \<open>The pipes\<close>

lemma free_descriptors_with_pipe:
  assumes "free_descriptors k = r # w # ds"
  shows "free_descriptors (with_pipe r w k) = ds"
proof -
  have "distinct (r # w # ds)"
    unfolding assms [symmetric] by (simp add: free_descriptors_def)
  have "free_descriptors (with_pipe r w k) = filter (\<lambda>d. d \<noteq> r \<and> d \<noteq> w) (free_descriptors k)"
    by (auto simp: free_descriptors_def with_pipe_def intro!: filter_cong)
  also have "\<dots> = ds"
    using \<open>distinct (r # w # ds)\<close> by (auto simp: assms filter_id_conv)
  finally show ?thesis .
qed

text \<open>The pipes when \<open>i\<close> processes were started: the ends that were handed on are released.\<close>

definition pipes_left :: "nat list \<Rightarrow> nat \<Rightarrow> nat \<Rightarrow> pipe list" where
  "pipes_left F m i =
     map (\<lambda>j. \<lparr>p_rend = (if j + 1 < i then None else Some (F ! (2 * j))), p_wend = (if j < i then None else Some (F ! (2 * j + 1)))\<rparr>) [0..<m]"

definition pipes_table :: "descriptors \<Rightarrow> nat list \<Rightarrow> nat \<Rightarrow> nat \<Rightarrow> nat \<Rightarrow> descriptors \<Rightarrow> bool" where
  "pipes_table T F p m i t \<longleftrightarrow>
     (\<forall>j < m. i \<le> j + 1 \<longrightarrow> t (F ! (2 * j)) = Some (Read_end (p + j)))
     \<and> (\<forall>j < m. i \<le> j \<longrightarrow> t (F ! (2 * j + 1)) = Some (Write_end (p + j)))
     \<and> (\<forall>x. (\<forall>j < m. (i \<le> j + 1 \<longrightarrow> x \<noteq> F ! (2 * j)) \<and> (i \<le> j \<longrightarrow> x \<noteq> F ! (2 * j + 1))) \<longrightarrow> t x = T x)"

lemma make_pipes_result:
  assumes "2 * m \<le> length (free_descriptors k)"
  shows "\<exists>k'. make_pipes m k = (Inr (pipes_left (free_descriptors k) m 0), k') \<and> no_fork k k'
    \<and> pipes_table (k_table k) (free_descriptors k) (k_pipes k) m 0 (k_table k')"
  using assms
proof (induction m arbitrary: k)
  case 0
  then show ?case
    by (simp add: pipes_left_def pipes_table_def no_fork_def)
next
  case (Suc m)
  obtain r w ds where F: "free_descriptors k = r # w # ds"
    using Suc.prems by (cases "free_descriptors k" rule: remdups_adj.cases) auto
  let ?k = "with_pipe r w k"
  have p: "new_pipe k = (Inr \<lparr>p_rend = Some r, p_wend = Some w\<rparr>, ?k)"
    by (simp add: new_pipe_def sys_pipe_def F with_pipe_def)
  obtain k' where k': "make_pipes m ?k = (Inr (pipes_left ds m 0), k')" "no_fork ?k k'"
    "pipes_table (k_table ?k) ds (k_pipes k + 1) m 0 (k_table k')"
  proof -
    have "k_pipes ?k = k_pipes k + 1" "2 * m \<le> length ds"
      using Suc.prems by (simp_all add: with_pipe_def F)
    then show ?thesis
      using that Suc.IH [of ?k] unfolding free_descriptors_with_pipe [OF F] by auto
  qed
  have left: "pipes_left (free_descriptors k) (Suc m) 0 = \<lparr>p_rend = Some r, p_wend = Some w\<rparr> # pipes_left ds m 0"
    by (simp add: pipes_left_def F upt_conv_Cons map_Suc_upt [symmetric] del: upt_Suc map_Suc_upt)
  have "make_pipes (Suc m) k = (Inr (pipes_left (free_descriptors k) (Suc m) 0), k')"
    by (simp add: p k'(1) left)
  moreover have "no_fork k k'"
    using k'(2) by (simp add: no_fork_def with_pipe_def)
  moreover have "pipes_table (k_table k) (free_descriptors k) (k_pipes k) (Suc m) 0 (k_table k')"
  proof -
    have d: "distinct (r # w # ds)"
      unfolding F [symmetric] by (simp add: free_descriptors_def)
    have kept: "k_table k' x = k_table ?k x" if "x \<notin> set ds" for x
    proof -
      have "x \<noteq> ds ! (2 * j) \<and> x \<noteq> ds ! (2 * j + 1)" if "j < m" for j
        using \<open>x \<notin> set ds\<close> that Suc.prems nth_mem [of "2 * j" ds] nth_mem [of "2 * j + 1" ds] by (auto simp: F)
      then show ?thesis
        using k'(3) by (simp add: pipes_table_def)
    qed
    have "k_table k' r = Some (Read_end (k_pipes k))" "k_table k' w = Some (Write_end (k_pipes k))"
      using d kept [of r] kept [of w] by (simp_all add: with_pipe_def)
    then have "k_table k' ((r # w # ds) ! (2 * j)) = Some (Read_end (k_pipes k + j))
        \<and> k_table k' ((r # w # ds) ! (2 * j + 1)) = Some (Write_end (k_pipes k + j))" if "j < Suc m" for j
      using k'(3) that by (cases j) (auto simp: pipes_table_def)
    moreover have "k_table k' x = k_table k x"
      if away: "\<forall>j < Suc m. x \<noteq> (r # w # ds) ! (2 * j) \<and> x \<noteq> (r # w # ds) ! (2 * j + 1)" for x
    proof -
      have "x \<noteq> r" "x \<noteq> w"
        using away by auto
      moreover have "x \<noteq> ds ! (2 * j) \<and> x \<noteq> ds ! (2 * j + 1)" if "j < m" for j
        using away [rule_format, of "Suc j"] that by simp
      then have "k_table k' x = k_table ?k x"
        using k'(3) by (simp add: pipes_table_def)
      ultimately show ?thesis
        by (simp add: with_pipe_def)
    qed
    ultimately show ?thesis
      by (simp add: pipes_table_def F)
  qed
  ultimately show ?case
    by blast
qed


section \<open>One step of the pipeline\<close>

definition left_handle :: "nat list \<Rightarrow> nat \<Rightarrow> nat option" where
  "left_handle F i = (if i = 0 then None else Some (F ! (2 * (i - 1))))"

definition right_handle :: "nat list \<Rightarrow> nat \<Rightarrow> nat \<Rightarrow> nat option" where
  "right_handle F m i = (if i < m then Some (F ! (2 * i + 1)) else None)"

text \<open>The streams of an entry: the two ends inside the pipeline are \<open>Close\<close>, the others \<open>Close\<close> or \<open>Inherit\<close>.\<close>

definition streams_plain :: "nat \<Rightarrow> nat \<Rightarrow> launch_context \<Rightarrow> bool" where
  "streams_plain m i ctx \<longleftrightarrow>
     cx_stdin ctx \<in> (if i = 0 then {Close, Inherit} else {Close}) \<and> cx_stdout ctx \<in> (if i = m then {Close, Inherit} else {Close})
     \<and> cx_stderr ctx \<in> {Close, Inherit}"

text \<open>The descriptors of the child \<open>i\<close> of \<open>m + 1\<close>, when the pipes are \<open>p\<close>, \<open>p + 1\<close> and so on.\<close>

definition pipeline_descriptors :: "descriptors \<Rightarrow> nat \<Rightarrow> nat \<Rightarrow> nat \<Rightarrow> launch_context \<Rightarrow> descriptors" where
  "pipeline_descriptors T p m i ctx = (\<lambda>d.
     if d = 0 then (if i = 0 then (if cx_stdin ctx = Inherit then T 0 else None) else Some (Read_end (p + i - 1)))
     else if d = 1 then (if i = m then (if cx_stdout ctx = Inherit then T 1 else None) else Some (Write_end (p + i)))
     else if d = 2 then (if cx_stderr ctx = Inherit then T 2 else None)
     else None)"

lemma pipeline_input_result:
  assumes "streams_plain m i ctx" and "i \<le> m"
  shows "\<exists>pipes. pipeline_input i ctx (pipes_left F m i) k = (Inr (end_infos 0 (left_handle F i) (cx_stdin ctx), pipes), k)
    \<and> length pipes = m \<and> (\<forall>j < m. pipes ! j = \<lparr>p_rend = (if j < i then None else Some (F ! (2 * j))), p_wend = (if j < i then None else Some (F ! (2 * j + 1)))\<rparr>)"
proof (cases "i = 0")
  case True
  have "build_infos False [(0, cx_stdin ctx)] [] k = (Inr (end_infos 0 None (cx_stdin ctx)), k)"
    using assms(1) True by (subst build_infos_plain) (auto simp: streams_plain_def ret_def)
  with True show ?thesis
    by (simp add: pipeline_input_def and_then_def ret_def left_handle_def pipes_left_def)
next
  case False
  then have "i - 1 < m" "cx_stdin ctx = Close"
    using assms by (auto simp: streams_plain_def)
  moreover have "j < i \<Longrightarrow> j \<noteq> i - 1 \<Longrightarrow> Suc j < i" for j
    by linarith
  ultimately show ?thesis
    using False
    by (auto simp: pipeline_input_def and_then_def ret_def left_handle_def pipes_left_def fh_release_def end_infos_def nth_list_update)
qed

lemma pipeline_output_result:
  assumes "streams_plain m i ctx" and "i \<le> m" and "length pipes = m"
    and "\<forall>j < m. pipes ! j = \<lparr>p_rend = (if j < i then None else Some (F ! (2 * j))), p_wend = (if j < i then None else Some (F ! (2 * j + 1)))\<rparr>"
  shows "pipeline_output (i = m) i ctx pipes k
    = (Inr (end_infos 1 (right_handle F m i) (cx_stdout ctx) @ end_infos 2 None (cx_stderr ctx)), pipes_left F m (Suc i), k)"
proof (cases "i = m")
  case True
  have "build_infos True [(1, cx_stdout ctx), (2, cx_stderr ctx)] [] k
      = (Inr (end_infos 1 None (cx_stdout ctx) @ end_infos 2 None (cx_stderr ctx)), k)"
    using assms(1) True
    by (subst build_infos_plain, force simp: streams_plain_def, simp, simp,
        subst build_infos_plain, force simp: streams_plain_def)
       (auto simp: end_infos_def ret_def map_find_map_of)
  moreover have "pipes = pipes_left F m (Suc i)"
    using assms(2-4) True by (intro nth_equalityI) (auto simp: pipes_left_def)
  ultimately show ?thesis
    using True by (simp add: pipeline_output_def right_handle_def)
next
  case False
  then have i: "i < m" "cx_stdout ctx = Close"
    using assms(1,2) by (auto simp: streams_plain_def)
  have "build_infos True [(2, cx_stderr ctx)] [(1, handle_info (F ! (2 * i + 1)))] k
      = (Inr ([(1, handle_info (F ! (2 * i + 1)))] @ end_infos 2 None (cx_stderr ctx)), k)"
    using assms(1) by (subst build_infos_plain) (auto simp: streams_plain_def ret_def)
  moreover have "pipes[i := (pipes ! i)\<lparr>p_wend := None\<rparr>] = pipes_left F m (Suc i)"
    using assms(3,4) i by (intro nth_equalityI) (auto simp: pipes_left_def nth_list_update less_Suc_eq)
  ultimately show ?thesis
    using False i assms(4) by (simp add: pipeline_output_def right_handle_def fh_release_def ret_def end_infos_def)
qed


lemma pipes_table_handles:
  assumes "pipes_table T F p m i t" and "i \<le> m"
  shows "left_handle F i = Some r \<Longrightarrow> t r = Some (Read_end (p + i - 1))"
    and "right_handle F m i = Some w \<Longrightarrow> t w = Some (Write_end (p + i))"
proof -
  have "t (F ! (2 * (i - 1))) = Some (Read_end (p + (i - 1)))" if "i \<noteq> 0"
    using assms that unfolding pipes_table_def by simp
  then show "left_handle F i = Some r \<Longrightarrow> t r = Some (Read_end (p + i - 1))"
    by (auto simp: left_handle_def split: if_splits)
  show "right_handle F m i = Some w \<Longrightarrow> t w = Some (Write_end (p + i))"
    using assms by (auto simp: right_handle_def pipes_table_def split: if_splits)
qed

lemma pipes_table_step:
  assumes "pipes_table T F p m i (k_table k)" and "i \<le> m" and "distinct F" and "2 * m \<le> length F" and "\<forall>x \<in> set F. T x = None"
  shows "pipes_table T F p m (Suc i) (outside (handle_fds (left_handle F i) @ handle_fds (right_handle F m i)) k)"
proof -
  let ?closed = "handle_fds (left_handle F i) @ handle_fds (right_handle F m i)"
  have closed: "x \<in> set ?closed \<longleftrightarrow> (i \<noteq> 0 \<and> x = F ! (2 * (i - 1))) \<or> (i < m \<and> x = F ! (2 * i + 1))" for x
    by (auto simp: handle_fds_def left_handle_def right_handle_def)
  have eq: "F ! a = F ! b \<longleftrightarrow> a = b" if "a < 2 * m" "b < 2 * m" for a b
    using assms(3,4) that by (simp add: nth_eq_iff_index_eq)
  have "F ! (2 * j) \<notin> set ?closed" if "j < m" "Suc i \<le> j + 1" for j
    unfolding closed using that eq [of "2 * j" "2 * (i - 1)"] eq [of "2 * j" "2 * i + 1"] assms(2) by (auto; presburger)
  moreover have "F ! (2 * j + 1) \<notin> set ?closed" if "j < m" "Suc i \<le> j" for j
    unfolding closed using that eq [of "2 * j + 1" "2 * (i - 1)"] eq [of "2 * j + 1" "2 * i + 1"] assms(2) by (auto; presburger)
  moreover have "k_table k x = T x \<or> x \<in> set ?closed"
    if away: "\<forall>j < m. (Suc i \<le> j + 1 \<longrightarrow> x \<noteq> F ! (2 * j)) \<and> (Suc i \<le> j \<longrightarrow> x \<noteq> F ! (2 * j + 1))" for x
  proof (cases "x \<in> set ?closed")
    case False
    then have "\<forall>j < m. (i \<le> j + 1 \<longrightarrow> x \<noteq> F ! (2 * j)) \<and> (i \<le> j \<longrightarrow> x \<noteq> F ! (2 * j + 1))"
      using away unfolding closed by (metis Suc_eq_plus1 add_diff_cancel_right' le_antisym not_less_eq_eq nat.distinct(1))
    then show ?thesis
      using assms(1) by (simp add: pipes_table_def)
  qed simp
  moreover have "T x = None" if "x \<in> set ?closed" for x
    using that assms(2,4,5) nth_mem [of "2 * (i - 1)" F] nth_mem [of "2 * i + 1" F] unfolding closed by auto
  ultimately show ?thesis
    using assms(1) by (auto simp: pipes_table_def outside_def)
qed


lemma outside_kernel_ok:
  assumes "kernel_ok A k" and "k_table k' = outside ds k" and "k_limit k' = k_limit k"
  shows "kernel_ok A k'"
  using assms by (auto simp: kernel_ok_def outside_def split: if_splits)

lemma pipeline_start_result:
  assumes "kernel_ok A k" and "pipes_table T F p m i (k_table k)" and "i \<le> m"
    and F: "distinct F" "2 * m \<le> length F" "\<forall>x \<in> set F. T x = None" and T: "\<forall>d \<le> 2. T d \<noteq> None"
    and "os_fork A (k_forks k) = Some pid" and "0 < pid" and "can_start A e" and "streams_plain m i (pe_context e)"
  shows "\<exists>k'. pipeline_start A (i = m) i e (pipes_left F m i) k = (Inr (new_child pid None None None), pipes_left F m (Suc i), k')
    \<and> kernel_ok A k' \<and> pipes_table T F p m (Suc i) (k_table k') \<and> k_forks k' = k_forks k + 1 \<and> k_creds k' = k_creds k
    \<and> k_started k' = k_started k @ [(pid, Executes (entry_image e (pipeline_descriptors T p m i (pe_context e)) (k_creds k)))]"
proof -
  let ?ctx = "pe_context e" and ?h0 = "left_handle F i" and ?h1 = "right_handle F m i"
  have big: "2 < x" if "x \<in> set F" for x
    using F(3) T that not_less by blast
  have "k_table k d = T d" if "d \<le> 2" for d
  proof -
    have "d \<noteq> F ! j" if "j < 2 * m" for j
      using big [of "F ! j"] \<open>d \<le> 2\<close> that F(2) by auto
    then show ?thesis
      using assms(2) by (simp add: pipes_table_def)
  qed
  then have low: "\<forall>d \<le> 2. k_table k d \<noteq> None" "k_table k 0 = T 0" "k_table k 1 = T 1" "k_table k 2 = T 2"
    using T by auto
  note handles = pipes_table_handles [OF assms(2,3)]
  have member: "r \<in> set F" if "?h0 = Some r \<or> ?h1 = Some r" for r
    using that assms(3) F(2) by (auto simp: left_handle_def right_handle_def split: if_splits)
  have h: "\<forall>r. ?h0 = Some r \<longrightarrow> 2 < r \<and> k_table k r \<noteq> None" "\<forall>r. ?h1 = Some r \<longrightarrow> 2 < r \<and> k_table k r \<noteq> None"
    "\<forall>r. ?h0 = Some r \<longrightarrow> ?h1 \<noteq> Some r"
    using handles member big by force+
  obtain pipes where input: "pipeline_input i ?ctx (pipes_left F m i) k = (Inr (end_infos 0 ?h0 (cx_stdin ?ctx), pipes), k)"
    and pipes: "length pipes = m" "\<forall>j < m. pipes ! j = \<lparr>p_rend = (if j < i then None else Some (F ! (2 * j))),
      p_wend = (if j < i then None else Some (F ! (2 * j + 1)))\<rparr>"
    using pipeline_input_result [OF assms(11,3)] by blast
  note written = pipeline_output_result [OF assms(11,3) pipes]
  obtain k' where k': "start_child A (pe_executable e) (pe_arguments e) ?ctx False False False
      (end_infos 0 ?h0 (cx_stdin ?ctx)) (end_infos 1 ?h1 (cx_stdout ?ctx) @ end_infos 2 None (cx_stderr ?ctx)) k
        = (Inr (new_child pid None None None), k')"
    "k_table k' = outside (handle_fds ?h0 @ handle_fds ?h1) k" "k_forks k' = k_forks k + 1" "k_limit k' = k_limit k" "k_creds k' = k_creds k"
    "k_started k' = k_started k @ [(pid, Executes (entry_image e
         (\<lambda>d. if d = 0 then end_file (k_table k) 0 ?h0 (cx_stdin ?ctx) else if d = 1 then end_file (k_table k) 1 ?h1 (cx_stdout ?ctx)
              else if d = 2 then end_file (k_table k) 2 None (cx_stderr ?ctx) else None) (k_creds k)))]"
    using start_child_ends [OF assms(1) low(1) h assms(8-10), of "cx_stdin ?ctx" "cx_stdout ?ctx" "cx_stderr ?ctx"] by blast
  have descriptors: "(\<lambda>d. if d = 0 then end_file (k_table k) 0 ?h0 (cx_stdin ?ctx) else if d = 1 then end_file (k_table k) 1 ?h1 (cx_stdout ?ctx)
              else if d = 2 then end_file (k_table k) 2 None (cx_stderr ?ctx) else None) = pipeline_descriptors T p m i ?ctx"
    using handles assms(3) low(2-4)
    by (auto simp: pipeline_descriptors_def end_file_def fun_eq_iff left_handle_def right_handle_def)
  have not_captured: "(i = 0 \<and> cx_stdin ?ctx = Capture) = False" "(i = m \<and> cx_stdout ?ctx = Capture) = False"
    "(i = m \<and> cx_stderr ?ctx = Capture) = False"
    using assms(11) by (auto simp: streams_plain_def)
  have "pipeline_start A (i = m) i e (pipes_left F m i) k = (Inr (new_child pid None None None), pipes_left F m (Suc i), k')"
    by (simp only: pipeline_start_def Let_def input written not_captured k'(1) prod.case sum.case)
  moreover have "pipes_table T F p m (Suc i) (k_table k')"
    unfolding k'(2) by (rule pipes_table_step [OF assms(2,3) F])
  ultimately show ?thesis
    using k'(3,5) outside_kernel_ok [OF assms(1) k'(2,4)] k'(6) [unfolded descriptors] by simp
qed


definition child_started :: "os \<Rightarrow> nat \<Rightarrow> pipeline_entry \<Rightarrow> descriptors \<Rightarrow> credentials \<Rightarrow> nat \<times> child_end" where
  "child_started A n e t c = (the (os_fork A n), Executes (entry_image e t c))"

lemma destroy_released_pipes:
  "\<forall>q \<in> set qs. q = \<lparr>p_rend = None, p_wend = None\<rparr> \<Longrightarrow> destroy_all destroy_pipe qs k = k"
  by (induction qs) (auto simp: destroy_all_def destroy_pipe_def fh_destroy_def)

lemma pipeline_rest_result:
  assumes "kernel_ok A k" and "pipes_table T F p m i (k_table k)" and "i + length es = Suc m"
    and F: "distinct F" "2 * m \<le> length F" "\<forall>x \<in> set F. T x = None" and T: "\<forall>d \<le> 2. T d \<noteq> None"
    and "\<forall>j < length es. \<exists>pid > 0. os_fork A (k_forks k + j) = Some pid"
    and "\<forall>j < length es. can_start A (es ! j) \<and> streams_plain m (i + j) (pe_context (es ! j))"
  shows "\<exists>k'. pipeline_rest A i es (pipes_left F m i) cs k
      = (Inr (cs @ map (\<lambda>j. new_child (the (os_fork A (k_forks k + j))) None None None) [0..<length es]), k')
    \<and> k_table k' = T
    \<and> k_started k' = k_started k @ map (\<lambda>j. child_started A (k_forks k + j) (es ! j)
        (pipeline_descriptors T p m (i + j) (pe_context (es ! j))) (k_creds k)) [0..<length es]"
  using assms(1-3,8-)
proof (induction es arbitrary: i cs k)
  case Nil
  then have "\<forall>q \<in> set (pipes_left F m i). q = \<lparr>p_rend = None, p_wend = None\<rparr>"
    by (simp add: pipes_left_def)
  then have "destroy_all destroy_pipe (pipes_left F m i) k = k"
    by (intro destroy_released_pipes) simp
  moreover have "k_table k = T"
    using Nil.prems(2,3) by (auto simp: pipes_table_def fun_eq_iff)
  ultimately show ?case
    by simp
next
  case (Cons e es)
  have i: "i \<le> m" "(es = []) = (i = m)"
    using Cons.prems(3) by auto
  obtain pid where pid: "os_fork A (k_forks k) = Some pid" "0 < pid"
    using Cons.prems(4) by auto
  have e: "can_start A e" "streams_plain m i (pe_context e)"
    using Cons.prems(5) by force+
  obtain k1 where k1: "pipeline_start A (i = m) i e (pipes_left F m i) k = (Inr (new_child pid None None None), pipes_left F m (Suc i), k1)"
    "kernel_ok A k1" "pipes_table T F p m (Suc i) (k_table k1)" "k_forks k1 = k_forks k + 1" "k_creds k1 = k_creds k"
    "k_started k1 = k_started k @ [(pid, Executes (entry_image e (pipeline_descriptors T p m i (pe_context e)) (k_creds k)))]"
    using pipeline_start_result [OF Cons.prems(1,2) i(1) F T pid e] by blast
  have "\<forall>j < length es. \<exists>pid > 0. os_fork A (k_forks k1 + j) = Some pid"
    using Cons.prems(4) k1(4) by (metis Suc_eq_plus1 Suc_less_eq add_Suc_right add_Suc length_Cons)
  moreover have "\<forall>j < length es. can_start A (es ! j) \<and> streams_plain m (Suc i + j) (pe_context (es ! j))"
    using Cons.prems(5) by force
  ultimately obtain k2 where k2: "pipeline_rest A (Suc i) es (pipes_left F m (Suc i)) (cs @ [new_child pid None None None]) k1
      = (Inr ((cs @ [new_child pid None None None]) @ map (\<lambda>j. new_child (the (os_fork A (k_forks k1 + j))) None None None) [0..<length es]), k2)"
    "k_table k2 = T"
    "k_started k2 = k_started k1 @ map (\<lambda>j. child_started A (k_forks k1 + j) (es ! j)
        (pipeline_descriptors T p m (Suc i + j) (pe_context (es ! j))) (k_creds k1)) [0..<length es]"
    using Cons.IH [OF k1(2,3), of "cs @ [new_child pid None None None]"] Cons.prems(3) by auto
  have upt: "[0..<length (e # es)] = 0 # map Suc [0..<length es]"
    by (simp add: upt_conv_Cons map_Suc_upt del: upt_Suc)
  show ?case
    unfolding upt using k1 k2 pid(1)
    by (intro exI [of _ k2]) (simp add: i(2) o_def child_started_def)
qed

text \<open>
  C9: a pipeline is connected: when the caller has its three standard streams, enough free descriptors for the
  pipes, and the kernel grants what it is asked for, \<open>launch_pipeline\<close> starts every process, in order; each one
  executes its program with its output on the pipe the next one has as its input, what the context says for
  the other streams, and no other descriptor, so that every pipe has one writer and one reader; and the
  caller's own descriptors are what they were.
\<close>

theorem pipeline_connected:
  assumes "kernel_ok A k" and "\<forall>d \<le> 2. k_table k d \<noteq> None" and "length es = m + 1" and "0 < m"
    and "2 * m \<le> length (free_descriptors k)"
    and "\<forall>i \<le> m. \<exists>pid > 0. os_fork A (k_forks k + i) = Some pid"
    and "\<forall>i \<le> m. can_start A (es ! i) \<and> streams_plain m i (pe_context (es ! i))"
  shows "\<exists>k'. launch_pipeline A es k = (Inr (map (\<lambda>i. new_child (the (os_fork A (k_forks k + i))) None None None) [0..<m + 1]), k')
    \<and> k_table k' = k_table k
    \<and> k_started k' = k_started k @ map (\<lambda>i. (the (os_fork A (k_forks k + i)), Executes (entry_image (es ! i)
        (pipeline_descriptors (k_table k) (k_pipes k) m i (pe_context (es ! i))) (k_creds k)))) [0..<m + 1]"
proof -
  let ?F = "free_descriptors k"
  have F: "distinct ?F" "\<forall>x \<in> set ?F. k_table k x = None" "\<forall>x \<in> set ?F. x < k_limit k"
    by (auto simp: free_descriptors_def)
  obtain k1 where k1: "make_pipes m k = (Inr (pipes_left ?F m 0), k1)" "no_fork k k1"
    "pipes_table (k_table k) ?F (k_pipes k) m 0 (k_table k1)"
    using make_pipes_result [OF assms(5)] by blast
  have "x < k_limit k" if "k_table k1 x \<noteq> None" for x
  proof (cases "x \<in> set ?F")
    case False
    then have "x \<noteq> ?F ! j" if "j < 2 * m" for j
      using that assms(5) by (metis less_le_trans nth_mem)
    then have "k_table k1 x = k_table k x"
      using k1(3) by (simp add: pipes_table_def)
    then show ?thesis
      using that assms(1) by (simp add: kernel_ok_def)
  qed (use F(3) in blast)
  then have "kernel_ok A k1"
    using assms(1) k1(2) by (auto simp: kernel_ok_def no_fork_def)
  moreover have "\<forall>j < length es. \<exists>pid > 0. os_fork A (k_forks k1 + j) = Some pid"
    "\<forall>j < length es. can_start A (es ! j) \<and> streams_plain m (0 + j) (pe_context (es ! j))"
    using assms(3,6,7) k1(2) by (auto simp: no_fork_def less_Suc_eq_le)
  ultimately show ?thesis
    using pipeline_rest_result [OF _ k1(3) _ F(1) assms(5) F(2) assms(2), of A es "[]"] assms(3,4) k1(1,2)
    by (auto simp: launch_pipeline_def no_fork_def child_started_def)
qed


definition plain_context :: launch_context where
  "plain_context = \<lparr>cx_work_directory = asc ''/'', cx_environment = [], cx_stdin = Close, cx_stdout = Close, cx_stderr = Inherit\<rparr>"

definition cat_entry :: "stream_behavior \<Rightarrow> stream_behavior \<Rightarrow> pipeline_entry" where
  "cat_entry i out = \<lparr>pe_executable = asc ''/bin/cat'', pe_arguments = [asc ''cat''],
     pe_context = plain_context\<lparr>cx_stdin := i, cx_stdout := out\<rparr>\<rparr>"

lemma pipeline_connected_witness:
  "\<exists>k'. launch_pipeline plain_os [cat_entry Inherit Close, cat_entry Close Close, cat_entry Close Inherit] plain_kernel
      = (Inr (map (\<lambda>i. new_child (i + 100) None None None) [0, 1, 2]), k')
    \<and> k_table k' = k_table plain_kernel
    \<and> map (\<lambda>(pid, end). case end of Executes im \<Rightarrow> map (im_table im) [0, 1, 2, 3] | _ \<Rightarrow> []) (k_started k')
      = [[Some (Inherited 0), Some (Write_end 0), Some (Inherited 2), None],
         [Some (Read_end 0), Some (Write_end 1), Some (Inherited 2), None],
         [Some (Read_end 1), Some (Inherited 1), Some (Inherited 2), None]]"
proof -
  let ?es = "[cat_entry Inherit Close, cat_entry Close Close, cat_entry Close Inherit]"
  have three: "i \<le> 2 \<longleftrightarrow> i = 0 \<or> i = 1 \<or> i = 2" for i :: nat
    by auto
  have "\<forall>d \<le> 2. k_table plain_kernel d \<noteq> None" "length ?es = 2 + 1" "(0 :: nat) < 2" "2 * 2 \<le> length (free_descriptors plain_kernel)"
    by (simp_all add: plain_kernel_def free_in_plain_kernel [unfolded plain_kernel_def])
  moreover have "\<forall>i \<le> 2. \<exists>pid > 0. os_fork plain_os (k_forks plain_kernel + i) = Some pid"
    by (simp add: plain_os_def)
  moreover have "\<forall>i \<le> 2. can_start plain_os (?es ! i) \<and> streams_plain 2 i (pe_context (?es ! i))"
    unfolding three
    by (auto simp: can_start_def streams_plain_def cat_entry_def plain_context_def plain_os_def asc_def)
  ultimately show ?thesis
    using pipeline_connected [OF plain_kernel_ok, of ?es 2]
    by (auto simp: plain_os_def entry_image_def pipeline_descriptors_def cat_entry_def plain_context_def
        plain_kernel_def upt_conv_Cons)
qed

section \<open>Waiting\<close>

text \<open>Every child is waited for, once and in order; the answer is the first failure, or the last status.\<close>

fun wait_all :: "('c \<Rightarrow> 's \<Rightarrow> (status \<times> 's) option) \<Rightarrow> 'c list \<Rightarrow> 's \<Rightarrow> (status list \<times> 's) option" where
  "wait_all wait [] s = Some ([], s)"
| "wait_all wait (c # cs) s =
     (case wait c s of
        None \<Rightarrow> None
      | Some (st, s) \<Rightarrow> map_option (\<lambda>(sts, s). (st # sts, s)) (wait_all wait cs s))"

definition succeeded :: "status \<Rightarrow> bool" where
  "succeeded st \<longleftrightarrow> status_exit_status st = Some 0"

definition first_failure :: "status list \<Rightarrow> status" where
  "first_failure sts = (case find (\<lambda>st. \<not> succeeded st) sts of Some st \<Rightarrow> st | None \<Rightarrow> last sts)"

lemma wait_rest_all: "wait_rest wait cs s = map_option snd (wait_all wait cs s)"
  by (induction cs arbitrary: s) (auto simp: option.map_comp o_def case_prod_unfold split: option.splits)

lemma wait_all_Nil: "wait_all wait cs s = Some ([], s') \<longleftrightarrow> cs = [] \<and> s' = s"
  by (cases cs) (auto split: option.splits)

lemma wait_loop_result:
  "cs \<noteq> [] \<Longrightarrow> wait_loop wait cs s = map_option (\<lambda>(sts, s). (first_failure sts, s)) (wait_all wait cs s)"
proof (induction cs arbitrary: s)
  case (Cons c cs)
  have failed: "(\<not> status_exited st \<or> status_exit_status st \<noteq> Some 0) = (\<not> succeeded st)" for st
    by (auto simp: succeeded_def status_exit_status_def)
  show ?case
  proof (cases "wait c s")
    case (Some r)
    obtain st s1 where r: "r = (st, s1)"
      by (cases r)
    show ?thesis
    proof (cases "cs = []")
      case False
      then have "wait_loop wait (c # cs) s = (if \<not> succeeded st then map_option (Pair st) (wait_rest wait cs s1) else wait_loop wait cs s1)"
        by (simp add: Some r flip: failed split: option.splits)
      moreover have "\<forall>s'. wait_all wait cs s1 \<noteq> Some ([], s')"
        using False wait_all_Nil by metis
      ultimately show ?thesis
        using Cons.IH [OF False, of s1] False Some
        by (cases "succeeded st") (auto simp: r wait_rest_all first_failure_def option.map_comp o_def split: option.splits)
    qed (simp add: Some r first_failure_def)
  qed simp
qed simp

text \<open>
  \<open>wait_children\<close> waits for every child of the collection, once and in order, even when one of them failed,
  and returns the status of the first that failed, or of the last when none did; with fewer than two children
  it fails its assertion.
\<close>

theorem wait_children_result:
  "wait_children wait cs s =
    (if length cs < 2 then None
     else Some (map_option (\<lambda>(sts, s). (first_failure sts, s)) (wait_all wait cs s)))"
proof (cases "length cs < 2")
  case False
  then have "cs \<noteq> []"
    by auto
  from wait_loop_result [OF this, of wait s] False show ?thesis
    by (simp add: wait_children_def)
qed (simp add: wait_children_def)

end
