(* ===== verification/Credentials.thy ===== *)
theory Credentials
  imports DescriptorProperties
begin

text \<open>
  The ids of a child that a privileged process starts: which contexts \<open>posix_setup::operator()\<close> carries out, and
  with which real, effective and saved ids the program then runs.
\<close>

definition privileged :: "credentials \<Rightarrow> bool" where
  "privileged c \<longleftrightarrow> c_ruid c = 0 \<and> c_euid c = 0 \<and> c_suid c = 0"

text \<open>The ids after the calls that change the group, and after those that change the user.\<close>

definition group_ids :: "posix_setup \<Rightarrow> credentials \<Rightarrow> credentials" where
  "group_ids s c = c\<lparr>c_rgid := ps_gid s, c_egid := ps_egid s, c_sgid := (if ps_gid s = c_rgid c then c_sgid c else ps_gid s)\<rparr>"

definition user_ids :: "posix_setup \<Rightarrow> credentials \<Rightarrow> credentials" where
  "user_ids s c = c\<lparr>c_ruid := ps_uid s, c_euid := ps_euid s, c_suid := ps_uid s\<rparr>"

definition group_calls :: "posix_setup \<Rightarrow> unit step" where
  "group_calls s =
     and_then (\<lambda>k. set_credential (ps_gid s \<noteq> c_rgid (k_creds k)) (sys_setgid (ps_gid s)) ''posix_setup: setgid(2) failed'' k) (\<lambda>_ k.
     set_credential (ps_egid s \<noteq> c_egid (k_creds k)) (sys_setegid (ps_egid s)) ''posix_setup: setegid(2) failed'' k)"

definition user_calls :: "posix_setup \<Rightarrow> unit step" where
  "user_calls s =
     and_then (\<lambda>k. set_credential (ps_uid s \<noteq> c_ruid (k_creds k)) (sys_setuid (ps_uid s)) ''posix_setup: setuid(2) failed'' k) (\<lambda>_ k.
     set_credential (ps_euid s \<noteq> c_euid (k_creds k)) (sys_seteuid (ps_euid s)) ''posix_setup: seteuid(2) failed'' k)"

lemma group_calls_privileged:
  assumes "c_euid (k_creds k) = 0"
  shows "group_calls s k = (Inr (), k\<lparr>k_creds := group_ids s (k_creds k)\<rparr>)"
  using assms
  by (cases k; cases "k_creds k") (auto simp: group_calls_def and_then_def set_credential_def sys_setgid_def sys_setegid_def group_ids_def)

lemma user_calls_privileged:
  assumes "privileged (k_creds k)"
  shows "user_calls s k =
    (if ps_uid s = 0 \<or> ps_euid s = ps_uid s then (Inr (), k\<lparr>k_creds := user_ids s (k_creds k)\<rparr>)
     else (Inl (System_error ''posix_setup: seteuid(2) failed''),
           k\<lparr>k_creds := (k_creds k)\<lparr>c_ruid := ps_uid s, c_euid := ps_uid s, c_suid := ps_uid s\<rparr>\<rparr>))"
  using assms
  by (cases k; cases "k_creds k")
     (auto simp: user_calls_def and_then_def set_credential_def sys_setuid_def sys_seteuid_def user_ids_def privileged_def)

lemma and_then_assoc: "and_then (and_then f g) h = and_then f (\<lambda>x. and_then (g x) h)"
  by (auto simp: and_then_def fun_eq_iff split: sum.splits prod.splits)

lemma and_then_unit: "and_then f (\<lambda>_. ret ()) = f" "and_then (ret ()) g = g ()"
  by (auto simp: and_then_def ret_def fun_eq_iff split: sum.splits prod.splits)

lemma run_setup_calls:
  assumes "ps_chroot s \<noteq> [] \<longrightarrow> os_chroot A (ps_chroot s)" and "ps_work_directory s \<noteq> []" and "os_chdir A (ps_work_directory s)"
  shows "run_setup A s = and_then (group_calls s) (\<lambda>_. user_calls s)"
proof -
  have chroot: "(ps_chroot s \<noteq> [] \<and> \<not> os_chroot A (ps_chroot s)) = False"
    using assms(1) by blast
  have dir: "(ps_work_directory s = []) = False" "(\<not> os_chdir A (ps_work_directory s)) = False"
    using assms(2,3) by simp_all
  show ?thesis
    by (simp only: run_setup_def group_calls_def user_calls_def chroot dir if_False and_then_unit and_then_assoc)
qed

text \<open>
  C30: a privileged process whose directories can be entered starts its program with exactly the ids of the
  context when the context leaves the real user privileged or asks for the same real and effective user:
  with a real user of its own the program has no saved id to go back to. Otherwise the child never starts:
  \<open>setuid\<close> has changed all three user ids by the time \<open>seteuid\<close> is called, so a context that changes the real
  user only (the effective one defaults to the caller's) ends in an error.
\<close>

theorem credentials_take_effect:
  assumes "privileged (k_creds k)"
    and "ps_chroot s \<noteq> [] \<longrightarrow> os_chroot A (ps_chroot s)" and "ps_work_directory s \<noteq> []" and "os_chdir A (ps_work_directory s)"
  shows "if ps_uid s = 0 \<or> ps_euid s = ps_uid s
    then \<exists>c. run_setup A s k = (Inr (), k\<lparr>k_creds := c\<rparr>)
      \<and> c_ruid c = ps_uid s \<and> c_euid c = ps_euid s \<and> c_suid c = ps_uid s \<and> c_rgid c = ps_gid s \<and> c_egid c = ps_egid s
      \<and> (0 < ps_uid s \<longrightarrow> sys_seteuid 0 c = None \<and> sys_setuid 0 c = None)
    else fst (run_setup A s k) = Inl (System_error ''posix_setup: seteuid(2) failed'')"
proof -
  let ?k = "k\<lparr>k_creds := group_ids s (k_creds k)\<rparr>"
  have k: "privileged (k_creds ?k)" "group_calls s k = (Inr (), ?k)"
    using assms(1) group_calls_privileged by (simp_all add: privileged_def group_ids_def)
  show ?thesis
    using user_calls_privileged [OF k(1), of s]
    by (auto simp: run_setup_calls [OF assms(2-4)] and_then_def k(2) user_ids_def group_ids_def sys_seteuid_def sys_setuid_def)
qed

lemma credentials_take_effect_witness:
  "(\<exists>c. run_setup plain_os ((new_posix_setup root_user)\<lparr>ps_work_directory := asc ''/'', ps_uid := 33, ps_euid := 33, ps_gid := 33\<rparr>) plain_kernel
      = (Inr (), plain_kernel\<lparr>k_creds := c\<rparr>) \<and> c_ruid c = 33 \<and> c_euid c = 33 \<and> c_rgid c = 33 \<and> c_egid c = 0)
   \<and> fst (run_setup plain_os ((new_posix_setup root_user)\<lparr>ps_work_directory := asc ''/'', ps_uid := 33\<rparr>) plain_kernel)
      = Inl (System_error ''posix_setup: seteuid(2) failed'')"
proof -
  have k: "privileged (k_creds plain_kernel)"
    by (simp add: privileged_def plain_kernel_def root_user_def)
  have "asc ''/'' \<noteq> []" "os_chdir plain_os (asc ''/'')"
    by (simp_all add: asc_def plain_os_def)
  then show ?thesis
    using credentials_take_effect [OF k, of "(new_posix_setup root_user)\<lparr>ps_work_directory := asc ''/'', ps_uid := 33, ps_euid := 33, ps_gid := 33\<rparr>" plain_os]
      credentials_take_effect [OF k, of "(new_posix_setup root_user)\<lparr>ps_work_directory := asc ''/'', ps_uid := 33\<rparr>" plain_os]
    by (auto simp: new_posix_setup_def root_user_def)
qed

end
