(* ===== verification/ProcessEnvironment.thy ===== *)
theory ProcessEnvironment
  imports Descriptors "HOL-Library.Multiset"
begin

text \<open>
  The parts of the process library that read the environment: \<open>find_executable_in_path\<close> and
  \<open>executable_to_progname\<close> of \<open>operations.hpp\<close>, \<open>self::get_environment\<close> of \<open>self.hpp\<close>; and what a child gets of its
  parent's environment. \<open>access(2)\<close> and the value of \<open>PATH\<close> are parameters.
\<close>

section \<open>Searching a path\<close>

text \<open>\<open>find(c, pos)\<close> and \<open>rfind(c)\<close> of a string; \<open>None\<close> is \<open>npos\<close>.\<close>

fun position :: "byte \<Rightarrow> bytes \<Rightarrow> nat option" where
  "position c [] = None"
| "position c (b # bs) = (if b = c then Some 0 else map_option Suc (position c bs))"

definition find_from :: "byte \<Rightarrow> nat \<Rightarrow> bytes \<Rightarrow> nat option" where
  "find_from c pos s = map_option (\<lambda>i. pos + i) (position c (drop pos s))"

definition rfind :: "byte \<Rightarrow> bytes \<Rightarrow> nat option" where
  "rfind c s = map_option (\<lambda>i. length s - 1 - i) (position c (rev s))"

definition ends_with_slash :: "bytes \<Rightarrow> bool" where
  "ends_with_slash dir = (dir \<noteq> [] \<and> last dir = 0x2F)"

definition candidate :: "bytes \<Rightarrow> bytes \<Rightarrow> bytes" where
  "candidate file dir = dir @ (if ends_with_slash dir then [] else asc ''/'') @ file"

lemma position_less: "position c s = Some i \<Longrightarrow> i < length s"
  by (induction s arbitrary: i) (auto split: if_splits)

lemma find_from_less: "find_from c pos s = Some i \<Longrightarrow> pos \<le> i \<and> i < length s"
  by (auto simp: find_from_def dest!: position_less)

text \<open>The loop: an empty result goes on behind the colon.\<close>

function search_path :: "(bytes \<Rightarrow> bool) \<Rightarrow> bytes \<Rightarrow> bytes \<Rightarrow> nat \<Rightarrow> bytes" where
  "search_path accessible file path pos1 =
     (let pos2 = find_from 0x3A pos1 path;
          dir = (case pos2 of Some p \<Rightarrow> take (p - pos1) (drop pos1 path) | None \<Rightarrow> drop pos1 path);
          f = candidate file dir;
          result = (if accessible (c_string f) then f else [])
      in case pos2 of
           Some p \<Rightarrow> if result = [] then search_path accessible file path (p + 1) else result
         | None \<Rightarrow> result)"
  by pat_completeness auto
termination
  by (relation "measure (\<lambda>(_, _, path, pos1). length path - pos1)") (auto dest!: find_from_less [OF sym])

declare search_path.simps [simp del]

datatype search = Found bytes | Throws_no_path | Throws_not_found | Search_asserts

definition find_executable_in_path :: "(bytes \<Rightarrow> bool) \<Rightarrow> bytes option \<Rightarrow> bytes \<Rightarrow> bytes \<Rightarrow> search" where
  "find_executable_in_path accessible envpath file path =
     (if find_from 0x2F 0 file \<noteq> None then Search_asserts
      else if path = [] \<and> envpath = None then Throws_no_path
      else let path = (if path = [] then the envpath else path)
           in if path = [] then Search_asserts
              else let result = search_path accessible file path 0
                   in if result = [] then Throws_not_found else Found result)"

definition executable_to_progname :: "bytes \<Rightarrow> bytes" where
  "executable_to_progname exe = (case rfind 0x2F exe of None \<Rightarrow> exe | Some slash \<Rightarrow> drop (slash + 1) exe)"

section \<open>The environment of the process\<close>

text \<open>\<open>substr(0, pos)\<close> and \<open>substr(pos + 1)\<close>; for \<open>npos\<close> the second position wraps around to 0.\<close>

definition entry_name :: "bytes \<Rightarrow> bytes" where
  "entry_name s = (case position 0x3D s of Some pos \<Rightarrow> take pos s | None \<Rightarrow> s)"

definition entry_value :: "bytes \<Rightarrow> bytes" where
  "entry_value s = (case position 0x3D s of Some pos \<Rightarrow> drop (pos + 1) s | None \<Rightarrow> s)"

text \<open>The loop over \<open>environ\<close>; \<open>insert\<close> keeps the first value of a name.\<close>

definition get_environment :: "bytes list \<Rightarrow> environment" where
  "get_environment environ =
     foldl (\<lambda>e s. if map_find e (entry_name s) = None then map_assign (entry_name s) (entry_value s) e else e) [] environ"

section \<open>What is found\<close>

lemma position_split_on:
  "split_on c s = (case position c s of None \<Rightarrow> [s] | Some i \<Rightarrow> take i s # split_on c (drop (i + 1) s))"
  by (induction s) (auto split: option.splits list.splits)

lemma candidate_not_Nil [simp]: "candidate file dir \<noteq> []"
  by (auto simp: candidate_def ends_with_slash_def asc_def)

lemma search_path_first:
  assumes "pos \<le> length path"
  shows "search_path accessible file path pos =
    (case find (\<lambda>f. accessible (c_string f)) (map (candidate file) (split_on 0x3A (drop pos path))) of Some f \<Rightarrow> f | None \<Rightarrow> [])"
  using assms
proof (induction accessible "file" path pos rule: search_path.induct)
  case (1 accessible name path pos)
  show ?case
  proof (cases "position 0x3A (drop pos path)")
    case None
    then show ?thesis
      by (subst search_path.simps) (simp add: find_from_def position_split_on [of _ "drop pos path"] Let_def)
  next
    case (Some i)
    then have i: "pos + i < length path"
      by (auto dest!: position_less)
    have "search_path accessible name path (pos + i + 1) =
        (case find (\<lambda>f. accessible (c_string f)) (map (candidate name) (split_on 0x3A (drop (pos + i + 1) path))) of Some f \<Rightarrow> f | None \<Rightarrow> [])"
      if "\<not> accessible (c_string (candidate name (take i (drop pos path))))"
      using 1(1) [OF refl refl refl refl, of "pos + i"] that i Some by (simp add: find_from_def)
    then show ?thesis
      using Some by (subst search_path.simps) (simp add: find_from_def position_split_on [of _ "drop pos path"] Let_def add.commute add.left_commute)
  qed
qed

lemma position_None [simp]: "position c s = None \<longleftrightarrow> c \<notin> set s"
  by (induction s) auto

lemma position_append: "c \<notin> set s \<Longrightarrow> position c (s @ c # t) = Some (length s)"
  by (induction s) auto

lemma progname_append:
  assumes "0x2F \<notin> set file"
  shows "executable_to_progname (dir @ 0x2F # file) = file"
proof -
  have "position 0x2F (rev (dir @ 0x2F # file)) = Some (length file)"
    using position_append [of "0x2F" "rev file" "rev dir"] assms by simp
  then show ?thesis
    by (simp add: executable_to_progname_def rfind_def)
qed

lemma progname_candidate:
  assumes "0x2F \<notin> set file"
  shows "executable_to_progname (candidate file dir) = file"
proof (cases "ends_with_slash dir")
  case True
  then obtain d where "dir = d @ [0x2F]"
    by (auto simp: ends_with_slash_def) (metis append_butlast_last_id)
  then show ?thesis
    using progname_append [OF assms, of d] by (simp add: candidate_def ends_with_slash_def)
next
  case False
  then show ?thesis
    using progname_append [OF assms, of dir] by (simp add: candidate_def asc_def)
qed




text \<open>A \<open>PATH\<close> that ends in a colon searches the root directory.\<close>

lemma empty_directory_is_root: "candidate file [] = asc ''/'' @ file"
  by (simp add: candidate_def ends_with_slash_def)

section \<open>What is passed on\<close>

text \<open>An entry that the environment of a process can have: \<open>name=value\<close>, and a C string.\<close>

definition entry_ok :: "bytes \<Rightarrow> bool" where
  "entry_ok s \<longleftrightarrow> 0x3D \<in> set s \<and> 0 \<notin> set s"

lemma take_drop_position: "position c s = Some i \<Longrightarrow> take i s @ c # drop (i + 1) s = s"
  by (induction s arbitrary: i) (auto split: if_splits)

lemma entry_split: "0x3D \<in> set s \<Longrightarrow> entry_name s @ asc ''='' @ entry_value s = s"
  using take_drop_position [of "0x3D" s] by (auto simp: entry_name_def entry_value_def asc_def split: option.splits)

lemma c_string_id: "0 \<notin> set s \<Longrightarrow> c_string s = s"
  unfolding c_string_def by (induction s) auto

lemma get_environment_snoc:
  "get_environment (es @ [s]) =
     (if map_find (get_environment es) (entry_name s) = None then map_assign (entry_name s) (entry_value s) (get_environment es)
      else get_environment es)"
  by (simp add: get_environment_def)

lemma mset_map_assign_new: "map_find m k = None \<Longrightarrow> mset (map_assign k v m) = add_mset (k, v) (mset m)"
  by (induction k v m rule: map_assign.induct) (auto split: if_splits)

lemma get_environment_distinct:
  assumes "distinct (map entry_name es)"
  shows "map_ok (get_environment es) \<and> mset (get_environment es) = mset (map (\<lambda>s. (entry_name s, entry_value s)) es)"
  using assms
proof (induction es rule: rev_induct)
  case Nil
  then show ?case
    by (simp add: get_environment_def)
next
  case (snoc s es)
  then have es: "map_ok (get_environment es)" "mset (get_environment es) = mset (map (\<lambda>s. (entry_name s, entry_value s)) es)"
    and new: "entry_name s \<notin> set (map entry_name es)"
    by auto
  from es(2) have "fst ` set (get_environment es) = set (map entry_name es)"
    by (metis (no_types, lifting) fst_conv image_cong image_image list.set_map set_mset_mset)
  then have "map_find (get_environment es) (entry_name s) = None"
    using new by (simp add: map_find_None)
  then show ?case
    using es by (simp add: get_environment_snoc map_ok_assign mset_map_assign_new)
qed

lemma map_ok_unique:
  assumes "map_ok m" and "map_ok m'" and "mset m = mset m'"
  shows "m = m'"
proof (rule map_sorted_distinct_set_unique [of fst])
  show "set m = set m'"
    by (rule mset_eq_setD [OF assms(3)])
  then show "inj_on fst (set m \<union> set m')"
    using map_ok_distinct [OF assms(1)] by (simp add: distinct_map)
  show "sorted (map fst m)" "sorted (map fst m')"
    using assms(1,2) by (simp_all add: map_ok_def strict_sorted_imp_sorted)
  show "distinct (map fst m)" "distinct (map fst m')"
    using assms(1,2) by (simp_all add: map_ok_distinct)
qed

text \<open>
  A child gets the environment of its parent: when the entries of the caller are well formed and no name
  occurs twice, the strings a child is given for the environment \<open>get_environment\<close> returns are exactly the
  caller's, each once, and reading them again gives the same environment.
\<close>

theorem environment_passed_on:
  assumes "\<forall>s \<in> set es. entry_ok s" and "distinct (map entry_name es)"
  shows "mset (environment_to_envp (get_environment es)) = mset es
    \<and> get_environment (environment_to_envp (get_environment es)) = get_environment es"
proof -
  let ?e = "get_environment es"
  note e = get_environment_distinct [OF assms(2)]
  have "mset (environment_to_envp ?e) = image_mset (\<lambda>(name, v). c_string (name @ asc ''='' @ v)) (mset ?e)"
    by (simp add: environment_to_envp_def)
  also have "\<dots> = mset (map (\<lambda>s. c_string (entry_name s @ asc ''='' @ entry_value s)) es)"
    using e by (simp add: image_mset.compositionality o_def)
  also have "map (\<lambda>s. c_string (entry_name s @ asc ''='' @ entry_value s)) es = es"
    using assms(1) by (intro map_idI) (simp add: entry_split c_string_id entry_ok_def del: append_assoc)
  finally have sent: "mset (environment_to_envp ?e) = mset es" .
  then have names: "distinct (map entry_name (environment_to_envp ?e))"
    using assms(2) by (metis mset_eq_imp_distinct_iff mset_map)
  have "mset (map (\<lambda>s. (entry_name s, entry_value s)) (environment_to_envp ?e)) = mset (map (\<lambda>s. (entry_name s, entry_value s)) es)"
    using sent by simp
  then have "mset (get_environment (environment_to_envp ?e)) = mset ?e"
    using get_environment_distinct [OF names] e by simp
  then have "get_environment (environment_to_envp ?e) = ?e"
    using get_environment_distinct [OF names] e by (intro map_ok_unique) simp_all
  with sent show ?thesis
    by blast
qed


lemma environment_passed_on_witness:
  "mset (environment_to_envp (get_environment [asc ''PATH=/bin'', asc ''HOME=/''])) = {#asc ''PATH=/bin'', asc ''HOME=/''#}
   \<and> environment_to_envp (get_environment [asc ''PATH=/bin'', asc ''HOME=/'']) = [asc ''HOME=/'', asc ''PATH=/bin'']"
proof -
  have "\<forall>s \<in> set [asc ''PATH=/bin'', asc ''HOME=/'']. entry_ok s" "distinct (map entry_name [asc ''PATH=/bin'', asc ''HOME=/''])"
    by (simp_all add: entry_ok_def asc_def entry_name_def)
  note passed = environment_passed_on [OF this]
  have "environment_to_envp (get_environment [asc ''PATH=/bin'', asc ''HOME=/'']) = [asc ''HOME=/'', asc ''PATH=/bin'']"
    by code_simp
  with passed show ?thesis
    by simp
qed

text \<open>An entry without \<open>=\<close> comes back as its own value; of two entries with one name the first is kept.\<close>

lemma entry_without_equals: "0x3D \<notin> set s \<Longrightarrow> entry_name s = s \<and> entry_value s = s"
  by (simp add: entry_name_def entry_value_def position_None [THEN iffD2])

section \<open>The working directory\<close>

text \<open>
  The constructor of \<open>basic_work_directory_context\<close>: the answer of \<open>pathconf(2)\<close> is an error, no limit, or a size;
  \<open>getcwd\<close> takes the size of the array. The directory a child is to run in is never the empty string, which
  \<open>posix_setup\<close> asserts.
\<close>

datatype path_limit = Pathconf_fails | No_limit | Limit nat

definition posix_path_max :: nat where
  "posix_path_max = 259"

definition current_work_directory :: "path_limit \<Rightarrow> (nat \<Rightarrow> bytes option) \<Rightarrow> bytes step" where
  "current_work_directory limit getcwd =
     (let ask = (\<lambda>n. case getcwd n of
          None \<Rightarrow> throw (System_error ''basic_work_directory_context: getcwd(2) failed'')
        | Some cwd \<Rightarrow> (if c_string cwd = [] then throw Failed_assertion else ret (c_string cwd)))
      in case limit of
           Pathconf_fails \<Rightarrow> throw (System_error ''basic_work_directory_context: pathconf(2) failed'')
         | No_limit \<Rightarrow> ask posix_path_max
         | Limit n \<Rightarrow> ask n)"

lemma current_work_directory_set: "fst (current_work_directory limit getcwd k) = Inr d \<Longrightarrow> d \<noteq> []"
  by (auto simp: current_work_directory_def throw_def ret_def Let_def split: path_limit.splits option.splits if_splits)

end
