(* ===== verification/HandleOwnership.thy ===== *)
theory HandleOwnership
  imports Descriptors
begin

text \<open>
  \<open>detail/file_handle.hpp\<close> as a class: objects that own descriptors. The store maps the live objects to their
  \<open>handle_\<close>; constructors take a name that is not in use. Copying and assigning change the source, so that what
  an operation does depends on whether its arguments are the same object.
\<close>

section \<open>Objects\<close>

record handle_store =
  hs_kernel :: kernel
  hs_handles :: "nat \<rightharpoonup> file_handle"

datatype handle_op =
    New_handle nat
  | Adopt nat nat
  | Copy nat nat
  | Assign nat nat
  | Close_handle nat
  | Release nat
  | Remap nat nat
  | Dup nat nat nat
  | Destroy nat

definition fh_valid :: "file_handle \<Rightarrow> bool" where
  "fh_valid h \<longleftrightarrow> h \<noteq> None"

text \<open>The copy constructor: the new handle, and what is left in the old one.\<close>

definition fh_copy :: "file_handle \<Rightarrow> file_handle \<times> file_handle" where
  "fh_copy h = (h, None)"

text \<open>\<open>operator=\<close>: first the left side is written, then the right side, which may be the same object.\<close>

definition fh_assign :: "nat \<Rightarrow> nat \<Rightarrow> (nat \<rightharpoonup> file_handle) \<Rightarrow> (nat \<rightharpoonup> file_handle)" where
  "fh_assign x y hs = (case hs y of None \<Rightarrow> hs | Some h \<Rightarrow> hs(x \<mapsto> h, y \<mapsto> None))"

text \<open>A member function on an object; an exception leaves the object as it is.\<close>

definition on_handle :: "nat \<Rightarrow> (file_handle \<Rightarrow> file_handle step) \<Rightarrow> handle_store \<Rightarrow> handle_store" where
  "on_handle x f st =
     (case hs_handles st x of
        None \<Rightarrow> st
      | Some h \<Rightarrow>
          (case f h (hs_kernel st) of
             (Inl e, k) \<Rightarrow> st\<lparr>hs_kernel := k\<rparr>
           | (Inr h', k) \<Rightarrow> st\<lparr>hs_kernel := k, hs_handles := (hs_handles st)(x \<mapsto> h')\<rparr>))"

fun handle_step :: "handle_store \<Rightarrow> handle_op \<Rightarrow> handle_store" where
  "handle_step st (New_handle x) = st\<lparr>hs_handles := (hs_handles st)(x \<mapsto> None)\<rparr>"
| "handle_step st (Adopt x d) = st\<lparr>hs_handles := (hs_handles st)(x \<mapsto> Some d)\<rparr>"
| "handle_step st (Copy x y) =
     (case hs_handles st y of
        None \<Rightarrow> st
      | Some h \<Rightarrow> (let (new, old) = fh_copy h in st\<lparr>hs_handles := (hs_handles st)(y \<mapsto> old, x \<mapsto> new)\<rparr>))"
| "handle_step st (Assign x y) = st\<lparr>hs_handles := fh_assign x y (hs_handles st)\<rparr>"
| "handle_step st (Close_handle x) = on_handle x fh_close st"
| "handle_step st (Release x) = on_handle x (\<lambda>h. and_then (fh_release h) (\<lambda>(d, h'). ret h')) st"
| "handle_step st (Remap x d) = on_handle x (\<lambda>h. posix_remap h d) st"
| "handle_step st (Dup x h1 h2) =
     (case posix_dup h1 h2 (hs_kernel st) of
        (Inl e, k) \<Rightarrow> st\<lparr>hs_kernel := k\<rparr>
      | (Inr h, k) \<Rightarrow> st\<lparr>hs_kernel := k, hs_handles := (hs_handles st)(x \<mapsto> h)\<rparr>)"
| "handle_step st (Destroy x) =
     (case hs_handles st x of
        None \<Rightarrow> st
      | Some h \<Rightarrow> st\<lparr>hs_kernel := if fh_valid h then fh_destroy h (hs_kernel st) else hs_kernel st, hs_handles := (hs_handles st)(x := None)\<rparr>)"

definition run_handles :: "handle_store \<Rightarrow> handle_op list \<Rightarrow> handle_store" where
  "run_handles st ops = foldl handle_step st ops"

section \<open>Ownership\<close>

definition owned :: "handle_store \<Rightarrow> nat set" where
  "owned st = {d. \<exists>x. hs_handles st x = Some (Some d)}"

definition open_descriptors :: "handle_store \<Rightarrow> nat set" where
  "open_descriptors st = dom (k_table (hs_kernel st))"

text \<open>Every owned descriptor is open and has one owner.\<close>

definition handles_ok :: "handle_store \<Rightarrow> bool" where
  "handles_ok st \<longleftrightarrow>
     owned st \<subseteq> open_descriptors st
     \<and> (\<forall>x y d. hs_handles st x = Some (Some d) \<and> hs_handles st y = Some (Some d) \<longrightarrow> x = y)"

text \<open>
  The conditions under which an operation may be called, as the comments of the class give them: a constructor
  takes a descriptor that is open and that nobody owns, \<open>close\<close>, \<open>release\<close> and \<open>posix_remap\<close> need a valid handle.
  That \<open>posix_remap\<close> must not be given the descriptor the handle has already is not among them.
\<close>

definition is_valid :: "handle_store \<Rightarrow> nat \<Rightarrow> bool" where
  "is_valid st x \<longleftrightarrow> (\<exists>d. hs_handles st x = Some (Some d))"

fun allowed :: "handle_store \<Rightarrow> handle_op \<Rightarrow> bool" where
  "allowed st (New_handle x) \<longleftrightarrow> hs_handles st x = None"
| "allowed st (Adopt x d) \<longleftrightarrow> hs_handles st x = None \<and> d \<in> open_descriptors st \<and> d \<notin> owned st"
| "allowed st (Copy x y) \<longleftrightarrow> hs_handles st x = None \<and> hs_handles st y \<noteq> None"
| "allowed st (Assign x y) \<longleftrightarrow> hs_handles st x \<noteq> None \<and> hs_handles st y \<noteq> None"
| "allowed st (Close_handle x) \<longleftrightarrow> is_valid st x"
| "allowed st (Release x) \<longleftrightarrow> is_valid st x"
| "allowed st (Remap x d) \<longleftrightarrow> is_valid st x \<and> d \<notin> owned st"
| "allowed st (Dup x h1 h2) \<longleftrightarrow> hs_handles st x = None \<and> h1 \<in> open_descriptors st \<and> h2 \<notin> owned st"
| "allowed st (Destroy x) \<longleftrightarrow> hs_handles st x \<noteq> None"

text \<open>What gives a descriptor away: \<open>release\<close>, and an assignment to a valid handle, which forgets it.\<close>

fun gives_away :: "handle_store \<Rightarrow> handle_op \<Rightarrow> bool" where
  "gives_away st (Release x) \<longleftrightarrow> True"
| "gives_away st (Assign x y) \<longleftrightarrow> is_valid st x"
| "gives_away st _ \<longleftrightarrow> False"

lemma handles_okD:
  assumes "handles_ok st" and "hs_handles st x = Some (Some d)"
  shows "k_table (hs_kernel st) d \<noteq> None" and "hs_handles st y = Some (Some d) \<Longrightarrow> y = x"
  using assms by (auto simp: handles_ok_def owned_def open_descriptors_def)

text \<open>An operation that changes one object.\<close>

lemma one_object_changes:
  assumes "handles_ok st" and "hs_handles st' = (hs_handles st)(x := v)"
    and "\<And>d. d \<in> owned st \<Longrightarrow> hs_handles st x \<noteq> Some (Some d) \<Longrightarrow> d \<in> open_descriptors st'"
    and "\<And>d. v = Some (Some d) \<Longrightarrow> d \<in> open_descriptors st' \<and> d \<notin> owned st"
  shows "handles_ok st'"
    and "(\<And>d. d \<in> open_descriptors st' \<Longrightarrow> v = Some (Some d) \<or> d \<in> open_descriptors st \<and> hs_handles st x \<noteq> Some (Some d))
      \<Longrightarrow> open_descriptors st' - owned st' \<subseteq> open_descriptors st - owned st"
proof -
  have own: "hs_handles st' z = Some (Some d) \<longleftrightarrow> (if z = x then v = Some (Some d) else hs_handles st z = Some (Some d))" for z d
    by (simp add: assms(2))
  have in_owned: "hs_handles st z = Some (Some d) \<Longrightarrow> d \<in> owned st" for z d
    by (auto simp: owned_def)
  have "d \<in> open_descriptors st'" if z: "hs_handles st' z = Some (Some d)" for z d
  proof (cases "z = x")
    case False
    then have held: "hs_handles st z = Some (Some d)"
      using z own by simp
    then show ?thesis
      using False handles_okD(2) [OF assms(1) held] in_owned assms(3) by blast
  qed (use z own assms(4) in simp)
  moreover have "z = y" if "hs_handles st' z = Some (Some d)" "hs_handles st' y = Some (Some d)" for z y d
    using that own [of z d] own [of y d] assms(4) in_owned handles_okD(2) [OF assms(1)] by (metis (full_types))
  ultimately show "handles_ok st'"
    by (auto simp: handles_ok_def owned_def)
  show "open_descriptors st' - owned st' \<subseteq> open_descriptors st - owned st"
    if "\<And>d. d \<in> open_descriptors st' \<Longrightarrow> v = Some (Some d) \<or> d \<in> open_descriptors st \<and> hs_handles st x \<noteq> Some (Some d)"
    using that own unfolding owned_def by (smt (verit) DiffD1 DiffD2 DiffI mem_Collect_eq subsetI)
qed

lemma one_object_rule:
  assumes "handles_ok st" and "hs_handles st' = (hs_handles st)(x := v)"
    and "\<And>d. d \<in> owned st \<Longrightarrow> hs_handles st x \<noteq> Some (Some d) \<Longrightarrow> d \<in> open_descriptors st'"
    and "\<And>d. v = Some (Some d) \<Longrightarrow> d \<in> open_descriptors st' \<and> d \<notin> owned st"
    and "\<And>d. \<not> g \<Longrightarrow> d \<in> open_descriptors st'
      \<Longrightarrow> v = Some (Some d) \<or> d \<in> open_descriptors st \<and> hs_handles st x \<noteq> Some (Some d)"
  shows "handles_ok st' \<and> (\<not> g \<longrightarrow> open_descriptors st' - owned st' \<subseteq> open_descriptors st - owned st)"
  using one_object_changes [OF assms(1,2)] assms(3-5) by blast

lemma owned_open: "handles_ok st \<Longrightarrow> d \<in> owned st \<Longrightarrow> d \<in> dom (k_table (hs_kernel st))"
  by (auto simp: handles_ok_def open_descriptors_def)

lemma handle_step_ok:
  assumes "handles_ok st" and "allowed st op"
  shows "handles_ok (handle_step st op)
    \<and> (\<not> gives_away st op \<longrightarrow> open_descriptors (handle_step st op) - owned (handle_step st op) \<subseteq> open_descriptors st - owned st)"
proof (cases op)
  case (Copy x y)
  then obtain h where y: "hs_handles st y = Some h" "hs_handles st x = None"
    using assms(2) by auto
  define st' where "st' = handle_step st op"
  have moved: "hs_handles st' z = Some (Some d) \<longleftrightarrow> (if z = x then hs_handles st y = Some (Some d) else z \<noteq> y \<and> hs_handles st z = Some (Some d))"
    and "hs_kernel st' = hs_kernel st" for z d
    using y by (auto simp: st'_def Copy fh_copy_def)
  moreover have "d \<in> owned st' \<longleftrightarrow> d \<in> owned st" for d
  proof (cases "hs_handles st y = Some (Some d)")
    case True
    then have "hs_handles st' x = Some (Some d)"
      by (simp add: moved(1))
    with True show ?thesis
      unfolding owned_def by blast
  next
    case False
    then have "hs_handles st' z = Some (Some d) \<longleftrightarrow> hs_handles st z = Some (Some d)" for z
      using moved(1) [of z d] y(2) by auto
    then show ?thesis
      by (simp add: owned_def)
  qed
  then have "owned st' = owned st"
    by blast
  ultimately show ?thesis
    using assms(1) y(2) unfolding handles_ok_def open_descriptors_def st'_def [symmetric] by (auto split: if_splits)
next
  case (Assign x y)
  then show ?thesis
    using assms by (auto simp: fh_assign_def handles_ok_def owned_def open_descriptors_def is_valid_def split: option.splits)
      (metis option.distinct(1) option.inject)
next
  case (New_handle x)
  show ?thesis
    by (rule one_object_rule [OF assms(1), of _ x "Some None"])
      (use New_handle assms(2) owned_open [OF assms(1)] in \<open>auto simp: open_descriptors_def\<close>)
next
  case (Adopt x d)
  show ?thesis
    by (rule one_object_rule [OF assms(1), of _ x "Some (Some d)"])
      (use Adopt assms(2) owned_open [OF assms(1)] in \<open>auto simp: open_descriptors_def\<close>)
next
  case (Close_handle x)
  then obtain d where "hs_handles st x = Some (Some d)"
    using assms(2) by (auto simp: is_valid_def)
  then have st': "handle_step st op
      = st\<lparr>hs_kernel := (hs_kernel st)\<lparr>k_table := (k_table (hs_kernel st))(d := None)\<rparr>, hs_handles := (hs_handles st)(x \<mapsto> None)\<rparr>"
    by (simp add: Close_handle on_handle_def fh_close_def sys_close_def)
  show ?thesis
    by (rule one_object_rule [OF assms(1), of _ x "Some None"])
      (use \<open>hs_handles st x = Some (Some d)\<close> owned_open [OF assms(1)] in \<open>auto simp: st' open_descriptors_def\<close>)
next
  case (Release x)
  then obtain d where "hs_handles st x = Some (Some d)"
    using assms(2) by (auto simp: is_valid_def)
  then have st': "handle_step st op = st\<lparr>hs_handles := (hs_handles st)(x \<mapsto> None)\<rparr>"
    by (simp add: Release on_handle_def fh_release_def and_then_def ret_def)
  have away: "gives_away st op"
    by (simp add: Release)
  show ?thesis
    by (rule one_object_rule [OF assms(1), of _ x "Some None"])
      (use away owned_open [OF assms(1)] in \<open>auto simp: st' open_descriptors_def\<close>)
next
  case (Remap x d)
  then obtain d0 where x: "hs_handles st x = Some (Some d0)" "d0 \<noteq> d" "d \<notin> owned st"
    using assms(2) by (auto simp: is_valid_def owned_def)
  then have d0: "k_table (hs_kernel st) d0 \<noteq> None"
    using handles_okD(1) [OF assms(1)] by blast
  show ?thesis
  proof (cases "k_limit (hs_kernel st) \<le> d")
    case True
    then have "handle_step st op = st"
      using x d0 by (simp add: Remap on_handle_def posix_remap_def sys_dup2_def Let_def)
    then show ?thesis
      using assms(1) by simp
  next
    case False
    then have st': "handle_step st op
        = st\<lparr>hs_kernel := (hs_kernel st)\<lparr>k_table := (k_table (hs_kernel st))(d := k_table (hs_kernel st) d0, d0 := None)\<rparr>,
            hs_handles := (hs_handles st)(x \<mapsto> Some d)\<rparr>"
      using x d0 by (auto simp: Remap on_handle_def posix_remap_def sys_dup2_def sys_close_def Let_def)
    show ?thesis
      by (rule one_object_rule [OF assms(1), of _ x "Some (Some d)"])
        (use x d0 owned_open [OF assms(1)] in \<open>auto simp: st' open_descriptors_def split: if_splits\<close>)
  qed
next
  case (Dup x h1 h2)
  have pre: "hs_handles st x = None" "h2 \<notin> owned st"
    using assms(2) by (simp_all add: Dup)
  show ?thesis
  proof (cases "k_table (hs_kernel st) h1 = None \<or> k_limit (hs_kernel st) \<le> h2")
    case True
    then have "handle_step st op = st"
      by (auto simp: Dup posix_dup_def sys_dup2_def Let_def)
    then show ?thesis
      using assms(1) by simp
  next
    case False
    then have st': "handle_step st op
        = st\<lparr>hs_kernel := (hs_kernel st)\<lparr>k_table := (k_table (hs_kernel st))(h2 := k_table (hs_kernel st) h1)\<rparr>,
            hs_handles := (hs_handles st)(x \<mapsto> Some h2)\<rparr>"
      by (auto simp: Dup posix_dup_def sys_dup2_def Let_def)
    show ?thesis
      by (rule one_object_rule [OF assms(1), of _ x "Some (Some h2)"])
        (use False pre owned_open [OF assms(1)] in \<open>auto simp: st' open_descriptors_def split: if_splits\<close>)
  qed
next
  case (Destroy x)
  then obtain h where h: "hs_handles st x = Some h"
    using assms(2) by auto
  show ?thesis
    by (rule one_object_rule [OF assms(1), of _ x None])
      (use Destroy h owned_open [OF assms(1)] in \<open>auto simp: fh_destroy_def fh_valid_def sys_close_def open_descriptors_def split: option.splits if_splits\<close>)
qed

section \<open>A run\<close>

text \<open>Every operation of a list may be called where it is called; and none gives a descriptor away.\<close>

fun all_allowed :: "handle_store \<Rightarrow> handle_op list \<Rightarrow> bool" where
  "all_allowed st [] \<longleftrightarrow> True"
| "all_allowed st (op # ops) \<longleftrightarrow> allowed st op \<and> all_allowed (handle_step st op) ops"

fun none_given_away :: "handle_store \<Rightarrow> handle_op list \<Rightarrow> bool" where
  "none_given_away st [] \<longleftrightarrow> True"
| "none_given_away st (op # ops) \<longleftrightarrow> \<not> gives_away st op \<and> none_given_away (handle_step st op) ops"

lemma run_handles_ok:
  assumes "handles_ok st" and "all_allowed st ops"
  shows "handles_ok (run_handles st ops)
    \<and> (none_given_away st ops \<longrightarrow> open_descriptors (run_handles st ops) - owned (run_handles st ops) \<subseteq> open_descriptors st - owned st)"
  using assms
proof (induction ops arbitrary: st)
  case (Cons op ops)
  note step = handle_step_ok [of st op]
  have "handles_ok (handle_step st op)" "all_allowed (handle_step st op) ops"
    using Cons.prems step by simp_all
  from Cons.IH [OF this] show ?case
    using Cons.prems step unfolding run_handles_def by (simp, blast)
qed (simp add: run_handles_def)

definition no_handles :: "kernel \<Rightarrow> handle_store" where
  "no_handles k = \<lparr>hs_kernel = k, hs_handles = Map.empty\<rparr>"


section \<open>Instances\<close>

definition one_open :: kernel where
  "one_open = \<lparr>k_table = [5 \<mapsto> Inherited 5], k_limit = 16, k_creds = \<lparr>c_ruid = 0, c_euid = 0, c_suid = 0, c_rgid = 0, c_egid = 0, c_sgid = 0\<rparr>,
     k_pipes = 0, k_forks = 0, k_started = []\<rparr>"


text \<open>An assignment to a valid handle loses its descriptor, an assignment to itself its own.\<close>

lemma assignment_leaks:
  "owned (run_handles (no_handles one_open) [Adopt 0 5, Assign 0 0]) = {}"
  "5 \<in> open_descriptors (run_handles (no_handles one_open) [Adopt 0 5, Assign 0 0])"
  by (simp_all add: run_handles_def no_handles_def one_open_def fh_assign_def owned_def open_descriptors_def)

text \<open>A handle that is remapped to the descriptor it has closes it and goes on owning it.\<close>

lemma remap_to_itself:
  assumes "k_table k d \<noteq> None" and "d < k_limit k"
  shows "posix_remap (Some d) d k = (Inr (Some d), k\<lparr>k_table := (k_table k)(d := None)\<rparr>)"
  using assms by (simp add: posix_remap_def sys_dup2_def sys_close_def Let_def)

end
