(* ===== verification/StreamBuffer.thy ===== *)
theory StreamBuffer
  imports Prelude
begin

text \<open>
  The stream buffer of the process library, \<open>detail/systembuf.hpp\<close>, and the two streams over it, \<open>postream.hpp\<close>
  and \<open>pistream.hpp\<close>. The descriptor is a channel: the bytes written and not yet read, and a schedule of what
  the next calls of \<open>write\<close> and \<open>read\<close> transfer (without one they transfer all they can). A put area is the list of
  its characters between \<open>pbase\<close> and \<open>pptr\<close>, a get area the list between \<open>gptr\<close> and \<open>egptr\<close>.
\<close>

section \<open>The channel\<close>

record channel =
  cn_data :: bytes
  cn_writes :: "nat option list"
  cn_reads :: "nat list"

text \<open>\<open>write(2)\<close>: \<open>None\<close> is -1.\<close>

definition sys_write :: "bytes \<Rightarrow> channel \<Rightarrow> nat option \<times> channel" where
  "sys_write bs ch =
     (case cn_writes ch of
        [] \<Rightarrow> (Some (length bs), ch\<lparr>cn_data := cn_data ch @ bs\<rparr>)
      | None # ws \<Rightarrow> (None, ch\<lparr>cn_writes := ws\<rparr>)
      | Some n # ws \<Rightarrow> (Some (min n (length bs)), ch\<lparr>cn_data := cn_data ch @ take n bs, cn_writes := ws\<rparr>))"

text \<open>\<open>read(2)\<close> when the other side has closed its end: nothing is read at the end of the data only.\<close>

definition sys_read :: "nat \<Rightarrow> channel \<Rightarrow> bytes \<times> channel" where
  "sys_read n ch =
     (let k = (case cn_reads ch of [] \<Rightarrow> n | m # _ \<Rightarrow> min n (Suc m))
      in (take k (cn_data ch), ch\<lparr>cn_data := drop k (cn_data ch), cn_reads := tl (cn_reads ch)\<rparr>))"

section \<open>\<open>systembuf\<close>\<close>

record systembuf =
  sb_bufsize :: nat
  sb_in :: bytes
  sb_out :: bytes

text \<open>The constructor; its assertion on the size is a hypothesis of the properties.\<close>

definition new_systembuf :: "nat \<Rightarrow> systembuf" where
  "new_systembuf bufsize = \<lparr>sb_bufsize = bufsize, sb_in = [], sb_out = []\<rparr>"

text \<open>\<open>underflow\<close>: the next character, \<open>None\<close> for \<open>eof\<close>. It is called when the get area is empty.\<close>

definition underflow :: "systembuf \<Rightarrow> channel \<Rightarrow> byte option \<times> systembuf \<times> channel" where
  "underflow b ch =
     (let (data, ch) = sys_read (sb_bufsize b) ch
      in case data of
           [] \<Rightarrow> (None, b, ch)
         | c # _ \<Rightarrow> (Some c, b\<lparr>sb_in := data\<rparr>, ch))"

definition sync :: "systembuf \<Rightarrow> channel \<Rightarrow> bool \<times> systembuf \<times> channel" where
  "sync b ch =
     (let (n, ch) = sys_write (sb_out b) ch; ok = (n = Some (length (sb_out b)))
      in (ok, if ok then b\<lparr>sb_out := []\<rparr> else b, ch))"

text \<open>\<open>overflow\<close>, called when the put area is full; the character \<open>None\<close> is \<open>eof\<close>, the result is false for \<open>eof\<close>.\<close>

definition overflow :: "byte option \<Rightarrow> systembuf \<Rightarrow> channel \<Rightarrow> bool \<times> systembuf \<times> channel" where
  "overflow c b ch =
     (let (ok, b, ch) = sync b ch
      in if \<not> ok then (False, b, ch)
         else case c of
           None \<Rightarrow> (True, b, ch)
         | Some c \<Rightarrow> (True, b\<lparr>sb_out := sb_out b @ [c]\<rparr>, ch))"

section \<open>What \<open>std::streambuf\<close> does with it\<close>

definition sputc :: "byte \<Rightarrow> systembuf \<Rightarrow> channel \<Rightarrow> bool \<times> systembuf \<times> channel" where
  "sputc c b ch =
     (if length (sb_out b) < sb_bufsize b then (True, b\<lparr>sb_out := sb_out b @ [c]\<rparr>, ch) else overflow (Some c) b ch)"

text \<open>An output stream stops at the first failure.\<close>

fun sputn :: "bytes \<Rightarrow> systembuf \<Rightarrow> channel \<Rightarrow> bool \<times> systembuf \<times> channel" where
  "sputn [] b ch = (True, b, ch)"
| "sputn (c # cs) b ch =
     (let (ok, b, ch) = sputc c b ch in if ok then sputn cs b ch else (False, b, ch))"

definition sbumpc :: "systembuf \<Rightarrow> channel \<Rightarrow> byte option \<times> systembuf \<times> channel" where
  "sbumpc b ch =
     (case sb_in b of
        c # cs \<Rightarrow> (Some c, b\<lparr>sb_in := cs\<rparr>, ch)
      | [] \<Rightarrow> (let (r, b, ch) = underflow b ch
               in case r of None \<Rightarrow> (None, b, ch) | Some c \<Rightarrow> (Some c, b\<lparr>sb_in := tl (sb_in b)\<rparr>, ch)))"

text \<open>\<open>n\<close> characters are asked for; the reading ends at \<open>eof\<close>.\<close>

fun sgetn :: "nat \<Rightarrow> systembuf \<Rightarrow> channel \<Rightarrow> bytes \<times> systembuf \<times> channel" where
  "sgetn 0 b ch = ([], b, ch)"
| "sgetn (Suc n) b ch =
     (let (r, b, ch) = sbumpc b ch
      in case r of
           None \<Rightarrow> ([], b, ch)
         | Some c \<Rightarrow> (let (cs, b, ch) = sgetn n b ch in (c # cs, b, ch)))"

text \<open>\<open>postream::close\<close> flushes, whatever comes of it, and closes the handle.\<close>

definition postream_close :: "systembuf \<Rightarrow> channel \<Rightarrow> systembuf \<times> channel" where
  "postream_close b ch = (let (_, b, ch) = sync b ch in (b, ch))"

section \<open>What is written is what is read\<close>

lemma sync_all: "cn_writes ch = [] \<Longrightarrow> sync b ch = (True, b\<lparr>sb_out := []\<rparr>, ch\<lparr>cn_data := cn_data ch @ sb_out b\<rparr>)"
  by (simp add: sync_def sys_write_def)

text \<open>No byte is lost between the channel and the put area, which never outgrows its array.\<close>

lemma sputn_result:
  assumes "0 < sb_bufsize b" and "length (sb_out b) \<le> sb_bufsize b" and "cn_writes ch = []"
  shows "\<exists>b' ch'. sputn bs b ch = (True, b', ch') \<and> cn_data ch' @ sb_out b' = cn_data ch @ sb_out b @ bs
    \<and> length (sb_out b') \<le> sb_bufsize b' \<and> sb_bufsize b' = sb_bufsize b \<and> cn_writes ch' = [] \<and> cn_reads ch' = cn_reads ch"
  using assms
proof (induction bs arbitrary: b ch)
  case (Cons c cs)
  let ?b = "if length (sb_out b) < sb_bufsize b then b\<lparr>sb_out := sb_out b @ [c]\<rparr> else b\<lparr>sb_out := [c]\<rparr>"
  let ?ch = "if length (sb_out b) < sb_bufsize b then ch else ch\<lparr>cn_data := cn_data ch @ sb_out b\<rparr>"
  have "sputc c b ch = (True, ?b, ?ch)"
    using Cons.prems by (simp add: sputc_def overflow_def sync_all)
  moreover have "0 < sb_bufsize ?b" "length (sb_out ?b) \<le> sb_bufsize ?b" "cn_writes ?ch = []"
    using Cons.prems by auto
  from Cons.IH [OF this] obtain b' ch' where "sputn cs ?b ?ch = (True, b', ch')"
    "cn_data ch' @ sb_out b' = cn_data ?ch @ sb_out ?b @ cs" "length (sb_out b') \<le> sb_bufsize b'" "sb_bufsize b' = sb_bufsize ?b"
    "cn_writes ch' = []" "cn_reads ch' = cn_reads ?ch"
    by blast
  ultimately show ?case
    by auto
qed simp

lemma sgetn_result:
  assumes "0 < sb_bufsize b"
  shows "fst (sgetn n b ch) = take n (sb_in b @ cn_data ch)"
  using assms
proof (induction n arbitrary: b ch)
  case (Suc n)
  show ?case
  proof (cases "sb_in b")
    case (Cons c cs)
    then show ?thesis
      using Suc.IH [of "b\<lparr>sb_in := cs\<rparr>" ch] Suc.prems by (simp add: sbumpc_def Let_def case_prod_unfold)
  next
    case Nil
    define k where "k = (case cn_reads ch of [] \<Rightarrow> sb_bufsize b | m # _ \<Rightarrow> min (sb_bufsize b) (Suc m))"
    have k: "0 < k"
      using Suc.prems by (auto simp: k_def split: list.splits)
    let ?ch = "ch\<lparr>cn_data := drop k (cn_data ch), cn_reads := tl (cn_reads ch)\<rparr>"
    have r: "sys_read (sb_bufsize b) ch = (take k (cn_data ch), ?ch)"
      by (simp add: sys_read_def k_def Let_def)
    show ?thesis
    proof (cases "cn_data ch")
      case Nil
      then show ?thesis
        using \<open>sb_in b = []\<close> r by (simp add: sbumpc_def underflow_def)
    next
      case (Cons c cs)
      obtain j where "k = Suc j"
        using k by (cases k) auto
      then have "take k (cn_data ch) = c # take j cs" "drop k (cn_data ch) = drop j cs"
        using Cons by simp_all
      then show ?thesis
        using \<open>sb_in b = []\<close> r Cons Suc.IH [of "b\<lparr>sb_in := take j cs\<rparr>" ?ch] Suc.prems
        by (simp add: sbumpc_def underflow_def Let_def case_prod_unfold)
    qed
  qed
qed simp



text \<open>
  A \<open>write\<close> that takes a part only is an error, after which the whole put area is sent again: the part that was
  taken is in the channel twice.
\<close>

lemma short_write_repeats:
  assumes "cn_writes ch = [Some j]" and "j < length (sb_out b)"
  shows "sync b ch = (False, b, ch\<lparr>cn_data := cn_data ch @ take j (sb_out b), cn_writes := []\<rparr>)"
    and "sync b (ch\<lparr>cn_data := cn_data ch @ take j (sb_out b), cn_writes := []\<rparr>)
      = (True, b\<lparr>sb_out := []\<rparr>, ch\<lparr>cn_data := (cn_data ch @ take j (sb_out b)) @ sb_out b, cn_writes := []\<rparr>)"
  using assms by (simp_all add: sync_def sys_write_def)

end
